(* ===== verification/JS_Prelude.thy ===== *)
theory JS_Prelude
  imports Main "HOL-Library.List_Lexorder" "HOL-Library.Multiset" "HOL-Library.Code_Target_Numeral"
begin

text \<open>
  What every component of the repository shares, and what JavaScript gives all of them:
  strings as lists of UTF-16 code units, the values a program receives as
  \<^verbatim>\<open>unknown\<close>, \<^verbatim>\<open>Map\<close> with its insertion order, and the string operations
  the sources use. The order on strings is the lexicographic order of code units (the order of
  JavaScript's \<open><\<close> on strings and of \<open>Array.prototype.sort\<close> without a comparator); it is
  the order \<open>HOL-Library.List_Lexorder\<close> puts on \<open>nat list\<close>.
\<close>

named_theorems js_simps \<open>evaluation of the JavaScript primitives the sources use\<close>
named_theorems jm_simps \<open>lookups in a JavaScript Map after an update\<close>

section \<open>Strings\<close>

type_synonym ustr = "nat list" \<comment> \<open>UTF-16 code units\<close>
type_synonym bytes = "nat list" \<comment> \<open>a Buffer or Uint8Array\<close>

text \<open>An ASCII string literal of the source.\<close>

definition lit :: "string \<Rightarrow> ustr" where
  "lit s = map of_char s"

lemma lit_eq_iff [simp]: "lit s = lit t \<longleftrightarrow> s = t"
proof -
  have "inj (of_char :: char \<Rightarrow> nat)"
    by (rule inj_of_char)
  then show ?thesis
    by (simp add: lit_def inj_map_eq_map)
qed

lemma lit_Nil [simp]: "lit [] = []"
  by (simp add: lit_def)

lemma lit_append: "lit (s @ t) = lit s @ lit t"
  by (simp add: lit_def)

lemma length_lit [simp]: "length (lit s) = length s"
  by (simp add: lit_def)

lemma lit_eq_Nil [simp]: "lit s = [] \<longleftrightarrow> s = []" "[] = lit s \<longleftrightarrow> s = []"
  by (simp_all add: lit_def)

text \<open>\<open>String.prototype.startsWith\<close>, \<open>endsWith\<close>, \<open>includes\<close>, \<open>slice\<close> (with
  non-negative bounds) and \<open>split\<close> on a one-character separator.\<close>

definition starts_with :: "ustr \<Rightarrow> ustr \<Rightarrow> bool" where
  "starts_with p s \<longleftrightarrow> take (length p) s = p"

definition ends_with :: "ustr \<Rightarrow> ustr \<Rightarrow> bool" where
  "ends_with p s \<longleftrightarrow> length p \<le> length s \<and> drop (length s - length p) s = p"

fun str_includes :: "ustr \<Rightarrow> ustr \<Rightarrow> bool" where
  "str_includes p [] = (p = [])"
| "str_includes p (c # s) = (starts_with p (c # s) \<or> str_includes p s)"

definition slice :: "nat \<Rightarrow> nat \<Rightarrow> 'a list \<Rightarrow> 'a list" where
  "slice a b xs = take (b - a) (drop a xs)"

definition slice_from :: "nat \<Rightarrow> 'a list \<Rightarrow> 'a list" where
  "slice_from a xs = drop a xs"

fun split_on :: "nat \<Rightarrow> ustr \<Rightarrow> ustr list" where
  "split_on c [] = [[]]"
| "split_on c (x # s) =
     (if x = c then [] # split_on c s
      else (case split_on c s of [] \<Rightarrow> [[x]] | w # ws \<Rightarrow> (x # w) # ws))"

fun join_with :: "ustr \<Rightarrow> ustr list \<Rightarrow> ustr" where
  "join_with sep [] = []"
| "join_with sep [w] = w"
| "join_with sep (w # ws) = w @ sep @ join_with sep ws"

lemma starts_with_append [simp]: "starts_with p (p @ s)"
  by (simp add: starts_with_def)

lemma starts_with_iff: "starts_with p s \<longleftrightarrow> (\<exists>r. s = p @ r)"
  by (metis append_take_drop_id starts_with_append starts_with_def)

lemma split_on_nonempty [simp]: "split_on c s \<noteq> []"
  by (induction s) (auto split: list.splits)

lemma split_on_no_sep: "c \<notin> set s \<Longrightarrow> split_on c s = [s]"
  by (induction s) auto

lemma split_on_append:
  "c \<notin> set s \<Longrightarrow> split_on c (s @ c # t) = s # split_on c t"
  by (induction s) auto

lemma split_on_words: "w \<in> set (split_on c s) \<Longrightarrow> c \<notin> set w"
proof (induction s arbitrary: w)
  case Nil
  then show ?case by simp
next
  case (Cons x s)
  then show ?case
    by (cases "split_on c s") (auto split: if_splits)
qed

lemma join_split_on: "join_with [c] (split_on c s) = s"
proof (induction s)
  case Nil
  then show ?case by simp
next
  case (Cons x s)
  show ?case
  proof (cases "split_on c s")
    case Nil
    then show ?thesis by simp
  next
    case (Cons w ws)
    with \<open>join_with [c] (split_on c s) = s\<close> show ?thesis
      by (cases ws) auto
  qed
qed

text \<open>Lower-case hexadecimal text of a byte string, as \<open>Buffer.toString("hex")\<close> writes it.\<close>

definition hex_digit :: "nat \<Rightarrow> nat" where
  "hex_digit n = (if n < 10 then 48 + n else 87 + n)"

definition hex_of_byte :: "nat \<Rightarrow> ustr" where
  "hex_of_byte b = [hex_digit (b div 16), hex_digit (b mod 16)]"

definition to_hex :: "bytes \<Rightarrow> ustr" where
  "to_hex bs = concat (map hex_of_byte bs)"

text \<open>A code unit of the class \<^verbatim>\<open>[a-f0-9]\<close>.\<close>

definition is_lower_hex :: "nat \<Rightarrow> bool" where
  "is_lower_hex c \<longleftrightarrow> (48 \<le> c \<and> c \<le> 57) \<or> (97 \<le> c \<and> c \<le> 102)"

definition hex_value :: "nat \<Rightarrow> nat" where
  "hex_value c = (if c \<le> 57 then c - 48 else c - 87)"

fun of_hex :: "ustr \<Rightarrow> bytes" where
  "of_hex (a # b # s) = (16 * hex_value a + hex_value b) # of_hex s"
| "of_hex _ = []"

definition byte_string :: "bytes \<Rightarrow> bool" where
  "byte_string bs \<longleftrightarrow> (\<forall>b \<in> set bs. b < 256)"

lemma hex_digit_lower: "n < 16 \<Longrightarrow> is_lower_hex (hex_digit n)"
  by (auto simp: hex_digit_def is_lower_hex_def)

lemma hex_value_digit: "n < 16 \<Longrightarrow> hex_value (hex_digit n) = n"
  by (auto simp: hex_digit_def hex_value_def)

lemma of_hex_to_hex: "byte_string bs \<Longrightarrow> of_hex (to_hex bs) = bs"
proof (induction bs)
  case Nil
  then show ?case by (simp add: to_hex_def)
next
  case (Cons b bs)
  then have "b < 256" and "of_hex (to_hex bs) = bs"
    by (simp_all add: byte_string_def)
  then show ?case
    by (simp add: to_hex_def hex_of_byte_def hex_value_digit)
qed

lemma length_to_hex: "length (to_hex bs) = 2 * length bs"
  by (induction bs) (auto simp: to_hex_def hex_of_byte_def)

lemma to_hex_lower: "byte_string bs \<Longrightarrow> list_all is_lower_hex (to_hex bs)"
  by (induction bs) (auto simp: to_hex_def hex_of_byte_def byte_string_def hex_digit_lower)

lemma to_hex_inject: "byte_string a \<Longrightarrow> byte_string b \<Longrightarrow> to_hex a = to_hex b \<longleftrightarrow> a = b"
  by (metis of_hex_to_hex)

text \<open>\<^verbatim>\<open>writeBigUInt64BE(BigInt.asUintN(64, n))\<close>.\<close>

definition uint64_be :: "int \<Rightarrow> bytes" where
  "uint64_be n = map (\<lambda>i. nat (n div 256 ^ (7 - i) mod 256)) [0..<8]"

text \<open>The identifier grammars the sources repeat: \<^verbatim>\<open>[a-f0-9]{64}\<close>,
  \<^verbatim>\<open>sha256:[a-f0-9]{64}\<close> and \<^verbatim>\<open>NAMESPACE:[a-z0-9][a-z0-9_-]{2,63}\<close>.\<close>

definition is_sha256_hex :: "ustr \<Rightarrow> bool" where
  "is_sha256_hex s \<longleftrightarrow> length s = 64 \<and> list_all is_lower_hex s"

definition is_sha256_id :: "ustr \<Rightarrow> bool" where
  "is_sha256_id s \<longleftrightarrow> starts_with (lit ''sha256:'') s \<and> is_sha256_hex (drop 7 s)"

definition is_id_start :: "nat \<Rightarrow> bool" where
  "is_id_start c \<longleftrightarrow> (97 \<le> c \<and> c \<le> 122) \<or> (48 \<le> c \<and> c \<le> 57)"

definition is_id_char :: "nat \<Rightarrow> bool" where
  "is_id_char c \<longleftrightarrow> is_id_start c \<or> c = 95 \<or> c = 45"

definition is_id_suffix :: "ustr \<Rightarrow> bool" where
  "is_id_suffix s \<longleftrightarrow> 3 \<le> length s \<and> length s \<le> 64 \<and> is_id_start (hd s) \<and> list_all is_id_char s"

definition is_typed_id :: "string \<Rightarrow> ustr \<Rightarrow> bool" where
  "is_typed_id ns s \<longleftrightarrow>
     starts_with (lit (ns @ '':'')) s \<and> is_id_suffix (drop (length ns + 1) s)"

abbreviation is_review_id :: "ustr \<Rightarrow> bool" where
  "is_review_id \<equiv> is_typed_id ''review''"

text \<open>\<open>String.prototype.trim\<close> removes the white space and line terminators of ECMAScript.\<close>

definition js_space :: "nat \<Rightarrow> bool" where
  "js_space c \<longleftrightarrow> c \<in> {9, 10, 11, 12, 13, 32, 160, 5760, 8232, 8233, 8239, 8287, 12288, 65279}
     \<or> (8192 \<le> c \<and> c \<le> 8202)"

definition trim_start :: "ustr \<Rightarrow> ustr" where
  "trim_start s = dropWhile js_space s"

definition trim_end :: "ustr \<Rightarrow> ustr" where
  "trim_end s = rev (dropWhile js_space (rev s))"

definition trim :: "ustr \<Rightarrow> ustr" where
  "trim s = trim_end (trim_start s)"

section \<open>Values\<close>

text \<open>
  A number is an integer-valued double, another finite double (its exact rational value is not
  needed by any component, so it is kept as its numerator and denominator), or one of NaN and the
  infinities. The two zeros are identified: no source distinguishes them.
\<close>

datatype jsnum = NInt int | NFrac int int | NNonFinite

text \<open>
  The values that reach a boundary typed \<^verbatim>\<open>unknown\<close>. An object is the list of its own
  enumerable string-keyed data properties in creation order; \<open>JOther\<close> is a function or a symbol.
\<close>

datatype jsval =
    JUndef
  | JNull
  | JBool bool
  | JNum jsnum
  | JStr ustr
  | JArr "jsval list"
  | JObj "(ustr \<times> jsval) list"
  | JOther

abbreviation jstr :: "string \<Rightarrow> jsval" where
  "jstr s \<equiv> JStr (lit s)"

abbreviation jint :: "int \<Rightarrow> jsval" where
  "jint i \<equiv> JNum (NInt i)"

abbreviation MAX_SAFE_INTEGER :: int where
  "MAX_SAFE_INTEGER \<equiv> 9007199254740991"

text \<open>Reading \<^verbatim>\<open>value.key\<close> or \<^verbatim>\<open>value?.key\<close>: a missing property, and any
  property of a value that is no object, is \<^verbatim>\<open>undefined\<close>.\<close>

fun get_prop :: "jsval \<Rightarrow> ustr \<Rightarrow> jsval" where
  "get_prop (JObj kvs) k = (case map_of kvs k of None \<Rightarrow> JUndef | Some v \<Rightarrow> v)"
| "get_prop _ k = JUndef"

abbreviation field :: "jsval \<Rightarrow> string \<Rightarrow> jsval" where
  "field v k \<equiv> get_prop v (lit k)"

text \<open>\<^verbatim>\<open>===\<close>: two objects or arrays that reach a comparison of the sources come from
  different places, so they are different references; NaN differs from itself.\<close>

fun strict_eq :: "jsval \<Rightarrow> jsval \<Rightarrow> bool" where
  "strict_eq (JArr _) _ = False"
| "strict_eq (JObj _) _ = False"
| "strict_eq (JNum NNonFinite) _ = False"
| "strict_eq JOther _ = False"
| "strict_eq v w = (v = w)"

fun is_record :: "jsval \<Rightarrow> bool" where
  "is_record (JObj _) = True"
| "is_record _ = False"

fun is_string :: "jsval \<Rightarrow> bool" where
  "is_string (JStr _) = True"
| "is_string _ = False"

fun is_array :: "jsval \<Rightarrow> bool" where
  "is_array (JArr _) = True"
| "is_array _ = False"

fun is_safe_integer :: "jsval \<Rightarrow> bool" where
  "is_safe_integer (JNum (NInt i)) = (\<bar>i\<bar> \<le> MAX_SAFE_INTEGER)"
| "is_safe_integer _ = False"

fun the_str :: "jsval \<Rightarrow> ustr" where
  "the_str (JStr s) = s"
| "the_str _ = []"

fun the_int :: "jsval \<Rightarrow> int" where
  "the_int (JNum (NInt i)) = i"
| "the_int _ = 0"

fun the_array :: "jsval \<Rightarrow> jsval list" where
  "the_array (JArr vs) = vs"
| "the_array _ = []"

definition is_non_empty_string :: "jsval \<Rightarrow> bool" where
  "is_non_empty_string v \<longleftrightarrow> is_string v \<and> trim (the_str v) \<noteq> []"

fun is_comparable :: "jsval \<Rightarrow> bool" where
  "is_comparable (JArr _) = False"
| "is_comparable (JObj _) = False"
| "is_comparable (JNum NNonFinite) = False"
| "is_comparable JOther = False"
| "is_comparable _ = True"

lemma strict_eq_iff: "strict_eq v w \<longleftrightarrow> v = w \<and> is_comparable v"
  by (cases "(v, w)" rule: strict_eq.cases) auto

lemma strict_eq_JStr [simp]:
  "strict_eq v (JStr s) \<longleftrightarrow> v = JStr s" "strict_eq (JStr s) v \<longleftrightarrow> v = JStr s"
  by (auto simp: strict_eq_iff)

lemma strict_eq_JBool [simp]:
  "strict_eq v (JBool b) \<longleftrightarrow> v = JBool b" "strict_eq (JBool b) v \<longleftrightarrow> v = JBool b"
  by (auto simp: strict_eq_iff)

lemma strict_eq_JUndef [simp]:
  "strict_eq v JUndef \<longleftrightarrow> v = JUndef" "strict_eq JUndef v \<longleftrightarrow> v = JUndef"
  by (auto simp: strict_eq_iff)

lemma strict_eq_sym: "strict_eq v w \<longleftrightarrow> strict_eq w v"
  by (auto simp: strict_eq_iff)

lemma strict_eq_imp_eq: "strict_eq v w \<Longrightarrow> v = w"
  by (simp add: strict_eq_iff)

lemma is_string_iff: "is_string v \<longleftrightarrow> (\<exists>s. v = JStr s)"
  by (cases v) auto

lemma is_record_iff: "is_record v \<longleftrightarrow> (\<exists>kvs. v = JObj kvs)"
  by (cases v) auto

text \<open>Property names of an object are distinct at every level.\<close>

fun wf_js :: "jsval \<Rightarrow> bool" where
  "wf_js (JArr vs) = (\<forall>v \<in> set vs. wf_js v)"
| "wf_js (JObj kvs) = (distinct (map fst kvs) \<and> (\<forall>p \<in> set kvs. wf_js (snd p)))"
| "wf_js _ = True"

section \<open>The Map of JavaScript\<close>

text \<open>
  A \<^verbatim>\<open>Map\<close> iterates in insertion order; overwriting a key keeps its place. It is an
  association list without repeated keys.
\<close>

type_synonym ('k, 'v) jmap = "('k \<times> 'v) list"

abbreviation jm_get :: "('k, 'v) jmap \<Rightarrow> 'k \<Rightarrow> 'v option" where
  "jm_get m k \<equiv> map_of m k"

definition jm_has :: "('k, 'v) jmap \<Rightarrow> 'k \<Rightarrow> bool" where
  "jm_has m k \<longleftrightarrow> map_of m k \<noteq> None"

fun jm_set :: "('k, 'v) jmap \<Rightarrow> 'k \<Rightarrow> 'v \<Rightarrow> ('k, 'v) jmap" where
  "jm_set [] k v = [(k, v)]"
| "jm_set ((k', v') # m) k v = (if k' = k then (k, v) # m else (k', v') # jm_set m k v)"

definition jm_delete :: "('k, 'v) jmap \<Rightarrow> 'k \<Rightarrow> ('k, 'v) jmap" where
  "jm_delete m k = filter (\<lambda>p. fst p \<noteq> k) m"

definition jm_values :: "('k, 'v) jmap \<Rightarrow> 'v list" where
  "jm_values m = map snd m"

definition jm_wf :: "('k, 'v) jmap \<Rightarrow> bool" where
  "jm_wf m \<longleftrightarrow> distinct (map fst m)"

lemma map_of_jm_set [simp, jm_simps]: "map_of (jm_set m k v) = (map_of m)(k \<mapsto> v)"
  by (induction m k v rule: jm_set.induct) (auto simp: fun_eq_iff)

lemma map_of_filter_key:
  "map_of (filter (\<lambda>p. P (fst p)) m) k = (if P k then map_of m k else None)"
  by (induction m) auto

lemma map_of_jm_delete [simp, jm_simps]: "map_of (jm_delete m k) = (map_of m)(k := None)"
  by (rule ext) (simp add: jm_delete_def map_of_filter_key [of "\<lambda>x. x \<noteq> k"])

lemma keys_jm_set: "fst ` set (jm_set m k v) = insert k (fst ` set m)"
  by (induction m k v rule: jm_set.induct) auto

lemma jm_wf_set [simp]: "jm_wf m \<Longrightarrow> jm_wf (jm_set m k v)"
  by (induction m k v rule: jm_set.induct) (auto simp: jm_wf_def keys_jm_set)

lemma jm_wf_delete [simp]: "jm_wf m \<Longrightarrow> jm_wf (jm_delete m k)"
  unfolding jm_wf_def jm_delete_def by (induction m) auto

lemma jm_wf_Nil [simp]: "jm_wf []"
  by (simp add: jm_wf_def)

lemma jm_set_fresh: "map_of m k = None \<Longrightarrow> jm_set m k v = m @ [(k, v)]"
  by (induction m k v rule: jm_set.induct) auto

lemma jm_wf_mem: "jm_wf m \<Longrightarrow> (k, v) \<in> set m \<longleftrightarrow> map_of m k = Some v"
  by (simp add: jm_wf_def)

lemma jm_has_set [simp]: "jm_has (jm_set m k v) j \<longleftrightarrow> j = k \<or> jm_has m j"
  by (simp add: jm_has_def)

lemma jm_has_delete [simp]: "jm_has (jm_delete m k) j \<longleftrightarrow> j \<noteq> k \<and> jm_has m j"
  by (simp add: jm_has_def)

lemma not_jm_has [simp]: "\<not> jm_has m k \<longleftrightarrow> map_of m k = None"
  by (simp add: jm_has_def)

section \<open>Lists\<close>

text \<open>\<open>Array.prototype.find\<close>.\<close>

fun find_first :: "('a \<Rightarrow> bool) \<Rightarrow> 'a list \<Rightarrow> 'a option" where
  "find_first P [] = None"
| "find_first P (x # xs) = (if P x then Some x else find_first P xs)"

lemma find_first_None: "find_first P xs = None \<longleftrightarrow> (\<forall>x \<in> set xs. \<not> P x)"
  by (induction xs) auto

lemma find_first_SomeD: "find_first P xs = Some x \<Longrightarrow> x \<in> set xs \<and> P x"
  by (induction xs) (auto split: if_splits)

lemma find_first_unique:
  assumes "x \<in> set xs" "P x" "\<forall>y \<in> set xs. P y \<longrightarrow> y = x"
  shows "find_first P xs = Some x"
proof (cases "find_first P xs")
  case None
  then have "\<forall>y \<in> set xs. \<not> P y" by (simp add: find_first_None)
  with assms(1,2) show ?thesis by blast
next
  case (Some y)
  from find_first_SomeD [OF this] assms(3) have "y = x" by blast
  with Some show ?thesis by simp
qed

lemma find_first_append:
  "find_first P (xs @ ys) = (case find_first P xs of None \<Rightarrow> find_first P ys | Some x \<Rightarrow> Some x)"
  by (induction xs) auto

text \<open>Strictly increasing lists.\<close>

lemma sorted_wrt_less_snoc:
  "sorted_wrt (<) (xs @ [x :: 'a :: linorder]) \<longleftrightarrow> sorted_wrt (<) xs \<and> (\<forall>y \<in> set xs. y < x)"
  by (auto simp: sorted_wrt_append)

lemma sorted_wrt_less_distinct: "sorted_wrt (<) (xs :: 'a :: linorder list) \<Longrightarrow> distinct xs"
  by (induction xs) auto

lemma sort_strict_id: "sorted_wrt (<) (map f xs) \<Longrightarrow> sort_key f xs = (xs :: 'a list)"
  for f :: "'a \<Rightarrow> 'b :: linorder"
  by (rule sort_key_id_if_sorted) (simp add: strict_sorted_imp_sorted)

lemma sort_key_mset_unique:
  fixes f :: "'a \<Rightarrow> 'b :: linorder"
  assumes "mset xs = mset ys" and "distinct (map f xs)"
  shows "sort_key f xs = sort_key f ys"
proof -
  have eq: "mset (map f (sort_key f xs)) = mset (map f xs)"
    "mset (map f (sort_key f ys)) = mset (map f xs)"
    using assms(1) by simp_all
  have d: "distinct (map f (sort_key f xs))" "distinct (map f (sort_key f ys))"
    using mset_eq_imp_distinct_iff [OF eq(1)] mset_eq_imp_distinct_iff [OF eq(2)] assms(2)
    by blast+
  have s: "set (sort_key f xs) = set (sort_key f ys)"
    using mset_eq_setD [OF assms(1)] by simp
  have "inj_on f (set (sort_key f xs) \<union> set (sort_key f ys))"
    using d(1) s by (simp add: distinct_map)
  then show ?thesis
    using d s by (intro map_sorted_distinct_set_unique [of f]) simp_all
qed

section \<open>Results that may be an error\<close>

text \<open>A call that may throw: \<open>Inl\<close> carries what is thrown. \<open>sbind\<close> runs the continuation on
  the value of a call that returned.\<close>

fun sbind :: "'e + 'a \<Rightarrow> ('a \<Rightarrow> 'e + 'b) \<Rightarrow> 'e + 'b" where
  "sbind (Inl e) k = Inl e"
| "sbind (Inr x) k = k x"

lemma sbind_Inr_iff [simp]: "sbind m k = Inr y \<longleftrightarrow> (\<exists>x. m = Inr x \<and> k x = Inr y)"
  by (cases m) auto

lemma sbind_assoc: "sbind (sbind m k) h = sbind m (\<lambda>x. sbind (k x) h)"
  by (cases m) simp_all

lemma sbind_cong [fundef_cong]:
  "m = m' \<Longrightarrow> (\<And>x. m' = Inr x \<Longrightarrow> k x = k' x) \<Longrightarrow> sbind m k = sbind m' k'"
  by (cases m') auto

lemma sort_key_map: "sort_key f (map g xs) = map g (sort_key (\<lambda>x. f (g x)) xs)"
  for f :: "'b \<Rightarrow> 'c :: linorder"
proof -
  have ins: "insort_key f (g x) (map g ys) = map g (insort_key (\<lambda>x. f (g x)) x ys)" for x ys
    by (induction ys) auto
  show ?thesis
    by (induction xs) (simp_all add: sort_key_def ins)
qed

end
