(* ===== verification/Json_Text.thy ===== *)
theory Json_Text
  imports JS_Prelude
begin

text \<open>
  \<open>JSON.stringify\<close> on strings and numbers, \<open>JSON.parse\<close>, and UTF-8 encoding: the parts of
  ECMAScript's standard library that the canonical form, the stores and the hashing rest on.
  The recursive descent of \<open>JSON.parse\<close> is structural in a fuel argument;
  \<open>parse_value_fuel\<close> shows that the fuel \<open>json_parse\<close> passes is always enough.
\<close>

section \<open>The platform\<close>

text \<open>
  What the sources take from outside the repository: SHA-256 (\<^verbatim>\<open>node:crypto\<close>), and the
  shortest decimal text of a non-integral double with the double that a decimal literal denotes.
\<close>

record platform =
  sha256 :: "bytes \<Rightarrow> bytes"
  frac_text :: "int \<Rightarrow> int \<Rightarrow> ustr"
  number_of_text :: "ustr \<Rightarrow> jsnum"

text \<open>Documented behaviour of SHA-256: a digest is 32 bytes.\<close>

definition sha256_digests :: "platform \<Rightarrow> bool" where
  "sha256_digests P \<longleftrightarrow> (\<forall>m. byte_string (sha256 P m) \<and> length (sha256 P m) = 32)"

section \<open>Strings\<close>

definition is_high_surrogate :: "nat \<Rightarrow> bool" where
  "is_high_surrogate c \<longleftrightarrow> 0xd800 \<le> c \<and> c \<le> 0xdbff"

definition is_low_surrogate :: "nat \<Rightarrow> bool" where
  "is_low_surrogate c \<longleftrightarrow> 0xdc00 \<le> c \<and> c \<le> 0xdfff"

definition unicode_escape :: "nat \<Rightarrow> ustr" where
  "unicode_escape c = [92, 117, hex_digit (c div 4096), hex_digit (c div 256 mod 16),
     hex_digit (c div 16 mod 16), hex_digit (c mod 16)]"

text \<open>The escape of one code unit that is no surrogate.\<close>

definition quote_unit :: "nat \<Rightarrow> ustr" where
  "quote_unit c =
     (if c = 8 then [92, 98] else if c = 9 then [92, 116] else if c = 10 then [92, 110]
      else if c = 12 then [92, 102] else if c = 13 then [92, 114]
      else if c = 34 then [92, 34] else if c = 92 then [92, 92]
      else if c < 32 then unicode_escape c else [c])"

fun quote_units :: "ustr \<Rightarrow> ustr" where
  "quote_units [] = []"
| "quote_units (c # s) =
     (if is_high_surrogate c then
        (case s of
           d # s' \<Rightarrow> if is_low_surrogate d then c # d # quote_units s'
                     else unicode_escape c @ quote_units s
         | [] \<Rightarrow> unicode_escape c)
      else if is_low_surrogate c then unicode_escape c @ quote_units s
      else quote_unit c @ quote_units s)"

definition json_quote :: "ustr \<Rightarrow> ustr" where
  "json_quote s = 34 # quote_units s @ [34]"

section \<open>Numbers\<close>

fun digits_of_nat :: "nat \<Rightarrow> ustr" where
  "digits_of_nat n = (if n < 10 then [48 + n] else digits_of_nat (n div 10) @ [48 + n mod 10])"

declare digits_of_nat.simps [simp del]

definition int_text :: "int \<Rightarrow> ustr" where
  "int_text i = (if i < 0 then 45 # digits_of_nat (nat (- i)) else digits_of_nat (nat i))"

definition is_digit :: "nat \<Rightarrow> bool" where
  "is_digit c \<longleftrightarrow> 48 \<le> c \<and> c \<le> 57"

definition nat_of_digits :: "ustr \<Rightarrow> nat" where
  "nat_of_digits ds = foldl (\<lambda>n d. 10 * n + (d - 48)) 0 ds"

lemma digits_of_nat_digits: "list_all is_digit (digits_of_nat n)"
proof (induction n rule: digits_of_nat.induct)
  case (1 n)
  then show ?case
    by (cases "n < 10") (auto simp: digits_of_nat.simps [of n] is_digit_def)
qed

lemma digits_of_nat_nonempty [simp]: "digits_of_nat n \<noteq> []"
  by (subst digits_of_nat.simps) simp

lemma nat_of_digits_append:
  "nat_of_digits (ds @ [d]) = 10 * nat_of_digits ds + (d - 48)"
  by (simp add: nat_of_digits_def)

lemma nat_of_digits_of_nat: "nat_of_digits (digits_of_nat n) = n"
proof (induction n rule: digits_of_nat.induct)
  case (1 n)
  show ?case
  proof (cases "n < 10")
    case True
    then show ?thesis
      by (simp add: digits_of_nat.simps [of n] nat_of_digits_def)
  next
    case False
    with "1.IH" show ?thesis
      by (simp add: digits_of_nat.simps [of n] nat_of_digits_append)
  qed
qed

lemma hd_digits_of_nat: "hd (digits_of_nat n) = 48 \<longleftrightarrow> n = 0"
proof (induction n rule: digits_of_nat.induct)
  case (1 n)
  show ?case
  proof (cases "n < 10")
    case True
    then show ?thesis by (simp add: digits_of_nat.simps [of n])
  next
    case False
    with "1.IH" show ?thesis by (simp add: digits_of_nat.simps [of n])
  qed
qed

section \<open>Parsing\<close>

definition json_space :: "nat \<Rightarrow> bool" where
  "json_space c \<longleftrightarrow> c = 32 \<or> c = 9 \<or> c = 10 \<or> c = 13"

definition skip_ws :: "ustr \<Rightarrow> ustr" where
  "skip_ws s = dropWhile json_space s"

definition is_hex :: "nat \<Rightarrow> bool" where
  "is_hex c \<longleftrightarrow> is_lower_hex c \<or> (65 \<le> c \<and> c \<le> 70)"

definition any_hex_value :: "nat \<Rightarrow> nat" where
  "any_hex_value c = (if is_lower_hex c then hex_value c else c - 55)"

text \<open>The characters after an opening quote, up to the closing one.\<close>

fun parse_string :: "ustr \<Rightarrow> (ustr \<times> ustr) option" where
  "parse_string [] = None"
| "parse_string (c # r) =
     (if c = 34 then Some ([], r)
      else if c < 32 then None
      else if c \<noteq> 92 then map_option (map_prod (Cons c) id) (parse_string r)
      else (case r of
          [] \<Rightarrow> None
        | e # r' \<Rightarrow>
            (if e = 34 \<or> e = 92 \<or> e = 47 then map_option (map_prod (Cons e) id) (parse_string r')
             else if e = 98 then map_option (map_prod (Cons 8) id) (parse_string r')
             else if e = 102 then map_option (map_prod (Cons 12) id) (parse_string r')
             else if e = 110 then map_option (map_prod (Cons 10) id) (parse_string r')
             else if e = 114 then map_option (map_prod (Cons 13) id) (parse_string r')
             else if e = 116 then map_option (map_prod (Cons 9) id) (parse_string r')
             else if e = 117 then
               (case r' of
                  h1 # h2 # h3 # h4 # r'' \<Rightarrow>
                    if list_all is_hex [h1, h2, h3, h4] then
                      map_option (map_prod (Cons (4096 * any_hex_value h1 + 256 * any_hex_value h2
                        + 16 * any_hex_value h3 + any_hex_value h4)) id) (parse_string r'')
                    else None
                | _ \<Rightarrow> None)
             else None)))"

text \<open>A number literal: an optional minus, an integer part without a superfluous zero, an
  optional fraction and an optional exponent. \<open>span_digits\<close> takes the longest run of digits.\<close>

definition span_digits :: "ustr \<Rightarrow> ustr \<times> ustr" where
  "span_digits s = (takeWhile is_digit s, dropWhile is_digit s)"

definition parse_fraction :: "ustr \<Rightarrow> (ustr \<times> ustr) option" where
  "parse_fraction s =
     (case s of
        c # r \<Rightarrow> if c = 46 then
                   (let (ds, r') = span_digits r in if ds = [] then None else Some (c # ds, r'))
                 else Some ([], s)
      | [] \<Rightarrow> Some ([], []))"

definition parse_exponent :: "ustr \<Rightarrow> (ustr \<times> ustr) option" where
  "parse_exponent s =
     (case s of
        c # r \<Rightarrow> if c = 101 \<or> c = 69 then
                   (let (sgn, r1) = (case r of d # r' \<Rightarrow> if d = 43 \<or> d = 45 then ([d], r') else ([], r)
                                       | [] \<Rightarrow> ([], []));
                        (ds, r2) = span_digits r1
                    in if ds = [] then None else Some (c # sgn @ ds, r2))
                 else Some ([], s)
      | [] \<Rightarrow> Some ([], []))"

definition number_of_literal :: "platform \<Rightarrow> bool \<Rightarrow> ustr \<Rightarrow> ustr \<Rightarrow> ustr \<Rightarrow> jsnum" where
  "number_of_literal P neg ds fr ex =
     (let i = (if neg then - int (nat_of_digits ds) else int (nat_of_digits ds))
      in if fr = [] \<and> ex = [] \<and> \<bar>i\<bar> \<le> MAX_SAFE_INTEGER then NInt i
         else number_of_text P ((if neg then [45] else []) @ ds @ fr @ ex))"

definition parse_unsigned :: "platform \<Rightarrow> bool \<Rightarrow> ustr \<Rightarrow> (jsnum \<times> ustr) option" where
  "parse_unsigned P neg s =
     (let (ds, r) = span_digits s
      in if ds = [] \<or> (length ds > 1 \<and> hd ds = 48) then None
         else (case parse_fraction r of
             None \<Rightarrow> None
           | Some (fr, r1) \<Rightarrow>
               (case parse_exponent r1 of
                  None \<Rightarrow> None
                | Some (ex, r2) \<Rightarrow> Some (number_of_literal P neg ds fr ex, r2))))"

definition parse_number :: "platform \<Rightarrow> ustr \<Rightarrow> (jsnum \<times> ustr) option" where
  "parse_number P s =
     (case s of
        [] \<Rightarrow> None
      | c # r \<Rightarrow> if c = 45 then parse_unsigned P True r else parse_unsigned P False s)"

text \<open>The order of an object's own members: array indices first, by their number, then the other names
  in the order they were added. A repeated member name keeps its first place and takes the last
  value.\<close>

definition array_index :: "ustr \<Rightarrow> bool" where
  "array_index k \<longleftrightarrow> k \<noteq> [] \<and> list_all is_digit k \<and> (hd k \<noteq> 48 \<or> length k = 1) \<and> nat_of_digits k < 4294967295"

definition own_order :: "(ustr \<times> 'v) list \<Rightarrow> (ustr \<times> 'v) list" where
  "own_order m = sort_key (\<lambda>p. nat_of_digits (fst p)) (filter (\<lambda>p. array_index (fst p)) m)
     @ filter (\<lambda>p. \<not> array_index (fst p)) m"

definition object_of_members :: "(ustr \<times> jsval) list \<Rightarrow> jsval" where
  "object_of_members kvs = JObj (own_order (foldl (\<lambda>m p. jm_set m (fst p) (snd p)) [] kvs))"

lemma own_order_Nil [simp]: "own_order [] = []"
  by (simp add: own_order_def)

lemma own_order_map: "own_order (map (\<lambda>p. (fst p, f (snd p))) m) = map (\<lambda>p. (fst p, f (snd p))) (own_order m)"
  by (simp add: own_order_def sort_key_map filter_map comp_def)

lemma mset_own_order [simp]: "mset (own_order m) = mset m"
  by (simp add: own_order_def)

lemma set_own_order [simp]: "set (own_order m) = set m"
  by (metis mset_own_order set_mset_mset)

lemma distinct_own_order [simp]: "distinct (map fst (own_order m)) \<longleftrightarrow> distinct (map fst m)"
  by (metis mset_map mset_own_order mset_eq_imp_distinct_iff)

lemma own_order_eq_Nil [simp]: "own_order m = [] \<longleftrightarrow> m = []"
  by (metis mset_own_order mset_zero_iff)

lemma own_order_names: "\<forall>p \<in> set m. \<not> array_index (fst p) \<Longrightarrow> own_order m = m"
  by (simp add: own_order_def filter_empty_conv filter_id_conv)

lemma array_index_lit [simp]: "\<not> is_digit (of_char c) \<Longrightarrow> \<not> array_index (lit (c # s))"
  by (simp add: array_index_def lit_def)

text \<open>Members with the same name keep their order, so sorting by name forgets the order of the members.\<close>

lemma filter_own_order: "filter (\<lambda>p. fst p = k) (own_order m) = filter (\<lambda>p. fst p = k) m"
proof -
  have "sort_key (\<lambda>p. nat_of_digits (fst p)) (filter (\<lambda>p. fst p = k) m) = filter (\<lambda>p. fst p = k) m"
    by (rule sort_key_id_if_sorted) (induction m, auto)
  moreover have k: "filter (\<lambda>p. Q (fst p) \<and> fst p = k) m = (if Q k then filter (\<lambda>p. fst p = k) m else [])" for Q
    by (induction m) auto
  ultimately show ?thesis
    using k [of array_index] k [of "\<lambda>x. \<not> array_index x"] by (simp add: own_order_def filter_sort)
qed

lemma sort_own_order [simp]: "sort_key fst (own_order m) = sort_key fst m"
proof (rule properties_for_sort_key)
  show "filter (\<lambda>x. fst k = fst x) (sort_key fst m) = filter (\<lambda>x. fst k = fst x) (own_order m)" for k
    using filter_own_order [of "fst k" m] sort_key_stable [of fst "fst k" m] by (simp add: eq_commute)
qed simp_all

fun parse_value :: "platform \<Rightarrow> nat \<Rightarrow> ustr \<Rightarrow> (jsval \<times> ustr) option"
and parse_elements :: "platform \<Rightarrow> nat \<Rightarrow> ustr \<Rightarrow> (jsval list \<times> ustr) option"
and parse_members :: "platform \<Rightarrow> nat \<Rightarrow> ustr \<Rightarrow> ((ustr \<times> jsval) list \<times> ustr) option" where
  "parse_value P 0 s = None"
| "parse_value P (Suc n) s =
     (case skip_ws s of
        [] \<Rightarrow> None
      | c # r \<Rightarrow>
          if c = 34 then map_option (map_prod JStr id) (parse_string r)
          else if c = 91 then
            (case skip_ws r of
               [] \<Rightarrow> None
             | d # r' \<Rightarrow> if d = 93 then Some (JArr [], r')
                         else map_option (map_prod JArr id) (parse_elements P n r))
          else if c = 123 then
            (case skip_ws r of
               [] \<Rightarrow> None
             | d # r' \<Rightarrow> if d = 125 then Some (JObj [], r')
                         else map_option (map_prod object_of_members id) (parse_members P n r))
          else if starts_with (lit ''true'') (c # r) then Some (JBool True, drop 3 r)
          else if starts_with (lit ''false'') (c # r) then Some (JBool False, drop 4 r)
          else if starts_with (lit ''null'') (c # r) then Some (JNull, drop 3 r)
          else map_option (map_prod JNum id) (parse_number P (c # r)))"
| "parse_elements P 0 s = None"
| "parse_elements P (Suc n) s =
     (case parse_value P n s of
        None \<Rightarrow> None
      | Some (v, r) \<Rightarrow>
          (case skip_ws r of
             [] \<Rightarrow> None
           | c # r' \<Rightarrow> if c = 93 then Some ([v], r')
                       else if c = 44 then map_option (map_prod (Cons v) id) (parse_elements P n r')
                       else None))"
| "parse_members P 0 s = None"
| "parse_members P (Suc n) s =
     (case skip_ws s of
        [] \<Rightarrow> None
      | q # r0 \<Rightarrow>
          if q \<noteq> 34 then None
          else (case parse_string r0 of
              None \<Rightarrow> None
            | Some (k, r1) \<Rightarrow>
                (case skip_ws r1 of
                   [] \<Rightarrow> None
                 | c # r2 \<Rightarrow>
                     if c \<noteq> 58 then None
                     else (case parse_value P n r2 of
                         None \<Rightarrow> None
                       | Some (v, r3) \<Rightarrow>
                           (case skip_ws r3 of
                              [] \<Rightarrow> None
                            | e # r4 \<Rightarrow>
                                if e = 125 then Some ([(k, v)], r4)
                                else if e = 44 then
                                  map_option (map_prod (Cons (k, v)) id) (parse_members P n r4)
                                else None)))))"

definition json_parse :: "platform \<Rightarrow> ustr \<Rightarrow> jsval option" where
  "json_parse P s =
     (case parse_value P (2 * length s + 1) s of
        None \<Rightarrow> None
      | Some (v, r) \<Rightarrow> if skip_ws r = [] then Some v else None)"

section \<open>Every parser consumes input\<close>

lemma length_skip_ws: "length (skip_ws s) \<le> length s"
  by (simp add: skip_ws_def length_dropWhile_le)

lemma skip_ws_Cons: "skip_ws s = c # r \<Longrightarrow> length r < length s"
  using length_skip_ws [of s] by simp

lemma parse_string_length: "parse_string s = Some (t, r) \<Longrightarrow> length r < length s"
proof (induction s arbitrary: t r rule: length_induct)
  case (1 s)
  have shorter: "length u < length s \<longrightarrow> length r' < length u"
    if "parse_string u = Some (t', r')" for u t' r'
    using "1.IH" that by blast
  from "1.prems" show ?case
    by (cases s) (auto split: if_splits list.splits dest!: shorter)
qed

lemma span_digits_length: "span_digits s = (ds, r) \<Longrightarrow> length s = length ds + length r"
  unfolding span_digits_def by (metis Pair_inject length_append takeWhile_dropWhile_id)

lemma parse_fraction_length: "parse_fraction s = Some (fr, r) \<Longrightarrow> length r \<le> length s"
  by (auto simp: parse_fraction_def split: list.splits if_splits prod.splits
      dest: span_digits_length)

lemma parse_exponent_length: "parse_exponent s = Some (ex, r) \<Longrightarrow> length r \<le> length s"
  by (auto simp: parse_exponent_def split: list.splits if_splits prod.splits
      dest: span_digits_length)

lemma parse_unsigned_length: "parse_unsigned P neg s = Some (x, r) \<Longrightarrow> length r < length s"
  by (auto simp: parse_unsigned_def neq_Nil_conv split: if_splits option.splits prod.splits
      dest!: span_digits_length parse_fraction_length parse_exponent_length)

lemma parse_number_length: "parse_number P s = Some (x, r) \<Longrightarrow> length r < length s"
  by (auto simp: parse_number_def split: if_splits list.splits dest!: parse_unsigned_length)

lemma parse_lengths_all:
  "(\<forall>s v r. parse_value P n s = Some (v, r) \<longrightarrow> length r < length s) \<and>
   (\<forall>s vs r. parse_elements P n s = Some (vs, r) \<longrightarrow> length r < length s) \<and>
   (\<forall>s kvs r. parse_members P n s = Some (kvs, r) \<longrightarrow> length r < length s)"
proof (induction n)
  case 0
  then show ?case by simp
next
  case (Suc n)
  note ih = Suc.IH
  have v: "length r < length s" if pv: "parse_value P (Suc n) s = Some (v, r)" for s v r
  proof (cases "skip_ws s")
    case Nil
    with pv show ?thesis by simp
  next
    case (Cons c t)
    have "length r < Suc (length t)"
      using pv Cons
      by (auto split: if_splits list.splits dest!: parse_string_length parse_number_length
          skip_ws_Cons ih [THEN conjunct2, THEN conjunct1, rule_format]
          ih [THEN conjunct2, THEN conjunct2, rule_format])
    then show ?thesis
      using length_skip_ws [of s] Cons by simp
  qed
  have e: "length r < length s" if pe: "parse_elements P (Suc n) s = Some (vs, r)" for s vs r
  proof -
    obtain v r1 c r2 where "parse_value P n s = Some (v, r1)" and "skip_ws r1 = c # r2"
      and "r = r2 \<or> (\<exists>ws. parse_elements P n r2 = Some (ws, r))"
      using pe by (auto split: if_splits list.splits option.splits)
    then have "length r1 < length s" "length r2 < length r1" "r = r2 \<or> length r < length r2"
      using ih by (auto dest: skip_ws_Cons)
    then show ?thesis by auto
  qed
  have m: "length r < length s" if pm: "parse_members P (Suc n) s = Some (kvs, r)" for s kvs r
  proof -
    obtain q r0 k r1 c r2 v r3 d r4 where "skip_ws s = q # r0" and "parse_string r0 = Some (k, r1)"
      and "skip_ws r1 = c # r2" and "parse_value P n r2 = Some (v, r3)" and "skip_ws r3 = d # r4"
      and "r = r4 \<or> (\<exists>ws. parse_members P n r4 = Some (ws, r))"
      using pm by (auto split: if_splits list.splits option.splits)
    then have "length r0 < length s" "length r1 < length r0" "length r2 < length r1"
      "length r3 < length r2" "length r4 < length r3" "r = r4 \<or> length r < length r4"
      using ih by (auto dest: skip_ws_Cons parse_string_length)
    then show ?thesis by auto
  qed
  from v e m show ?case by blast
qed

lemmas parse_value_length = parse_lengths_all [THEN conjunct1, rule_format]
lemmas parse_elements_length = parse_lengths_all [THEN conjunct2, THEN conjunct1, rule_format]
lemmas parse_members_length = parse_lengths_all [THEN conjunct2, THEN conjunct2, rule_format]

section \<open>The fuel of the parser suffices\<close>

text \<open>With fuel above twice the length of the text, more fuel changes nothing: a text that
  \<open>json_parse\<close> refuses is not JSON, it did not run out of fuel.\<close>

lemma parse_fuel_all:
  "(\<forall>s m. 2 * length s < n \<longrightarrow> n \<le> m \<longrightarrow> parse_value P m s = parse_value P n s) \<and>
   (\<forall>s m. 2 * length s + 1 < n \<longrightarrow> n \<le> m \<longrightarrow> parse_elements P m s = parse_elements P n s) \<and>
   (\<forall>s m. 2 * length s + 1 < n \<longrightarrow> n \<le> m \<longrightarrow> parse_members P m s = parse_members P n s)"
proof (induction n)
  case 0
  then show ?case by simp
next
  case (Suc n)
  note ihv = Suc.IH [THEN conjunct1, rule_format]
  note ihe = Suc.IH [THEN conjunct2, THEN conjunct1, rule_format]
  note ihm = Suc.IH [THEN conjunct2, THEN conjunct2, rule_format]
  have v: "parse_value P (Suc m) s = parse_value P (Suc n) s"
    if len: "2 * length s < Suc n" and le: "n \<le> m" for s m
  proof (cases "skip_ws s")
    case Nil
    then show ?thesis by simp
  next
    case (Cons c r)
    then have "2 * length r + 1 < n"
      using len skip_ws_Cons [OF Cons] by linarith
    with le have "parse_elements P m r = parse_elements P n r"
      "parse_members P m r = parse_members P n r"
      using ihe ihm by blast+
    with Cons show ?thesis by (simp split: list.split)
  qed
  have e: "parse_elements P (Suc m) s = parse_elements P (Suc n) s"
    if len: "2 * length s + 1 < Suc n" and le: "n \<le> m" for s m
  proof -
    have "parse_value P m s = parse_value P n s"
      by (rule ihv) (use len le in linarith)+
    moreover have "parse_elements P m r' = parse_elements P n r'"
      if "parse_value P n s = Some (v, r)" "skip_ws r = c # r'" for v r c r'
    proof (rule ihe)
      show "2 * length r' + 1 < n"
        using len parse_value_length [OF that(1)] skip_ws_Cons [OF that(2)] by linarith
    qed (rule le)
    ultimately show ?thesis
      by (simp split: option.split list.split)
  qed
  have m: "parse_members P (Suc m) s = parse_members P (Suc n) s"
    if len: "2 * length s + 1 < Suc n" and le: "n \<le> m" for s m
  proof -
    have "parse_value P m r2 = parse_value P n r2"
      if "skip_ws s = q # r0" "parse_string r0 = Some (k, r1)" "skip_ws r1 = c # r2" for q r0 k r1 c r2
    proof (rule ihv)
      show "2 * length r2 < n"
        using len parse_string_length [OF that(2)] skip_ws_Cons [OF that(1)] skip_ws_Cons [OF that(3)]
        by linarith
    qed (rule le)
    moreover have "parse_members P m r4 = parse_members P n r4"
      if "skip_ws s = q # r0" "parse_string r0 = Some (k, r1)" "skip_ws r1 = c # r2"
        "parse_value P n r2 = Some (v, r3)" "skip_ws r3 = e # r4" for q r0 k r1 c r2 v r3 e r4
    proof (rule ihm)
      show "2 * length r4 + 1 < n"
        using len parse_string_length [OF that(2)] skip_ws_Cons [OF that(1)] skip_ws_Cons [OF that(3)]
          parse_value_length [OF that(4)] skip_ws_Cons [OF that(5)]
        by linarith
    qed (rule le)
    ultimately show ?thesis
      by (simp split: option.split list.split)
  qed
  have pred: "\<exists>k. m = Suc k \<and> n \<le> k" if "Suc n \<le> m" for m
    using that by (cases m) simp_all
  show ?case
    using v e m by (blast dest: pred)
qed

lemmas parse_value_fuel = parse_fuel_all [THEN conjunct1, rule_format]

lemma json_parse_fuel:
  assumes "parse_value P n s = Some (v, r)" and "2 * length s < n" and "skip_ws r = []"
  shows "json_parse P s = Some v"
  using assms parse_value_fuel [of s "2 * length s + 1" n P] by (simp add: json_parse_def)

section \<open>Quoting and parsing a string\<close>

text \<open>Every code unit of a JavaScript string is a 16-bit value.\<close>

definition code_units :: "ustr \<Rightarrow> bool" where
  "code_units s \<longleftrightarrow> (\<forall>c \<in> set s. c < 65536)"

lemma hex_digit_any: "n < 16 \<Longrightarrow> is_hex (hex_digit n) \<and> any_hex_value (hex_digit n) = n"
  by (simp add: is_hex_def any_hex_value_def hex_digit_lower hex_value_digit)

lemma parse_unicode_escape:
  assumes "c < 65536"
  shows "parse_string (unicode_escape c @ r) = map_option (map_prod (Cons c) id) (parse_string r)"
proof -
  have d: "c div 4096 < 16" "c div 256 mod 16 < 16" "c div 16 mod 16 < 16" "c mod 16 < 16"
    using assms by auto
  have "4096 * (c div 4096) + 256 * (c div 256 mod 16) + 16 * (c div 16 mod 16) + c mod 16 = c"
  proof -
    have "c div 256 = 16 * (c div 4096) + c div 256 mod 16"
      using mult_div_mod_eq [of 16 "c div 256"] by (simp add: div_mult2_eq [symmetric])
    moreover have "c div 16 = 16 * (c div 256) + c div 16 mod 16"
      using mult_div_mod_eq [of 16 "c div 16"] by (simp add: div_mult2_eq [symmetric])
    ultimately show ?thesis
      using mult_div_mod_eq [of 16 c] by linarith
  qed
  then show ?thesis
    by (simp add: unicode_escape_def d hex_digit_any)
qed

lemma parse_quote_unit:
  assumes "c < 65536"
  shows "parse_string (quote_unit c @ r) = map_option (map_prod (Cons c) id) (parse_string r)"
  using parse_unicode_escape [OF assms] by (simp add: quote_unit_def)

lemma parse_quote_units:
  "code_units s \<Longrightarrow> parse_string (quote_units s @ 34 # r) = Some (s, r)"
proof (induction s rule: quote_units.induct)
  case 1
  then show ?case by simp
next
  case (2 c s)
  then have c: "c < 65536" and s: "code_units s"
    by (simp_all add: code_units_def)
  have hi: "c \<noteq> 34 \<and> \<not> c < 32 \<and> c \<noteq> 92" if "is_high_surrogate c"
    using that by (simp add: is_high_surrogate_def)
  have lo: "d \<noteq> 34 \<and> \<not> d < 32 \<and> d \<noteq> 92" if "is_low_surrogate d" for d
    using that by (simp add: is_low_surrogate_def)
  show ?case
  proof (cases s)
    case Nil
    then show ?thesis
      using c parse_unicode_escape [OF c, of "34 # r"] parse_quote_unit [OF c, of "34 # r"]
      by simp
  next
    case (Cons d s')
    then show ?thesis
      using 2 c s hi lo [of d] parse_unicode_escape [OF c] parse_quote_unit [OF c]
      by (auto simp: code_units_def)
  qed
qed

section \<open>Writing and parsing an integer\<close>

text \<open>What may follow a number in a JSON text without being read as a part of it.\<close>

definition ends_number :: "ustr \<Rightarrow> bool" where
  "ends_number r \<longleftrightarrow> r = [] \<or> \<not> (is_digit (hd r) \<or> hd r = 46 \<or> hd r = 101 \<or> hd r = 69)"

lemma span_digits_append:
  assumes "list_all is_digit ds" and "r = [] \<or> \<not> is_digit (hd r)"
  shows "span_digits (ds @ r) = (ds, r)"
proof -
  have "takeWhile is_digit r = []" "dropWhile is_digit r = r"
    using assms(2) by (cases r; auto)+
  with assms(1) show ?thesis
    by (simp add: span_digits_def list_all_iff takeWhile_append2 dropWhile_append2)
qed

lemma ends_number_parts:
  assumes "ends_number r"
  shows "parse_fraction r = Some ([], r)" and "parse_exponent r = Some ([], r)"
  using assms by (cases r; simp add: parse_fraction_def parse_exponent_def ends_number_def)+

lemma digits_of_nat_leading:
  "\<not> (Suc 0 < length (digits_of_nat n) \<and> hd (digits_of_nat n) = 48)"
  using hd_digits_of_nat [of n] by (cases "n = 0") (simp_all add: digits_of_nat.simps [of 0])

lemma hd_digits_not_minus: "hd (digits_of_nat n) \<noteq> 45"
  using digits_of_nat_digits [of n] digits_of_nat_nonempty [of n]
  by (cases "digits_of_nat n") (auto simp: is_digit_def)

lemma parse_int_text:
  assumes "\<bar>i\<bar> \<le> MAX_SAFE_INTEGER" and "ends_number r"
  shows "parse_number P (int_text i @ r) = Some (NInt i, r)"
proof -
  define m where "m = nat \<bar>i\<bar>"
  have sp: "span_digits (digits_of_nat m @ r) = (digits_of_nat m, r)"
    using assms(2) digits_of_nat_digits by (intro span_digits_append) (auto simp: ends_number_def)
  have pu: "parse_unsigned P neg (digits_of_nat m @ r) =
      Some (number_of_literal P neg (digits_of_nat m) [] [], r)" for neg
    using sp ends_number_parts [OF assms(2)] digits_of_nat_leading [of m]
    by (simp add: parse_unsigned_def)
  show ?thesis
  proof (cases "i < 0")
    case True
    then have "int_text i = 45 # digits_of_nat m" "- int m = i"
      by (simp_all add: int_text_def m_def)
    with pu [of True] assms(1) show ?thesis
      by (simp add: parse_number_def number_of_literal_def nat_of_digits_of_nat)
  next
    case False
    then have "int_text i = digits_of_nat m" "int m = i"
      by (simp_all add: int_text_def m_def)
    then have "parse_unsigned P False (digits_of_nat m @ r) = Some (NInt i, r)"
      using pu [of False] assms(1) by (simp add: number_of_literal_def nat_of_digits_of_nat)
    with \<open>int_text i = digits_of_nat m\<close> hd_digits_not_minus [of m] show ?thesis
      by (cases "digits_of_nat m") (simp_all add: parse_number_def)
  qed
qed

section \<open>UTF-8\<close>

text \<open>The bytes \<open>hash.update(text, "utf8")\<close> and \<open>Buffer.from(text, "utf8")\<close> see: a surrogate
  pair is one four-byte sequence, a lone surrogate is the replacement character U+FFFD.\<close>

definition utf8_three :: "nat \<Rightarrow> bytes" where
  "utf8_three c = [0xe0 + c div 4096, 0x80 + c div 64 mod 64, 0x80 + c mod 64]"

definition code_point :: "nat \<Rightarrow> nat \<Rightarrow> nat" where
  "code_point c d = 0x10000 + (c - 0xd800) * 1024 + (d - 0xdc00)"

definition utf8_four :: "nat \<Rightarrow> bytes" where
  "utf8_four p = [0xf0 + p div 262144, 0x80 + p div 4096 mod 64, 0x80 + p div 64 mod 64,
     0x80 + p mod 64]"

fun utf8 :: "ustr \<Rightarrow> bytes" where
  "utf8 [] = []"
| "utf8 (c # s) =
     (if c < 0x80 then c # utf8 s
      else if c < 0x800 then [0xc0 + c div 64, 0x80 + c mod 64] @ utf8 s
      else if is_high_surrogate c then
        (case s of
           d # s' \<Rightarrow> if is_low_surrogate d then utf8_four (code_point c d) @ utf8 s'
                     else utf8_three 0xfffd @ utf8 s
         | [] \<Rightarrow> utf8_three 0xfffd)
      else if is_low_surrogate c then utf8_three 0xfffd @ utf8 s
      else utf8_three c @ utf8 s)"

text \<open>\<open>Buffer.toString("utf8")\<close>: a lead byte fixes how many continuation bytes follow and the range
  of the first of them; a byte out of range ends the sequence with U+FFFD and is read again.\<close>

definition utf16_units :: "nat \<Rightarrow> ustr" where
  "utf16_units p = (if p < 0x10000 then [p] else [0xd800 + (p - 0x10000) div 1024, 0xdc00 + (p - 0x10000) mod 1024])"

definition utf8_lead :: "nat \<Rightarrow> ustr \<times> nat \<times> nat \<times> nat \<times> nat" where
  "utf8_lead b =
     (if b < 0x80 then ([b], 0, 0, 0, 0)
      else if b < 0xc2 then ([0xfffd], 0, 0, 0, 0)
      else if b < 0xe0 then ([], 1, 0x80, 0xbf, b - 0xc0)
      else if b < 0xf0 then
        ([], 2, if b = 0xe0 then 0xa0 else 0x80, if b = 0xed then 0x9f else 0xbf, b - 0xe0)
      else if b < 0xf5 then
        ([], 3, if b = 0xf0 then 0x90 else 0x80, if b = 0xf4 then 0x8f else 0xbf, b - 0xf0)
      else ([0xfffd], 0, 0, 0, 0))"

fun utf8_go :: "nat \<times> nat \<times> nat \<times> nat \<Rightarrow> bytes \<Rightarrow> ustr" where
  "utf8_go (n, lo, hi, p) [] = (if n = 0 then [] else [0xfffd])"
| "utf8_go (n, lo, hi, p) (b # r) =
     (if n = 0 then fst (utf8_lead b) @ utf8_go (snd (utf8_lead b)) r
      else if lo \<le> b \<and> b \<le> hi then
        (if n = 1 then utf16_units (p * 64 + (b - 0x80)) @ utf8_go (0, 0, 0, 0) r
         else utf8_go (n - 1, 0x80, 0xbf, p * 64 + (b - 0x80)) r)
      else 0xfffd # fst (utf8_lead b) @ utf8_go (snd (utf8_lead b)) r)"

definition utf8_decode :: "bytes \<Rightarrow> ustr" where
  "utf8_decode bs = utf8_go (0, 0, 0, 0) bs"

lemma utf8_decode_ascii: "c < 0x80 \<Longrightarrow> utf8_decode (c # r) = c # utf8_decode r"
  by (simp add: utf8_decode_def utf8_lead_def)

lemma utf8_decode_two:
  assumes "0x80 \<le> c" "c < 0x800"
  shows "utf8_decode ([0xc0 + c div 64, 0x80 + c mod 64] @ r) = c # utf8_decode r"
proof -
  define a b where "a = c div 64" and "b = c mod 64"
  have "c = a * 64 + b" "b < 64" by (auto simp: a_def b_def)
  moreover from this assms have "2 \<le> a" "a < 32" by linarith+
  ultimately have "utf8_decode ([0xc0 + a, 0x80 + b] @ r) = c # utf8_decode r"
    using assms by (simp add: utf8_decode_def utf8_lead_def utf16_units_def)
  then show ?thesis by (simp add: a_def b_def)
qed

lemma base64_step: "(n :: nat) div (64 * m) * 64 + n div m mod 64 = n div m"
proof -
  have "n div (64 * m) = n div m div 64"
    by (metis div_mult2_eq mult.commute)
  then show ?thesis by simp
qed

lemma base64_digits:
  "(n div 4096 * 64 + n div 64 mod 64) * 64 + n mod 64 = (n :: nat)"
  "((n div 262144 * 64 + n div 4096 mod 64) * 64 + n div 64 mod 64) * 64 + n mod 64 = n"
  using base64_step [of n 64] base64_step [of n 4096] by simp_all

lemma decode_three:
  assumes "0x800 \<le> c" "c < 0x10000" "\<not> is_high_surrogate c" "\<not> is_low_surrogate c"
  shows "utf8_decode (utf8_three c @ r) = c # utf8_decode r"
proof -
  define a b d where "a = c div 4096" and "b = c div 64 mod 64" and "d = c mod 64"
  have c: "c = (a * 64 + b) * 64 + d" and lt: "a < 16" "b < 64" "d < 64"
    using assms base64_digits(1) [of c] by (auto simp: a_def b_def d_def div_less_iff_less_mult)
  have lo: "a = 0 \<Longrightarrow> 32 \<le> b" and hi: "a = 13 \<Longrightarrow> b < 32"
    using assms(1,3,4) lt unfolding c is_high_surrogate_def is_low_surrogate_def by auto
  have "utf8_decode ([0xe0 + a, 0x80 + b, 0x80 + d] @ r) = c # utf8_decode r"
    using lt lo hi assms(2) by (auto simp: utf8_decode_def utf8_lead_def utf16_units_def c)
  then show ?thesis by (simp add: utf8_three_def a_def b_def d_def)
qed

lemma decode_four:
  assumes "0x10000 \<le> p" "p < 0x110000"
  shows "utf8_decode (utf8_four p @ r) =
    (0xd800 + (p - 0x10000) div 1024) # (0xdc00 + (p - 0x10000) mod 1024) # utf8_decode r"
proof -
  define a b d e where "a = p div 262144" and "b = p div 4096 mod 64" and "d = p div 64 mod 64"
    and "e = p mod 64"
  have p: "p = ((a * 64 + b) * 64 + d) * 64 + e" and lt: "a < 5" "b < 64" "d < 64" "e < 64"
    using assms base64_digits(2) [of p] by (auto simp: a_def b_def d_def e_def div_less_iff_less_mult)
  have lo: "a = 0 \<Longrightarrow> 16 \<le> b" and hi: "a = 4 \<Longrightarrow> b < 16"
    using assms lt unfolding p by auto
  have "utf8_decode ([0xf0 + a, 0x80 + b, 0x80 + d, 0x80 + e] @ r) = utf16_units p @ utf8_decode r"
    using lt lo hi by (auto simp: utf8_decode_def utf8_lead_def p)
  then show ?thesis using assms by (simp add: utf8_four_def a_def b_def d_def e_def utf16_units_def)
qed

section \<open>A concrete platform\<close>

text \<open>A small instance of the platform, for evaluating the definitions on concrete inputs: a checksum
  of 32 bytes and one fractional number.\<close>

definition checksum :: "bytes \<Rightarrow> bytes" where
  "checksum m = replicate 31 0 @ [foldl (\<lambda>h b. (31 * h + b) mod 251) 7 m]"

definition sample_platform :: platform where
  "sample_platform =
     \<lparr>sha256 = checksum, frac_text = (\<lambda>n d. lit ''1.5''),
      number_of_text = (\<lambda>s. if s = lit ''1.5'' then NFrac 3 2 else NNonFinite)\<rparr>"

lemma foldl_mod_bound: "h < 251 \<Longrightarrow> foldl (\<lambda>h b. (31 * h + b) mod 251) (h :: nat) m < 251"
  by (induction m arbitrary: h) simp_all

lemma sample_platform_digests: "sha256_digests sample_platform"
  using foldl_mod_bound [of 7]
  by (auto simp: sha256_digests_def sample_platform_def checksum_def byte_string_def intro: less_trans [of _ 251])

end
