(* ===== verification/Canonical_Identity.thy ===== *)
theory Canonical_Identity
  imports Json_Text
begin

text \<open>
  The RFC 8785 canonical form of JSON data and the content identities built on it:
  \<^verbatim>\<open>packages/protocol-ts/src/canonical-identity.ts\<close> and
  \<^verbatim>\<open>packages/evidence-store/src/canonical-row.ts\<close>, on acyclic plain data: the
  cycles, accessors and foreign prototypes that \<^verbatim>\<open>unknown\<close> also allows are outside the data type.
\<close>

datatype canon_error =
    ShapeLimits | UnpairedSurrogate | UnsafeNumber | UnsupportedType
  | CyclicData | NotPlainObject | SymbolKeys | NotDenseArray | NotDataProperty

definition MAX_DEPTH :: nat where "MAX_DEPTH = 64"
definition MAX_NODES :: nat where "MAX_NODES = 20000"

section \<open>Definitions\<close>

fun hasUnpairedSurrogate :: "ustr \<Rightarrow> bool" where
  "hasUnpairedSurrogate [] = False"
| "hasUnpairedSurrogate (c # s) =
     (if is_high_surrogate c then
        (case s of
           [] \<Rightarrow> True
         | d # s' \<Rightarrow> if is_low_surrogate d then hasUnpairedSurrogate s' else True)
      else if is_low_surrogate c then True
      else hasUnpairedSurrogate s)"

fun safe_number :: "jsnum \<Rightarrow> bool" where
  "safe_number (NInt i) = (\<bar>i\<bar> \<le> MAX_SAFE_INTEGER)"
| "safe_number (NFrac n d) = (\<bar>n\<bar> \<le> MAX_SAFE_INTEGER * \<bar>d\<bar>)"
| "safe_number NNonFinite = False"

fun number_text :: "platform \<Rightarrow> jsnum \<Rightarrow> ustr" where
  "number_text P (NInt i) = int_text i"
| "number_text P (NFrac n d) = frac_text P n d"
| "number_text P NNonFinite = lit ''null''"

text \<open>The \<open>nodes\<close> counter is threaded through; member names are encoded, and counted, like
  values. The recursion ends because the depth is bounded.\<close>

function encode :: "platform \<Rightarrow> nat \<Rightarrow> nat \<Rightarrow> jsval \<Rightarrow> canon_error + ustr \<times> nat"
and encode_elements :: "platform \<Rightarrow> nat \<Rightarrow> nat \<Rightarrow> jsval list \<Rightarrow> canon_error + ustr list \<times> nat"
and encode_members ::
  "platform \<Rightarrow> nat \<Rightarrow> nat \<Rightarrow> (ustr \<times> jsval) list \<Rightarrow> canon_error + ustr list \<times> nat" where
  "encode P depth nodes v =
     (if nodes + 1 > MAX_NODES \<or> depth > MAX_DEPTH then Inl ShapeLimits
      else (case v of
          JNull \<Rightarrow> Inr (lit ''null'', nodes + 1)
        | JBool b \<Rightarrow> Inr (if b then lit ''true'' else lit ''false'', nodes + 1)
        | JStr s \<Rightarrow> if hasUnpairedSurrogate s then Inl UnpairedSurrogate
                    else Inr (json_quote s, nodes + 1)
        | JNum x \<Rightarrow> if \<not> safe_number x then Inl UnsafeNumber
                    else Inr (number_text P x, nodes + 1)
        | JArr vs \<Rightarrow> sbind (encode_elements P (depth + 1) (nodes + 1) vs)
                       (\<lambda>(ts, n). Inr (91 # join_with [44] ts @ [93], n))
        | JObj kvs \<Rightarrow> sbind (encode_members P (depth + 1) (nodes + 1) (sort_key fst kvs))
                       (\<lambda>(ts, n). Inr (123 # join_with [44] ts @ [125], n))
        | JUndef \<Rightarrow> Inl UnsupportedType
        | JOther \<Rightarrow> Inl UnsupportedType))"
| "encode_elements P depth nodes [] = Inr ([], nodes)"
| "encode_elements P depth nodes (v # vs) =
     sbind (encode P depth nodes v) (\<lambda>(t, n).
     sbind (encode_elements P depth n vs) (\<lambda>(ts, n'). Inr (t # ts, n')))"
| "encode_members P depth nodes [] = Inr ([], nodes)"
| "encode_members P depth nodes ((k, v) # kvs) =
     sbind (encode P depth nodes (JStr k)) (\<lambda>(tk, n1).
     sbind (encode P depth n1 v) (\<lambda>(tv, n2).
     sbind (encode_members P depth n2 kvs) (\<lambda>(ts, n3). Inr ((tk @ 58 # tv) # ts, n3))))"
  by pat_completeness auto

termination
  by (relation "measures
      [\<lambda>x. case x of Inl (P, d, n, v) \<Rightarrow> 66 - d | Inr (Inl (P, d, n, vs)) \<Rightarrow> 66 - d
           | Inr (Inr (P, d, n, kvs)) \<Rightarrow> 66 - d,
       \<lambda>x. case x of Inl _ \<Rightarrow> 0 | Inr (Inl (P, d, n, vs)) \<Rightarrow> 1 + length vs
           | Inr (Inr (P, d, n, kvs)) \<Rightarrow> 1 + length kvs]")
    (auto simp: MAX_DEPTH_def)

declare encode.simps [simp del]

definition canonicalizeProtocolJson :: "platform \<Rightarrow> jsval \<Rightarrow> canon_error + ustr" where
  "canonicalizeProtocolJson P v = sbind (encode P 0 0 v) (\<lambda>(t, n). Inr t)"

definition sha256ProtocolText :: "platform \<Rightarrow> ustr \<Rightarrow> ustr" where
  "sha256ProtocolText P s = lit ''sha256:'' @ to_hex (sha256 P (utf8 s))"

definition computeCanonicalSha256Id :: "platform \<Rightarrow> jsval \<Rightarrow> canon_error + ustr" where
  "computeCanonicalSha256Id P v = sbind (canonicalizeProtocolJson P v) (\<lambda>t. Inr (sha256ProtocolText P t))"

text \<open>Assigning a property of a plain object: \<^verbatim>\<open>__proto__\<close> is the accessor of the
  prototype, not a property. \<open>assign_all\<close> returns the own properties and whether the prototype is
  still one of a plain object.\<close>

fun assign_all :: "(ustr \<times> jsval) list \<Rightarrow> (ustr \<times> jsval) list \<times> bool" where
  "assign_all [] = ([], True)"
| "assign_all ((k, v) # kvs) =
     (let (own, plain) = assign_all kvs in
      if k = lit ''__proto__'' then (own, plain \<and> \<not> (is_record v \<or> is_array v))
      else ((k, v) # own, plain))"

definition recomputeExcludedFieldsIdentity ::
  "platform \<Rightarrow> jsval \<Rightarrow> ustr list \<Rightarrow> ustr option \<Rightarrow> canon_error + ustr option" where
  "recomputeExcludedFieldsIdentity P v excluded ns =
     (case v of
        JObj kvs \<Rightarrow>
          if excluded = [] \<or>
             \<not> (\<forall>f \<in> set excluded. jm_has kvs f \<or> f = lit ''exported_at'') then Inr None
          else
            (let (own, plain) = assign_all (filter (\<lambda>p. fst p \<notin> set excluded) kvs) in
             if \<not> plain then Inl NotPlainObject
             else sbind (computeCanonicalSha256Id P (JObj own)) (\<lambda>digest.
                Inr (Some (case ns of
                    None \<Rightarrow> digest
                  | Some n \<Rightarrow> n @ lit '':'' @ slice_from 7 digest))))
      | _ \<Rightarrow> Inr None)"

definition recomputeExcludedFieldIdentity ::
  "platform \<Rightarrow> jsval \<Rightarrow> ustr \<Rightarrow> ustr option \<Rightarrow> canon_error + ustr option" where
  "recomputeExcludedFieldIdentity P v f ns = recomputeExcludedFieldsIdentity P v [f] ns"

record canonicalRow =
  body :: ustr
  digest :: ustr

definition toCanonicalRow :: "platform \<Rightarrow> jsval \<Rightarrow> canon_error + canonicalRow" where
  "toCanonicalRow P artifact =
     sbind (canonicalizeProtocolJson P artifact) (\<lambda>b.
     sbind (computeCanonicalSha256Id P artifact) (\<lambda>d. Inr \<lparr>body = b, digest = d\<rparr>))"

definition fromCanonicalRow :: "platform \<Rightarrow> ustr \<Rightarrow> jsval option" where
  "fromCanonicalRow P b = json_parse P b"

definition canonicalRowDigestMatches :: "platform \<Rightarrow> canonicalRow \<Rightarrow> bool" where
  "canonicalRowDigestMatches P row =
     (case fromCanonicalRow P (body row) of
        None \<Rightarrow> False
      | Some v \<Rightarrow> (case toCanonicalRow P v of
            Inl _ \<Rightarrow> False
          | Inr row' \<Rightarrow> digest row' = digest row))"

section \<open>Text without lone surrogates is determined by its UTF-8 bytes\<close>

lemma hasUnpairedSurrogate_append:
  "\<not> hasUnpairedSurrogate s \<Longrightarrow> hasUnpairedSurrogate (s @ t) = hasUnpairedSurrogate t"
proof (induction s rule: hasUnpairedSurrogate.induct)
  case (2 c s)
  show ?case
  proof (cases "is_high_surrogate c")
    case True
    with 2 show ?thesis by (cases s) (simp_all split: if_splits)
  next
    case False
    with 2 show ?thesis by (simp split: if_splits)
  qed
qed simp

lemma surrogate_code_point:
  assumes "is_high_surrogate c" "is_low_surrogate d"
  shows "0x10000 \<le> code_point c d" "code_point c d < 0x110000"
    "0xd800 + (code_point c d - 0x10000) div 1024 = c"
    "0xdc00 + (code_point c d - 0x10000) mod 1024 = d"
proof -
  have cd: "0xd800 \<le> c" "c \<le> 0xdbff" "0xdc00 \<le> d" "d \<le> 0xdfff"
    using assms by (simp_all add: is_high_surrogate_def is_low_surrogate_def)
  then show "0x10000 \<le> code_point c d" "code_point c d < 0x110000"
    by (simp_all add: code_point_def)
  have "code_point c d - 0x10000 = (d - 0xdc00) + (c - 0xd800) * 1024" "d - 0xdc00 < 1024"
    using cd by (simp_all add: code_point_def)
  then have "(code_point c d - 0x10000) div 1024 = c - 0xd800"
    "(code_point c d - 0x10000) mod 1024 = d - 0xdc00"
    by simp_all
  with cd show "0xd800 + (code_point c d - 0x10000) div 1024 = c"
    "0xdc00 + (code_point c d - 0x10000) mod 1024 = d"
    by simp_all
qed

lemma utf8_decode_utf8:
  "code_units s \<Longrightarrow> \<not> hasUnpairedSurrogate s \<Longrightarrow> utf8_decode (utf8 s) = s"
proof (induction s rule: utf8.induct)
  case (2 c s)
  from "2.prems" have c: "c < 65536" and s: "code_units s"
    by (simp_all add: code_units_def)
  show ?case
  proof (cases "is_high_surrogate c")
    case True
    then obtain d s' where sd: "s = d # s'" "is_low_surrogate d" "\<not> hasUnpairedSurrogate s'"
      using "2.prems" by (auto split: list.splits if_splits)
    have big: "\<not> c < 0x80" "\<not> c < 0x800"
      using True by (simp_all add: is_high_surrogate_def)
    have "utf8_decode (utf8 s') = s'"
      using "2.IH"(3) [OF big True sd(1,2)] sd(3) s sd(1) by (simp add: code_units_def)
    moreover have "utf8 (c # s) = utf8_four (code_point c d) @ utf8 s'"
      using True sd big by simp
    ultimately show ?thesis
      using decode_four [OF surrogate_code_point(1,2) [OF True sd(2)]]
        surrogate_code_point(3,4) [OF True sd(2)] sd(1) by simp
  next
    case False
    then have low: "\<not> is_low_surrogate c" "\<not> hasUnpairedSurrogate s"
      using "2.prems" by (auto split: if_splits)
    consider "c < 0x80" | "\<not> c < 0x80" "c < 0x800" | "\<not> c < 0x80" "\<not> c < 0x800"
      by blast
    then show ?thesis
    proof cases
      case 1
      then show ?thesis using "2.IH"(1) s low by (simp add: utf8_decode_ascii)
    next
      case 2
      then show ?thesis using "2.IH"(2) s low utf8_decode_two [of c "utf8 s"] by simp
    next
      case 3
      then show ?thesis
        using "2.IH"(6) [OF 3 False low(1)] s low False decode_three [OF _ c False low(1)] by simp
    qed
  qed
qed (simp add: utf8_decode_def)

lemma utf8_inject:
  assumes "code_units s" "\<not> hasUnpairedSurrogate s" "code_units t" "\<not> hasUnpairedSurrogate t"
    and "utf8 s = utf8 t"
  shows "s = t"
  using assms utf8_decode_utf8 by metis

section \<open>Data up to the order of members\<close>

fun norm_js :: "jsval \<Rightarrow> jsval" where
  "norm_js (JArr vs) = JArr (map norm_js vs)"
| "norm_js (JObj kvs) = JObj (own_order (sort_key fst (map (\<lambda>p. (fst p, norm_js (snd p))) kvs)))"
| "norm_js v = v"

lemma norm_js_obj:
  "norm_js (JObj kvs) = JObj (own_order (map (\<lambda>p. (fst p, norm_js (snd p))) (sort_key fst kvs)))"
  by (simp add: sort_key_map)

lemma norm_js_cases:
  "norm_js v = (case v of JArr vs \<Rightarrow> JArr (map norm_js vs)
     | JObj kvs \<Rightarrow> JObj (own_order (map (\<lambda>p. (fst p, norm_js (snd p))) (sort_key fst kvs))) | _ \<Rightarrow> v)"
  by (cases v) (simp_all add: sort_key_map)

lemma encode_norm_all:
  "encode P d n (norm_js v) = encode P d n v"
  "encode_elements P d n (map norm_js vs) = encode_elements P d n vs"
  "encode_members P d n (map (\<lambda>p. (fst p, norm_js (snd p))) kvs) = encode_members P d n kvs"
proof (induction P d n v and P d n vs and P d n kvs
    rule: encode_encode_elements_encode_members.induct)
  case (1 P d n v)
  show ?case
  proof (cases "n + 1 > MAX_NODES \<or> d > MAX_DEPTH")
    case True
    then show ?thesis by (simp add: encode.simps)
  next
    case False
    show ?thesis
    proof (cases v)
      case (JArr vs)
      with False "1.IH"(1) show ?thesis by (simp add: encode.simps)
    next
      case (JObj kvs)
      have "sort_key fst (map (\<lambda>p. (fst p, norm_js (snd p))) (sort_key fst kvs)) =
          map (\<lambda>p. (fst p, norm_js (snd p))) (sort_key fst kvs)"
        by (simp add: sort_key_map sort_key_id_if_sorted)
      with False JObj "1.IH"(2) show ?thesis by (simp add: encode.simps sort_key_map)
    qed (simp_all add: encode.simps)
  qed
qed (auto intro!: sbind_cong)

lemma canonicalize_norm: "canonicalizeProtocolJson P (norm_js v) = canonicalizeProtocolJson P v"
  by (simp add: canonicalizeProtocolJson_def encode_norm_all)

lemma norm_js_mset:
  assumes "mset kvs = mset kvs'" and "distinct (map fst kvs)"
  shows "norm_js (JObj kvs) = norm_js (JObj kvs')"
  using sort_key_mset_unique [OF assms] by (simp add: sort_key_map)

section \<open>Parsing the canonical form\<close>

text \<open>A number literal that parses on its own parses in front of anything that ends a number.\<close>

lemma span_digits_extend:
  assumes "span_digits s = (ds, u)" and "ends_number r"
  shows "span_digits (s @ r) = (ds, u @ r)"
proof -
  have s: "s = ds @ u" "list_all is_digit ds"
    using assms(1) by (auto simp: span_digits_def list_all_iff dest: set_takeWhileD)
  have "u = [] \<or> \<not> is_digit (hd u)"
    using assms(1) hd_dropWhile [of is_digit s] by (auto simp: span_digits_def)
  then have "u @ r = [] \<or> \<not> is_digit (hd (u @ r))"
    using assms(2) by (cases u) (auto simp: ends_number_def)
  with s span_digits_append [of ds "u @ r"] show ?thesis by simp
qed

lemma parse_fraction_extend:
  assumes "parse_fraction s = Some (fr, u)" and "ends_number r"
  shows "parse_fraction (s @ r) = Some (fr, u @ r)"
proof (cases s)
  case Nil
  then show ?thesis using assms ends_number_parts(1) by (simp add: parse_fraction_def)
next
  case (Cons c s')
  obtain ds w where sp: "span_digits s' = (ds, w)" by (cases "span_digits s'")
  then show ?thesis
    using assms Cons span_digits_extend [OF sp assms(2)]
    by (auto simp: parse_fraction_def split: if_splits)
qed

lemma parse_exponent_extend:
  assumes "parse_exponent s = Some (ex, u)" and "ends_number r"
  shows "parse_exponent (s @ r) = Some (ex, u @ r)"
proof (cases s)
  case Nil
  then show ?thesis using assms ends_number_parts(2) by (simp add: parse_exponent_def)
next
  case (Cons c s')
  show ?thesis
  proof (cases s')
    case Nil
    then show ?thesis
      using assms Cons by (auto simp: parse_exponent_def span_digits_def split: if_splits)
  next
    case (Cons d s'')
    note sp = span_digits_extend [OF prod.collapse [symmetric] assms(2)]
    show ?thesis
      using assms \<open>s = c # s'\<close> Cons sp [of s''] sp [of s']
      by (auto simp: parse_exponent_def split: if_splits prod.splits)
  qed
qed

lemma parse_unsigned_extend:
  assumes "parse_unsigned P neg s = Some (x, [])" and "ends_number r"
  shows "parse_unsigned P neg (s @ r) = Some (x, r)"
proof -
  obtain ds u where sp: "span_digits s = (ds, u)" by (cases "span_digits s")
  with assms(1) obtain fr w ex where fr: "parse_fraction u = Some (fr, w)"
    and ex: "parse_exponent w = Some (ex, [])"
    by (auto simp: parse_unsigned_def split: if_splits option.splits)
  then show ?thesis
    using assms(1) sp span_digits_extend [OF sp assms(2)]
      parse_fraction_extend [OF fr assms(2)] parse_exponent_extend [OF ex assms(2)]
    by (simp add: parse_unsigned_def split: if_splits)
qed

lemma parse_number_extend:
  "parse_number P s = Some (x, []) \<Longrightarrow> ends_number r \<Longrightarrow> parse_number P (s @ r) = Some (x, r)"
  using parse_unsigned_extend [of P False s x r] parse_unsigned_extend [of P True "tl s" x r]
  by (cases s) (simp_all add: parse_number_def split: if_splits)

lemma parse_number_start:
  assumes "parse_number P s = Some (x, r)"
  obtains c s' where "s = c # s'" "c = 45 \<or> is_digit c"
  using assms
  by (cases s) (auto simp: parse_number_def parse_unsigned_def span_digits_def split: if_splits)

text \<open>JSON data as the protocol exchanges it: objects without repeated names, 16-bit code units,
  and non-integral numbers whose decimal text denotes the number again. \<^verbatim>\<open>undefined\<close>, functions and
  numbers that are not finite are no JSON data, at any depth.\<close>

fun json_data :: "platform \<Rightarrow> jsval \<Rightarrow> bool" where
  "json_data P (JStr s) = code_units s"
| "json_data P (JNum (NFrac n d)) =
     (list_all (\<lambda>c. c < 128) (frac_text P n d)
      \<and> parse_number P (frac_text P n d) = Some (NFrac n d, []))"
| "json_data P (JArr vs) = (\<forall>v \<in> set vs. json_data P v)"
| "json_data P (JObj kvs) =
     (distinct (map fst kvs) \<and> (\<forall>p \<in> set kvs. code_units (fst p) \<and> json_data P (snd p)))"
| "json_data P JNull = True"
| "json_data P (JBool b) = True"
| "json_data P (JNum (NInt i)) = True"
| "json_data P _ = False"

lemma parse_number_text:
  assumes "safe_number x" and "json_data P (JNum x)" and "ends_number r"
  shows "parse_number P (number_text P x @ r) = Some (x, r)"
  using assms by (cases x) (auto intro: parse_int_text parse_number_extend)

text \<open>The first character of an encoded value.\<close>

definition value_start :: "ustr \<Rightarrow> bool" where
  "value_start t \<longleftrightarrow> t \<noteq> [] \<and> \<not> json_space (hd t) \<and> hd t \<noteq> 93 \<and> hd t \<noteq> 125"

lemma skip_ws_start: "value_start t \<Longrightarrow> skip_ws (t @ r) = t @ r"
  by (cases t) (auto simp: value_start_def skip_ws_def)

lemma encode_start:
  assumes "encode P d n v = Inr (t, n')" and "json_data P v"
  shows "value_start t"
proof (cases v)
  case (JNum x)
  then have "safe_number x" "t = number_text P x"
    using assms(1) by (auto simp: encode.simps split: if_splits)
  then obtain c s' where "t = c # s'" "c = 45 \<or> is_digit c"
    using parse_number_text [of x P "[]"] assms(2) JNum parse_number_start
    by (metis append_Nil2 ends_number_def)
  then show ?thesis by (auto simp: value_start_def json_space_def is_digit_def)
qed (use assms in \<open>auto simp: encode.simps value_start_def json_quote_def lit_def json_space_def
    split: if_splits\<close>)

lemma skip_ws_Cons_nonspace [simp]: "\<not> json_space c \<Longrightarrow> skip_ws (c # r) = c # r"
  by (simp add: skip_ws_def)

lemma nonspace [simp]: "\<not> json_space 34" "\<not> json_space 44" "\<not> json_space 58" "\<not> json_space 91"
  "\<not> json_space 93" "\<not> json_space 123" "\<not> json_space 125"
  by (simp_all add: json_space_def)

lemma ends_number_punct [simp]: "ends_number (44 # r)" "ends_number (93 # r)" "ends_number (125 # r)"
  "ends_number []"
  by (simp_all add: ends_number_def is_digit_def)

text \<open>A parser that succeeds with every fuel from some bound on.\<close>

definition parses :: "(nat \<Rightarrow> ustr \<Rightarrow> ('a \<times> ustr) option) \<Rightarrow> ustr \<Rightarrow> 'a \<Rightarrow> ustr \<Rightarrow> bool" where
  "parses p s x r \<longleftrightarrow> (\<exists>N. \<forall>m \<ge> N. p m s = Some (x, r))"

lemma parsesI_Suc:
  assumes "\<And>m. m \<ge> N \<Longrightarrow> p (Suc m) s = Some (x, r)"
  shows "parses p s x r"
  unfolding parses_def
proof (intro exI [of _ "Suc N"] allI impI)
  fix m
  assume "Suc N \<le> m"
  with assms show "p m s = Some (x, r)" by (cases m) simp_all
qed

lemma parse_atom:
  assumes "\<And>m. parse_value P (Suc m) s = Some (x, r)"
  shows "parses (parse_value P) s x r"
  using assms by (auto intro: parsesI_Suc [of 0])

lemma parses_JArr:
  assumes "parses (parse_elements P) s vs r" and "value_start s"
  shows "parses (parse_value P) (91 # s) (JArr vs) r"
proof -
  obtain N where N: "\<forall>m \<ge> N. parse_elements P m s = Some (vs, r)"
    using assms(1) by (auto simp: parses_def)
  obtain c u where "s = c # u" "\<not> json_space c" "c \<noteq> 93"
    using assms(2) by (cases s) (auto simp: value_start_def)
  with N show ?thesis
    by (auto intro!: parsesI_Suc [of N])
qed

lemma parses_JObj:
  assumes "parses (parse_members P) s kvs r" and "value_start s"
  shows "parses (parse_value P) (123 # s) (object_of_members kvs) r"
proof -
  obtain N where N: "\<forall>m \<ge> N. parse_members P m s = Some (kvs, r)"
    using assms(1) by (auto simp: parses_def)
  obtain c u where "s = c # u" "\<not> json_space c" "c \<noteq> 125"
    using assms(2) by (cases s) (auto simp: value_start_def)
  with N show ?thesis
    by (auto intro!: parsesI_Suc [of N])
qed

lemma parses_elements_last:
  assumes "parses (parse_value P) s v (93 # r)"
  shows "parses (parse_elements P) s [v] r"
proof -
  obtain N where "\<forall>m \<ge> N. parse_value P m s = Some (v, 93 # r)"
    using assms by (auto simp: parses_def)
  then show ?thesis by (intro parsesI_Suc [of N]) simp
qed

lemma parses_elements_Cons:
  assumes "parses (parse_value P) s v (44 # u)" and "parses (parse_elements P) u vs r"
  shows "parses (parse_elements P) s (v # vs) r"
proof -
  obtain N N' where "\<forall>m \<ge> N. parse_value P m s = Some (v, 44 # u)"
    and "\<forall>m \<ge> N'. parse_elements P m u = Some (vs, r)"
    using assms by (auto simp: parses_def)
  then show ?thesis by (intro parsesI_Suc [of "max N N'"]) simp
qed

lemma parses_members_last:
  assumes "code_units k" and "parses (parse_value P) s v (125 # r)"
  shows "parses (parse_members P) (json_quote k @ 58 # s) [(k, v)] r"
proof -
  obtain N where "\<forall>m \<ge> N. parse_value P m s = Some (v, 125 # r)"
    using assms(2) by (auto simp: parses_def)
  then show ?thesis
    using parse_quote_units [OF assms(1), of "58 # s"]
    by (intro parsesI_Suc [of N]) (simp add: json_quote_def)
qed

lemma parses_members_Cons:
  assumes "code_units k" and "parses (parse_value P) s v (44 # u)"
    and "parses (parse_members P) u kvs r"
  shows "parses (parse_members P) (json_quote k @ 58 # s) ((k, v) # kvs) r"
proof -
  obtain N N' where "\<forall>m \<ge> N. parse_value P m s = Some (v, 44 # u)"
    and "\<forall>m \<ge> N'. parse_members P m u = Some (kvs, r)"
    using assms by (auto simp: parses_def)
  then show ?thesis
    using parse_quote_units [OF assms(1), of "58 # s"]
    by (intro parsesI_Suc [of "max N N'"]) (simp add: json_quote_def)
qed

lemma parses_number:
  assumes "safe_number x" and "json_data P (JNum x)" and "ends_number r"
  shows "parses (parse_value P) (number_text P x @ r) (JNum x) r"
proof (rule parse_atom)
  fix m
  note pn = parse_number_text [OF assms]
  then obtain c u where cu: "number_text P x @ r = c # u" "c = 45 \<or> is_digit c"
    by (rule parse_number_start)
  then have "\<not> json_space c" "c \<noteq> 34" "c \<noteq> 91" "c \<noteq> 123"
    "\<not> starts_with (lit ''true'') (c # u)" "\<not> starts_with (lit ''false'') (c # u)"
    "\<not> starts_with (lit ''null'') (c # u)"
    by (auto simp: json_space_def is_digit_def starts_with_def lit_def)
  then show "parse_value P (Suc m) (number_text P x @ r) = Some (JNum x, r)"
    using pn cu(1) by simp
qed

lemma object_of_distinct:
  assumes "distinct (map fst kvs)"
  shows "object_of_members kvs = JObj (own_order kvs)"
proof -
  have "foldl (\<lambda>m p. jm_set m (fst p) (snd p)) acc kvs = acc @ kvs"
    if "distinct (map fst (acc @ kvs))" for acc :: "(ustr \<times> jsval) list"
    using that
  proof (induction kvs arbitrary: acc)
    case (Cons p kvs)
    then have "map_of acc (fst p) = None"
      by (auto simp: map_of_eq_None_iff)
    then show ?case
      using Cons by (simp add: jm_set_fresh)
  qed simp
  from this [of "[]"] assms show ?thesis
    by (simp add: object_of_members_def)
qed

lemma join_with_Cons: "ts \<noteq> [] \<Longrightarrow> join_with sep (t # ts) = t @ sep @ join_with sep ts"
  by (cases ts) simp_all

lemma encode_elements_nonempty:
  "encode_elements P d n (v # vs) = Inr (ts, n') \<Longrightarrow> ts \<noteq> []"
  "encode_members P d n (p # kvs) = Inr (ts, n') \<Longrightarrow> ts \<noteq> []"
  by (cases p; auto)+

lemma value_start_append: "value_start t \<Longrightarrow> value_start (t @ r)"
  by (auto simp: value_start_def)

lemma encode_elements_start:
  assumes "encode_elements P d n (v # vs) = Inr (ts, n')" and "json_data P v"
  shows "value_start (join_with [44] ts @ r)"
proof -
  obtain t n1 ts' where "encode P d n v = Inr (t, n1)" "ts = t # ts'"
    using assms(1) by auto
  with encode_start [OF _ assms(2)] show ?thesis
    by (cases ts') (simp_all add: value_start_append)
qed

lemma encode_string:
  "encode P d n (JStr k) = Inr (t, n') \<Longrightarrow> t = json_quote k \<and> \<not> hasUnpairedSurrogate k"
  by (auto simp: encode.simps split: if_splits)

lemma encode_members_start:
  assumes "encode_members P d n ((k, v) # kvs) = Inr (ts, n')"
  shows "value_start (join_with [44] ts @ r)"
proof -
  obtain t ts' where "ts = (json_quote k @ t) # ts'"
    using assms by (auto dest!: encode_string)
  then show ?thesis
    by (cases ts') (simp_all add: value_start_def json_quote_def)
qed

lemma parse_encode_all:
  "encode P d n v = Inr (t, n') \<Longrightarrow> json_data P v \<Longrightarrow> ends_number r \<Longrightarrow>
     parses (parse_value P) (t @ r) (norm_js v) r"
  "encode_elements P d n vs = Inr (ts, n') \<Longrightarrow> vs \<noteq> [] \<Longrightarrow> \<forall>v \<in> set vs. json_data P v \<Longrightarrow>
     parses (parse_elements P) (join_with [44] ts @ 93 # r) (map norm_js vs) r"
  "encode_members P d n kvs = Inr (ts, n') \<Longrightarrow> kvs \<noteq> [] \<Longrightarrow>
     \<forall>p \<in> set kvs. code_units (fst p) \<and> json_data P (snd p) \<Longrightarrow>
     parses (parse_members P) (join_with [44] ts @ 125 # r)
       (map (\<lambda>p. (fst p, norm_js (snd p))) kvs) r"
proof (induction P d n v and P d n vs and P d n kvs arbitrary: t n' r and ts n' r and ts n' r
    rule: encode_encode_elements_encode_members.induct)
  case (1 P d n v)
  then have ok: "\<not> (n + 1 > MAX_NODES \<or> d > MAX_DEPTH)"
    by (auto simp: encode.simps)
  show ?case
  proof (cases v)
    case (JArr vs)
    obtain ts where ts: "encode_elements P (d + 1) (n + 1) vs = Inr (ts, n')"
      and t: "t = 91 # join_with [44] ts @ [93]"
      using "1.prems"(1) JArr ok by (auto simp: encode.simps)
    show ?thesis
    proof (cases vs)
      case Nil
      then show ?thesis using ts t JArr by (auto intro!: parse_atom)
    next
      case (Cons w ws)
      have "parses (parse_elements P) (join_with [44] ts @ 93 # r) (map norm_js vs) r"
        using "1.IH"(1) [OF ok JArr ts] "1.prems"(2) JArr Cons by simp
      moreover have "value_start (join_with [44] ts @ 93 # r)"
        using ts "1.prems"(2) JArr Cons
        by (intro encode_elements_start [of P "d + 1" "n + 1" w ws ts n']) simp_all
      ultimately show ?thesis using parses_JArr t JArr by simp
    qed
  next
    case (JObj kvs)
    obtain ts where ts: "encode_members P (d + 1) (n + 1) (sort_key fst kvs) = Inr (ts, n')"
      and t: "t = 123 # join_with [44] ts @ [125]"
      using "1.prems"(1) JObj ok by (auto simp: encode.simps)
    have dist: "distinct (map fst (map (\<lambda>p. (fst p, norm_js (snd p))) (sort_key fst kvs)))"
      using "1.prems"(2) JObj by (simp add: comp_def distinct_map)
    show ?thesis
    proof (cases "sort_key fst kvs")
      case Nil
      then show ?thesis
        using ts t JObj by (auto simp: norm_js_cases intro!: parse_atom)
    next
      case (Cons q qs)
      have "parses (parse_members P) (join_with [44] ts @ 125 # r)
          (map (\<lambda>p. (fst p, norm_js (snd p))) (sort_key fst kvs)) r"
      proof (rule "1.IH"(2) [OF ok JObj ts])
        show "\<forall>p \<in> set (sort_key fst kvs). code_units (fst p) \<and> json_data P (snd p)"
          using "1.prems"(2) JObj by simp
      qed (simp add: Cons)
      moreover have "value_start (join_with [44] ts @ 125 # r)"
        using ts Cons encode_members_start [of P "d + 1" "n + 1" "fst q" "snd q" qs ts n'] by simp
      ultimately have "parses (parse_value P) (123 # join_with [44] ts @ 125 # r)
          (object_of_members (map (\<lambda>p. (fst p, norm_js (snd p))) (sort_key fst kvs))) r"
        by (rule parses_JObj)
      then show ?thesis
        using t JObj object_of_distinct [OF dist] by (simp add: sort_key_map)
    qed
  next
    case (JNum x)
    then show ?thesis
      using "1.prems" ok by (auto simp: encode.simps split: if_splits intro: parses_number)
  next
    case (JStr s)
    then show ?thesis
      using "1.prems" ok parse_quote_units [of s r]
      by (auto simp: encode.simps json_quote_def split: if_splits intro!: parse_atom)
  qed (use "1.prems" ok in \<open>auto simp: encode.simps starts_with_def lit_def json_space_def
      split: if_splits intro!: parse_atom\<close>)
next
  case (3 P d n v vs)
  obtain t n1 ts' where t: "encode P d n v = Inr (t, n1)"
    and ts': "encode_elements P d n1 vs = Inr (ts', n')" and ts: "ts = t # ts'"
    using "3.prems"(1) by auto
  have data: "json_data P v" "\<forall>v \<in> set vs. json_data P v"
    using "3.prems"(3) by simp_all
  note v = "3.IH"(1) [OF t data(1)]
  show ?case
  proof (cases vs)
    case Nil
    then show ?thesis using v [of "93 # r"] ts ts' by (auto intro: parses_elements_last)
  next
    case (Cons w ws)
    then have "ts' \<noteq> []" using ts' encode_elements_nonempty(1) by blast
    moreover have "parses (parse_elements P) (t @ 44 # join_with [44] ts' @ 93 # r)
        (norm_js v # map norm_js vs) r"
      using Cons by (intro parses_elements_Cons [OF v "3.IH"(2) [OF t refl ts' _ data(2)]]) simp_all
    ultimately show ?thesis
      using ts by (simp add: join_with_Cons)
  qed
next
  case (5 P d n k v kvs)
  obtain tk n1 t n2 ts' where tk: "encode P d n (JStr k) = Inr (tk, n1)"
    and t: "encode P d n1 v = Inr (t, n2)"
    and ts': "encode_members P d n2 kvs = Inr (ts', n')" and ts: "ts = (tk @ 58 # t) # ts'"
    using "5.prems"(1) by auto
  have data: "code_units k" "json_data P v" "\<forall>p \<in> set kvs. code_units (fst p) \<and> json_data P (snd p)"
    using "5.prems"(3) by simp_all
  have k: "tk = json_quote k"
    using encode_string [OF tk] by simp
  note v = "5.IH"(2) [OF tk refl t data(2)]
  show ?case
  proof (cases kvs)
    case Nil
    then show ?thesis
      using v [of "125 # r"] ts ts' k data(1) by (auto intro!: parses_members_last)
  next
    case (Cons w ws)
    then have "ts' \<noteq> []" using ts' encode_elements_nonempty(2) by blast
    moreover have "parses (parse_members P) (json_quote k @ 58 # t @ 44 # join_with [44] ts' @ 125 # r)
        ((k, norm_js v) # map (\<lambda>p. (fst p, norm_js (snd p))) kvs) r"
      using Cons
      by (intro parses_members_Cons [OF data(1) v "5.IH"(3) [OF tk refl t refl ts' _ data(3)]]) simp_all
    ultimately show ?thesis
      using ts k by (simp add: join_with_Cons)
  qed
qed simp_all

lemma json_parse_of_parses:
  assumes "parses (parse_value P) t v []"
  shows "json_parse P t = Some v"
proof -
  obtain N where "\<forall>m \<ge> N. parse_value P m t = Some (v, [])"
    using assms by (auto simp: parses_def)
  then have "parse_value P (N + 2 * length t + 1) t = Some (v, [])"
    by (simp only: le_add1 add.assoc)
  then show ?thesis
    by (rule json_parse_fuel) (simp_all add: skip_ws_def)
qed

lemma json_parse_canonicalize:
  assumes "canonicalizeProtocolJson P v = Inr t" and "json_data P v"
  shows "json_parse P t = Some (norm_js v)"
proof -
  obtain n' where "encode P 0 0 v = Inr (t, n')"
    using assms(1) by (auto simp: canonicalizeProtocolJson_def)
  with assms(2) have "parses (parse_value P) (t @ []) (norm_js v) []"
    by (intro parse_encode_all(1)) simp_all
  then show ?thesis by (simp add: json_parse_of_parses)
qed

lemma canonicalize_eq_iff:
  assumes "json_data P v" and "json_data P w" and "canonicalizeProtocolJson P v = Inr t"
  shows "canonicalizeProtocolJson P w = Inr t \<longleftrightarrow> norm_js v = norm_js w"
  using assms json_parse_canonicalize canonicalize_norm [of P v] canonicalize_norm [of P w]
  by (metis option.inject)

section \<open>Strings and members of JSON data\<close>

lemma parses_string: "code_units s \<Longrightarrow> parses (parse_value P) (json_quote s @ r) (JStr s) r"
  using parse_quote_units [of s r] by (intro parse_atom) (simp add: json_quote_def)

lemma code_units_lit [simp]: "code_units (lit s)"
proof -
  have "of_char c < (256 :: nat)" for c :: char
    using of_char_mod_256 [of c, where 'a = nat] mod_less_divisor [of 256 "of_char c :: nat"] by simp
  then show ?thesis by (auto simp: code_units_def lit_def intro: less_trans [of _ 256])
qed

lemma json_data_field: "json_data P v \<Longrightarrow> get_prop v k \<noteq> JUndef \<Longrightarrow> json_data P (get_prop v k)"
  by (cases v) (auto split: option.splits dest!: map_of_SomeD)

lemma json_data_field_str: "json_data P v \<Longrightarrow> code_units (the_str (get_prop v k))"
  using json_data_field [of P v k] by (cases "get_prop v k") (auto simp: code_units_def)

lemma json_data_the_str: "json_data P v \<Longrightarrow> code_units (the_str v)"
  by (cases v) (simp_all add: code_units_def)

lemma json_data_norm: "json_data P v \<Longrightarrow> json_data P (norm_js v)"
proof (induction v rule: norm_js.induct)
  case (2 kvs)
  then have "distinct (map fst (map (\<lambda>p. (fst p, norm_js (snd p))) (sort_key fst kvs)))"
    by (simp add: comp_def distinct_map)
  then show ?case using 2 by (auto simp: sort_key_map)
qed auto

section \<open>The canonical text is well-formed Unicode\<close>

definition clean_text :: "ustr \<Rightarrow> bool" where
  "clean_text t \<longleftrightarrow> code_units t \<and> \<not> hasUnpairedSurrogate t"

lemma clean_append [intro]: "clean_text s \<Longrightarrow> clean_text t \<Longrightarrow> clean_text (s @ t)"
  by (auto simp: clean_text_def code_units_def hasUnpairedSurrogate_append)

lemma clean_ascii: "list_all (\<lambda>c. c < 128) s \<Longrightarrow> clean_text s"
  unfolding clean_text_def code_units_def
  by (induction s) (auto simp: is_high_surrogate_def is_low_surrogate_def)

lemma clean_Cons: "c < 128 \<Longrightarrow> clean_text t \<Longrightarrow> clean_text (c # t)"
  using clean_append [OF clean_ascii [of "[c]"], of t] by simp

lemma clean_quote_unit: "clean_text [c] \<Longrightarrow> clean_text (quote_unit c)"
  by (simp add: quote_unit_def unicode_escape_def clean_ascii hex_digit_def)

lemma clean_quote_units: "clean_text s \<Longrightarrow> clean_text (quote_units s)"
proof (induction s rule: quote_units.induct)
  case (2 c s)
  show ?case
  proof (cases "is_high_surrogate c")
    case True
    then obtain d s' where s: "s = d # s'" "is_low_surrogate d" "clean_text s'"
      using "2.prems" by (auto simp: clean_text_def code_units_def split: list.splits if_splits)
    moreover have "clean_text [c, d]"
      using True s(1,2) "2.prems" by (simp add: clean_text_def code_units_def)
    ultimately show ?thesis
      using 2(1) [OF True s(1,2)] True clean_append [of "[c, d]" "quote_units s'"] by simp
  next
    case False
    then have "\<not> is_low_surrogate c" "clean_text [c]" "clean_text s"
      using "2.prems" by (auto simp: clean_text_def code_units_def split: if_splits)
    then show ?thesis
      using 2(4) False by (auto intro: clean_quote_unit)
  qed
qed simp

lemma ascii_digits: "list_all is_digit ds \<Longrightarrow> clean_text ds"
  by (rule clean_ascii) (auto simp: list_all_iff is_digit_def)

lemma clean_number_text: "json_data P (JNum x) \<Longrightarrow> clean_text (number_text P x)"
  using ascii_digits [OF digits_of_nat_digits]
  by (cases x) (auto simp: int_text_def lit_def intro: clean_Cons clean_ascii)

lemma clean_json_quote: "clean_text s \<Longrightarrow> clean_text (json_quote s)"
  unfolding json_quote_def
  by (intro clean_Cons clean_append clean_quote_units) (simp_all add: clean_ascii)

lemma clean_join: "list_all clean_text ts \<Longrightarrow> clean_text (join_with [44] ts)"
  by (induction "[44 :: nat]" ts rule: join_with.induct)
    (auto intro!: clean_ascii [of "[]"] clean_Cons)

lemma encode_clean_all:
  "encode P d n v = Inr (t, n') \<Longrightarrow> json_data P v \<Longrightarrow> clean_text t"
  "encode_elements P d n vs = Inr (ts, n') \<Longrightarrow> \<forall>v \<in> set vs. json_data P v \<Longrightarrow> list_all clean_text ts"
  "encode_members P d n kvs = Inr (ts, n') \<Longrightarrow>
     \<forall>p \<in> set kvs. code_units (fst p) \<and> json_data P (snd p) \<Longrightarrow> list_all clean_text ts"
proof (induction P d n v and P d n vs and P d n kvs arbitrary: t n' and ts n' and ts n'
    rule: encode_encode_elements_encode_members.induct)
  case (1 P d n v)
  then have ok: "\<not> (n + 1 > MAX_NODES \<or> d > MAX_DEPTH)"
    by (auto simp: encode.simps)
  have brackets: "clean_text (a # join_with [44] ts @ [b])"
    if "list_all clean_text ts" "a < 128" "b < 128" for a b ts
    using that by (intro clean_Cons clean_append clean_join) (auto intro: clean_ascii)
  show ?case
  proof (cases v)
    case (JArr vs)
    then obtain ts where ts: "encode_elements P (d + 1) (n + 1) vs = Inr (ts, n')"
      and t: "t = 91 # join_with [44] ts @ [93]"
      using "1.prems"(1) ok by (auto simp: encode.simps)
    then show ?thesis
      using "1.IH"(1) [OF ok JArr ts] "1.prems"(2) JArr brackets by simp
  next
    case (JObj kvs)
    then obtain ts where ts: "encode_members P (d + 1) (n + 1) (sort_key fst kvs) = Inr (ts, n')"
      and t: "t = 123 # join_with [44] ts @ [125]"
      using "1.prems"(1) ok by (auto simp: encode.simps)
    then show ?thesis
      using "1.IH"(2) [OF ok JObj ts] "1.prems"(2) JObj brackets by simp
  next
    case (JStr s)
    then show ?thesis
      using "1.prems" ok
      by (auto simp: encode.simps clean_text_def [of s] split: if_splits intro: clean_json_quote)
  qed (use "1.prems" ok in \<open>auto simp: encode.simps lit_def split: if_splits
      intro: clean_ascii clean_number_text\<close>)
next
  case (3 P d n v vs)
  then show ?case by fastforce
next
  case (5 P d n k v kvs)
  obtain tk n1 t n2 ts' where tk: "encode P d n (JStr k) = Inr (tk, n1)"
    and t: "encode P d n1 v = Inr (t, n2)"
    and ts': "encode_members P d n2 kvs = Inr (ts', n')" and ts: "ts = (tk @ 58 # t) # ts'"
    using "5.prems"(1) by auto
  have "clean_text tk" "clean_text t" "list_all clean_text ts'"
    using "5.IH"(1) [OF tk] "5.IH"(2) [OF tk refl t] "5.IH"(3) [OF tk refl t refl ts'] "5.prems"(2)
    by simp_all
  then show ?case
    using ts by (auto intro!: clean_append clean_Cons)
qed simp_all

lemma canonicalize_clean:
  "canonicalizeProtocolJson P v = Inr t \<Longrightarrow> json_data P v \<Longrightarrow> clean_text t"
  by (auto simp: canonicalizeProtocolJson_def intro: encode_clean_all(1))

section \<open>Identities\<close>

text \<open>Two byte strings that show SHA-256 is not collision resistant.\<close>

definition sha256_collision :: "platform \<Rightarrow> bytes \<Rightarrow> bytes \<Rightarrow> bool" where
  "sha256_collision P a b \<longleftrightarrow> a \<noteq> b \<and> sha256 P a = sha256 P b"

text \<open>Two values whose own canonical texts are such byte strings.\<close>

definition body_collision :: "platform \<Rightarrow> jsval \<Rightarrow> jsval \<Rightarrow> bool" where
  "body_collision P v w \<longleftrightarrow> (\<exists>s t. canonicalizeProtocolJson P v = Inr s \<and> canonicalizeProtocolJson P w = Inr t \<and>
     sha256_collision P (utf8 s) (utf8 t))"

lemma sha256ProtocolText_eqD:
  assumes "sha256ProtocolText P s = sha256ProtocolText P t" and "sha256_digests P"
    and "clean_text s" and "clean_text t"
  shows "s = t \<or> sha256_collision P (utf8 s) (utf8 t)"
proof -
  have "sha256 P (utf8 s) = sha256 P (utf8 t)"
    using assms(1,2) by (simp add: sha256ProtocolText_def sha256_digests_def to_hex_inject)
  then show ?thesis
    using utf8_inject [of s t] assms(3,4) by (auto simp: sha256_collision_def clean_text_def)
qed

lemma sha256ProtocolText_id:
  "sha256_digests P \<Longrightarrow> is_sha256_id (sha256ProtocolText P s)"
  by (simp add: sha256ProtocolText_def is_sha256_id_def is_sha256_hex_def sha256_digests_def
      to_hex_lower length_to_hex)

section \<open>Properties\<close>

definition sample_record :: jsval where
  "sample_record = JObj [(lit ''b'', JArr [jint 7, JNull, JNum (NFrac 3 2)]), (lit ''a'', jstr ''x'')]"

definition sample_record' :: jsval where
  "sample_record' = JObj [(lit ''a'', jstr ''x''), (lit ''b'', JArr [jint 7, JNull, JNum (NFrac 3 2)])]"

definition sample_text :: ustr where
  "sample_text = lit ''{\"a\":\"x\",\"b\":[7,null,1.5]}''"

lemma sample_record_facts:
  "canonicalizeProtocolJson sample_platform sample_record = Inr sample_text"
  "canonicalizeProtocolJson sample_platform sample_record' = Inr sample_text"
  "json_data sample_platform sample_record" "json_data sample_platform sample_record'"
  "norm_js sample_record = sample_record'" "norm_js sample_record' = sample_record'"
  by code_simp+

text \<open>C1: \<open>JSON.parse\<close> of the canonical text gives the data back, with the members of every object
  in the canonical order: the canonical form loses nothing.\<close>

theorem canonical_round_trip:
  assumes "canonicalizeProtocolJson P v = Inr t" and "json_data P v"
  shows "json_parse P t = Some (norm_js v)"
  using assms by (rule json_parse_canonicalize)

theorem canonical_round_trip_witness:
  "json_parse sample_platform sample_text = Some sample_record'"
  using canonical_round_trip [OF sample_record_facts(1,3)] by (simp only: sample_record_facts(5))

text \<open>C3: two values have the same canonical text exactly when they differ only in the order of
  object members (at any depth); in particular reordering members never changes the text, and no two
  different values share one.\<close>

theorem canonical_text_iff:
  assumes "json_data P v" and "json_data P w" and "canonicalizeProtocolJson P v = Inr t"
  shows "canonicalizeProtocolJson P w = Inr t \<longleftrightarrow> norm_js v = norm_js w"
  using assms by (rule canonicalize_eq_iff)

theorem canonical_text_iff_witness:
  "canonicalizeProtocolJson sample_platform sample_record' = Inr sample_text \<longleftrightarrow>
   norm_js sample_record = norm_js sample_record'"
  by (rule canonical_text_iff [OF sample_record_facts(3,4,1)])

text \<open>C5: a content identity binds the content: two values with the same identity are the same data
  up to the order of members, or their canonical texts are a collision of SHA-256.\<close>

theorem canonical_id_binds:
  assumes "sha256_digests P" and "json_data P v" and "json_data P w"
    and "computeCanonicalSha256Id P v = Inr i" and "computeCanonicalSha256Id P w = Inr i"
  shows "norm_js v = norm_js w \<or>
    (\<exists>s t. canonicalizeProtocolJson P v = Inr s \<and> canonicalizeProtocolJson P w = Inr t
       \<and> sha256_collision P (utf8 s) (utf8 t))"
proof -
  obtain s t where st: "canonicalizeProtocolJson P v = Inr s" "canonicalizeProtocolJson P w = Inr t"
    and eq: "sha256ProtocolText P s = sha256ProtocolText P t"
    using assms(4,5) by (auto simp: computeCanonicalSha256Id_def)
  have "s = t \<or> sha256_collision P (utf8 s) (utf8 t)"
    using eq assms(1) canonicalize_clean [OF st(1) assms(2)] canonicalize_clean [OF st(2) assms(3)]
    by (rule sha256ProtocolText_eqD)
  then show ?thesis
    using st canonicalize_eq_iff [OF assms(2,3) st(1)] by auto
qed

theorem canonical_id_binds_witness:
  "norm_js sample_record = norm_js sample_record' \<or>
   (\<exists>s t. canonicalizeProtocolJson sample_platform sample_record = Inr s
      \<and> canonicalizeProtocolJson sample_platform sample_record' = Inr t
      \<and> sha256_collision sample_platform (utf8 s) (utf8 t))"
  by (rule canonical_id_binds [OF sample_platform_digests sample_record_facts(3,4)])
    (simp_all only: computeCanonicalSha256Id_def sample_record_facts sbind.simps)

lemma row_digest_matches:
  assumes "toCanonicalRow P v = Inr row" and "json_data P v"
  shows "canonicalRowDigestMatches P row"
proof -
  obtain t where t: "canonicalizeProtocolJson P v = Inr t"
    and row: "row = \<lparr>body = t, digest = sha256ProtocolText P t\<rparr>"
    using assms(1) by (auto simp: toCanonicalRow_def computeCanonicalSha256Id_def)
  then show ?thesis
    using json_parse_canonicalize [OF t assms(2)] canonicalize_norm [of P v]
    by (simp add: canonicalRowDigestMatches_def fromCanonicalRow_def toCanonicalRow_def
        computeCanonicalSha256Id_def)
qed

text \<open>A row written by \<open>toCanonicalRow\<close> passes \<open>canonicalRowDigestMatches\<close>, and a row that
  passes with the digest of a value carries that value (up to member order), or exhibits a SHA-256
  collision: substituting other content under the stored digest is detected.\<close>

theorem canonical_row_integrity:
  assumes "toCanonicalRow P v = Inr row" and "json_data P v" and "sha256_digests P"
    and "fromCanonicalRow P (body row') = Some w" and "json_data P w"
    and "digest row' = digest row" and "canonicalRowDigestMatches P row'"
  shows "canonicalRowDigestMatches P row \<and>
    (norm_js w = norm_js v \<or> body_collision P w v)"
proof -
  obtain t where t: "canonicalizeProtocolJson P v = Inr t" "digest row = sha256ProtocolText P t"
    using assms(1) by (auto simp: toCanonicalRow_def computeCanonicalSha256Id_def)
  obtain u where u: "canonicalizeProtocolJson P w = Inr u" "digest row' = sha256ProtocolText P u"
    using assms(4,7)
    by (auto simp: canonicalRowDigestMatches_def toCanonicalRow_def computeCanonicalSha256Id_def
        split: sum.splits)
  have "u = t \<or> sha256_collision P (utf8 u) (utf8 t)"
    using t u assms(3,6) canonicalize_clean [OF t(1) assms(2)] canonicalize_clean [OF u(1) assms(5)]
    by (intro sha256ProtocolText_eqD [of P u t]) simp_all
  then show ?thesis
    using canonicalize_eq_iff [OF assms(5,2) u(1)] t(1) u(1) row_digest_matches [OF assms(1,2)]
    by (auto simp: body_collision_def)
qed

definition sample_row :: canonicalRow where
  "sample_row = \<lparr>body = sample_text, digest = sha256ProtocolText sample_platform sample_text\<rparr>"

lemma sample_row_of: "toCanonicalRow sample_platform sample_record = Inr sample_row"
  by (simp only: toCanonicalRow_def computeCanonicalSha256Id_def sample_record_facts sbind.simps
      sample_row_def)

theorem canonical_row_integrity_witness:
  "canonicalRowDigestMatches sample_platform sample_row \<and>
   (norm_js sample_record' = norm_js sample_record \<or> body_collision sample_platform sample_record' sample_record)"
proof (rule canonical_row_integrity [OF sample_row_of sample_record_facts(3) sample_platform_digests
      _ sample_record_facts(4) refl])
  show "fromCanonicalRow sample_platform (body sample_row) = Some sample_record'"
    using json_parse_canonicalize [OF sample_record_facts(1,3)]
    by (simp only: fromCanonicalRow_def sample_row_def canonicalRow.simps sample_record_facts(5))
  show "canonicalRowDigestMatches sample_platform sample_row"
    using sample_row_of sample_record_facts(3) by (rule row_digest_matches)
qed

lemma assign_all_proto:
  "\<not> is_record v \<and> \<not> is_array v \<Longrightarrow>
   assign_all (xs @ (lit ''__proto__'', v) # ys) = assign_all (xs @ ys)"
proof (induction xs)
  case Nil
  then show ?case by (cases "assign_all ys") simp
next
  case (Cons p xs)
  then show ?case by (cases p) simp
qed

text \<open>The identity recomputed from a record without its identity field does not see an own
  property named \<^verbatim>\<open>__proto__\<close> whose value is no object: \<open>identityInput[key] = value\<close> runs the
  prototype accessor instead of creating the property, so records that differ there share an
  identity.\<close>

theorem excluded_identity_ignores_proto:
  assumes "map_of (xs @ ys) f \<noteq> None" and "f \<noteq> lit ''__proto__''"
    and "\<not> is_record v" and "\<not> is_array v"
  shows "recomputeExcludedFieldIdentity P (JObj (xs @ (lit ''__proto__'', v) # ys)) f ns =
    recomputeExcludedFieldIdentity P (JObj (xs @ ys)) f ns"
proof -
  have "map_of (xs @ (lit ''__proto__'', v) # ys) f \<noteq> None"
    using assms(1,2) by (auto simp: map_add_def split: option.splits)
  then show ?thesis
    using assms assign_all_proto [of v "filter (\<lambda>p. fst p \<noteq> f) xs" "filter (\<lambda>p. fst p \<noteq> f) ys"]
    by (simp add: recomputeExcludedFieldIdentity_def recomputeExcludedFieldsIdentity_def jm_has_def)
qed

theorem excluded_identity_ignores_proto_witness:
  "recomputeExcludedFieldIdentity sample_platform
     (JObj [(lit ''id'', jstr ''i''), (lit ''__proto__'', jint 1), (lit ''a'', JNull)]) (lit ''id'') None =
   recomputeExcludedFieldIdentity sample_platform (JObj [(lit ''id'', jstr ''i''), (lit ''a'', JNull)]) (lit ''id'') None"
  using excluded_identity_ignores_proto [of "[(lit ''id'', jstr ''i'')]" "[(lit ''a'', JNull)]"
      "lit ''id''" "jint 1" sample_platform None]
  by simp

end
