(* ===== verification/Append_Only_Log.thy ===== *)
theory Append_Only_Log
  imports Canonical_Identity
begin

text \<open>
  The append-only event logs of the evidence store
  (\<^verbatim>\<open>packages/evidence-store/src/memory/append-only-log.ts\<close>, and the outcome types of
  \<^verbatim>\<open>ports.ts\<close>): the contract every client of a log relies on, as the locale
  \<open>event_log\<close>, its consequences for whole histories, and its interpretation on the in-memory log.
  A log stores canonical text; an event is read back by parsing it.
\<close>

section \<open>Outcomes and what a store call may throw\<close>

datatype thrown = CanonThrow canon_error | SyntaxThrow

datatype appendRejectionReason =
    Idempotency_key_body_conflict | Sequence_number_not_monotonic | Schema_invalid
  | Storage_unavailable

datatype 'e appendOutcome =
    Appended 'e | Idempotent_noop 'e | Rejected appendRejectionReason

definition lift_canon :: "canon_error + 'a \<Rightarrow> thrown + 'a" where
  "lift_canon r = (case r of Inl e \<Rightarrow> Inl (CanonThrow e) | Inr x \<Rightarrow> Inr x)"

definition parse_body :: "platform \<Rightarrow> ustr \<Rightarrow> thrown + jsval" where
  "parse_body P b = (case json_parse P b of None \<Rightarrow> Inl SyntaxThrow | Some v \<Rightarrow> Inr v)"

lemma lift_canon_Inr [simp]: "lift_canon r = Inr x \<longleftrightarrow> r = Inr x"
  by (auto simp: lift_canon_def split: sum.splits)

lemma lift_canon_of_Inr [simp]: "lift_canon (Inr x) = Inr x"
  by (simp add: lift_canon_def)

lemma parse_body_canonical:
  "canonicalizeProtocolJson P v = Inr b \<Longrightarrow> json_data P v \<Longrightarrow> parse_body P b = Inr (norm_js v)"
  by (simp add: parse_body_def json_parse_canonicalize)

text \<open>\<^verbatim>\<open>for (const x of xs) acc.push(f(x))\<close> where \<open>f\<close> may throw.\<close>

fun smap :: "('a \<Rightarrow> 'e + 'b) \<Rightarrow> 'a list \<Rightarrow> 'e + 'b list" where
  "smap f [] = Inr []"
| "smap f (x # xs) = sbind (f x) (\<lambda>y. sbind (smap f xs) (\<lambda>ys. Inr (y # ys)))"

lemma smap_Inr_list_all2: "smap f xs = Inr ys \<longleftrightarrow> list_all2 (\<lambda>x y. f x = Inr y) xs ys"
  by (induction xs arbitrary: ys) (auto simp: list_all2_Cons1)

lemma smap_snoc: "smap f (xs @ [x]) = sbind (smap f xs) (\<lambda>ys. sbind (f x) (\<lambda>y. Inr (ys @ [y])))"
  by (induction xs) (simp_all add: sbind_assoc)

lemma smap_total: "\<forall>x \<in> set xs. f x = Inr (g x) \<Longrightarrow> smap f xs = Inr (map g xs)"
  by (induction xs) auto

section \<open>The contract of a log\<close>

text \<open>
  \<open>key\<close> and \<open>seq\<close> read an event's idempotency key and sequence number; \<open>norm\<close> is what storing does
  to an event (its canonical form). \<open>valid\<close> are the events a log can store.
\<close>

locale event_log =
  fixes inv :: "'s \<Rightarrow> bool"
    and valid :: "'e \<Rightarrow> bool"
    and load :: "'s \<Rightarrow> 'r \<Rightarrow> 'e list"
    and append :: "'s \<Rightarrow> 'r \<Rightarrow> 'e \<Rightarrow> 't + 's \<times> 'e appendOutcome"
    and key :: "'e \<Rightarrow> 'k"
    and seq :: "'e \<Rightarrow> int"
    and norm :: "'e \<Rightarrow> 'e"
  assumes append_total: "inv s \<Longrightarrow> valid e \<Longrightarrow> \<exists>s' out. append s r e = Inr (s', out)"
    and append_inv: "inv s \<Longrightarrow> valid e \<Longrightarrow> append s r e = Inr (s', out) \<Longrightarrow> inv s'"
    and append_appended: "inv s \<Longrightarrow> valid e \<Longrightarrow> append s r e = Inr (s', Appended x) \<Longrightarrow>
      x = norm e \<and> load s' r = load s r @ [norm e] \<and>
      (\<forall>y \<in> set (load s r). key y \<noteq> key e \<and> seq y < seq e)"
    and append_unchanged: "inv s \<Longrightarrow> append s r e = Inr (s', out) \<Longrightarrow> \<forall>x. out \<noteq> Appended x \<Longrightarrow> s' = s"
    and append_other: "inv s \<Longrightarrow> append s r e = Inr (s', out) \<Longrightarrow> r' \<noteq> r \<Longrightarrow> load s' r' = load s r'"
    and append_replay: "inv s \<Longrightarrow> valid e \<Longrightarrow> norm e \<in> set (load s r) \<Longrightarrow>
      append s r e = Inr (s, Idempotent_noop (norm e))"
    and append_noop: "inv s \<Longrightarrow> valid e \<Longrightarrow> append s r e = Inr (s', Idempotent_noop x) \<Longrightarrow>
      x \<in> set (load s r) \<and> key x = key e"
    and norm_key: "valid e \<Longrightarrow> key (norm e) = key e"
    and norm_seq: "valid e \<Longrightarrow> seq (norm e) = seq e"

text \<open>A sequence of appends by any callers; one that throws leaves the log as it is.\<close>

fun run_appends :: "('s \<Rightarrow> 'r \<Rightarrow> 'e \<Rightarrow> 't + 's \<times> 'e appendOutcome) \<Rightarrow> 's \<Rightarrow> ('r \<times> 'e) list \<Rightarrow> 's" where
  "run_appends app s [] = s"
| "run_appends app s ((r, e) # ops) =
     (case app s r e of
        Inl _ \<Rightarrow> run_appends app s ops
      | Inr (s', out) \<Rightarrow> run_appends app s' ops)"

context event_log
begin

lemma append_extends:
  assumes "inv s" "valid e" "append s r e = Inr (s', out)"
  shows "load s' q = load s q \<or> (q = r \<and> out = Appended (norm e) \<and> load s' q = load s q @ [norm e])"
proof (cases "q = r")
  case True
  then show ?thesis
    using assms append_appended [OF assms(1,2)] append_unchanged [OF assms(1,3)]
    by (cases out) auto
next
  case False
  then show ?thesis using append_other [OF assms(1,3)] by simp
qed

lemma run_extends:
  assumes "inv s" "\<forall>op \<in> set ops. valid (snd op)"
  shows "inv (run_appends append s ops) \<and> (\<exists>new. load (run_appends append s ops) q = load s q @ new)"
  using assms
proof (induction ops arbitrary: s)
  case (Cons op ops)
  obtain r e where op: "op = (r, e)" by (cases op)
  have v: "valid e" using Cons.prems(2) op by simp
  obtain s' out where ap: "append s r e = Inr (s', out)"
    using append_total [OF Cons.prems(1) v] by blast
  have i: "inv s'" by (rule append_inv [OF Cons.prems(1) v ap])
  obtain new where "load s' q = load s q @ new"
    using append_extends [OF Cons.prems(1) v ap, of q] by auto
  moreover obtain new' where "load (run_appends append s' ops) q = load s' q @ new'"
    and "inv (run_appends append s' ops)"
    using Cons.IH [OF i] Cons.prems(2) by auto
  ultimately show ?case
    by (simp add: op ap)
qed simp

lemma run_increasing:
  assumes "inv s" "\<forall>op \<in> set ops. valid (snd op)"
    and "sorted_wrt (<) (map seq (load s q))" and "distinct (map key (load s q))"
  shows "sorted_wrt (<) (map seq (load (run_appends append s ops) q)) \<and>
    distinct (map key (load (run_appends append s ops) q))"
  using assms
proof (induction ops arbitrary: s)
  case (Cons op ops)
  obtain r e where op: "op = (r, e)" by (cases op)
  have v: "valid e" using Cons.prems(2) op by simp
  obtain s' out where ap: "append s r e = Inr (s', out)"
    using append_total [OF Cons.prems(1) v] by blast
  have "sorted_wrt (<) (map seq (load s' q)) \<and> distinct (map key (load s' q))"
    using append_extends [OF Cons.prems(1) v ap, of q]
  proof
    assume *: "q = r \<and> out = Appended (norm e) \<and> load s' q = load s q @ [norm e]"
    then have "append s r e = Inr (s', Appended (norm e))"
      using ap by simp
    from append_appended [OF Cons.prems(1) v this]
    have "key (norm e) \<notin> key ` set (load s q)" "\<forall>y \<in> set (load s q). seq y < seq (norm e)"
      using * by (auto simp: norm_key [OF v] norm_seq [OF v])
    then show ?thesis
      using * Cons.prems(3,4) by (auto simp: sorted_wrt_append)
  qed (use Cons.prems in simp)
  then show ?case
    using Cons.IH [of s'] append_inv [OF Cons.prems(1) v ap] Cons.prems(2) op ap by simp
qed simp

lemma replay_after_append:
  assumes "inv s" "valid e" "append s r e = Inr (s', Appended x)"
    and "\<forall>op \<in> set ops. valid (snd op)"
  shows "append (run_appends append s' ops) r e =
    Inr (run_appends append s' ops, Idempotent_noop (norm e))"
proof -
  have "norm e \<in> set (load s' r)" "inv s'"
    using append_appended [OF assms(1-3)] append_inv [OF assms(1-3)] by auto
  with run_extends [OF this(2) assms(4), of r] show ?thesis
    by (intro append_replay) (auto simp: assms(2))
qed

end

section \<open>The in-memory log\<close>

record storedEntry =
  e_digest :: ustr
  idempotencyKey :: ustr
  sequenceNumber :: int
  e_body :: ustr

type_synonym log_state = "(ustr, storedEntry list) jmap"

text \<open>The members the log reads of an event, at their declared types (\<^verbatim>\<open>MinimalEvent\<close>): an event that the
  schemas would refuse, with a key that is not a string or a sequence number that is not an integer,
  is read as one with the empty key or the number 0, where the source compares the raw values.\<close>

definition event_key :: "jsval \<Rightarrow> ustr" where
  "event_key e = the_str (field e ''idempotency_key'')"

definition event_seq :: "jsval \<Rightarrow> int" where
  "event_seq e = the_int (field e ''sequence_number'')"

definition event_timestamp :: "jsval \<Rightarrow> ustr" where
  "event_timestamp e = the_str (field e ''event_timestamp'')"

definition log_entries :: "log_state \<Rightarrow> ustr \<Rightarrow> storedEntry list" where
  "log_entries logs reviewId = (case jm_get logs reviewId of None \<Rightarrow> [] | Some es \<Rightarrow> es)"

definition loadLog :: "platform \<Rightarrow> log_state \<Rightarrow> ustr \<Rightarrow> thrown + jsval list" where
  "loadLog P logs reviewId = smap (\<lambda>e. parse_body P (e_body e)) (log_entries logs reviewId)"

text \<open>\<open>localeCompare\<close> depends on the locale data of the host: it is a parameter, used as the sort
  key; \<open>Array.prototype.sort\<close> is stable.\<close>

definition loadEventsByTimestampRange ::
  "platform \<Rightarrow> (ustr \<Rightarrow> 'k :: linorder) \<Rightarrow> log_state \<Rightarrow> ustr \<Rightarrow> ustr \<Rightarrow> thrown + jsval list" where
  "loadEventsByTimestampRange P collation logs startInclusive endExclusive =
     sbind (smap (\<lambda>e. parse_body P (e_body e)) (concat (jm_values logs))) (\<lambda>events.
     Inr (sort_key (\<lambda>e. collation (event_timestamp e))
       (filter (\<lambda>e. event_timestamp e \<ge> startInclusive \<and> event_timestamp e < endExclusive) events)))"

definition log_append :: "platform \<Rightarrow> log_state \<Rightarrow> ustr \<Rightarrow> jsval \<Rightarrow> thrown + log_state \<times> jsval appendOutcome" where
  "log_append P logs reviewId event =
     (let entries = log_entries logs reviewId in
      sbind (lift_canon (toCanonicalRow P event)) (\<lambda>row.
      (case find_first (\<lambda>e. idempotencyKey e = event_key event) entries of
         Some existing \<Rightarrow>
           if e_digest existing = digest row then
             sbind (parse_body P (e_body existing)) (\<lambda>v. Inr (logs, Idempotent_noop v))
           else Inr (logs, Rejected Idempotency_key_body_conflict)
       | None \<Rightarrow>
           if \<exists>e \<in> set entries. sequenceNumber e \<ge> event_seq event then
             Inr (logs, Rejected Sequence_number_not_monotonic)
           else
             sbind (parse_body P (body row)) (\<lambda>v.
             Inr (jm_set logs reviewId
                    (entries @ [\<lparr>e_digest = digest row, idempotencyKey = event_key event,
                                 sequenceNumber = event_seq event, e_body = body row\<rparr>]),
                  Appended v)))))"

section \<open>The in-memory log keeps the contract\<close>

text \<open>The events a log stores: JSON data with a canonical form.\<close>

definition storable :: "platform \<Rightarrow> jsval \<Rightarrow> bool" where
  "storable P e \<longleftrightarrow> json_data P e \<and> (\<exists>t. canonicalizeProtocolJson P e = Inr t)"

text \<open>An entry is the canonical row of an event, with the two members the log indexes.\<close>

definition entry_of :: "platform \<Rightarrow> storedEntry \<Rightarrow> jsval \<Rightarrow> bool" where
  "entry_of P s e \<longleftrightarrow> json_data P e \<and> canonicalizeProtocolJson P e = Inr (e_body s) \<and>
     e_digest s = sha256ProtocolText P (e_body s) \<and> idempotencyKey s = event_key e \<and>
     sequenceNumber s = event_seq e"

definition log_inv :: "platform \<Rightarrow> log_state \<Rightarrow> bool" where
  "log_inv P logs \<longleftrightarrow> (\<forall>r. (\<forall>s \<in> set (log_entries logs r). \<exists>e. entry_of P s e) \<and>
     distinct (map idempotencyKey (log_entries logs r)) \<and>
     sorted_wrt (<) (map sequenceNumber (log_entries logs r)))"

text \<open>What the log holds for a review, as the events it parses to.\<close>

definition log_events :: "platform \<Rightarrow> log_state \<Rightarrow> ustr \<Rightarrow> jsval list" where
  "log_events P logs r = (case loadLog P logs r of Inl _ \<Rightarrow> [] | Inr es \<Rightarrow> es)"

lemma map_of_sort_key:
  "distinct (map fst kvs) \<Longrightarrow> map_of (sort_key fst kvs) k = map_of kvs k"
  for kvs :: "('k :: linorder \<times> 'v) list"
  by (rule map_of_eqI [THEN fun_cong]) (auto simp: map_of_eq_Some_iff distinct_map)

lemma map_of_own_order: "distinct (map fst m) \<Longrightarrow> map_of (own_order m) k = map_of m k"
  by (rule map_of_eqI [THEN fun_cong]) (auto simp: map_of_eq_Some_iff)

lemma field_norm_js:
  assumes "json_data P v"
  shows "get_prop (norm_js v) k = norm_js (get_prop v k)"
proof (cases v)
  case (JObj kvs)
  have "map_of (own_order (map (\<lambda>p. (fst p, norm_js (snd p))) (sort_key fst kvs))) k =
      map_option norm_js (map_of (own_order (sort_key fst kvs)) k)"
    using map_of_map [of norm_js "own_order (sort_key fst kvs)"] by (simp add: own_order_map case_prod_unfold)
  moreover have "map_of (own_order (sort_key fst kvs)) k = map_of kvs k"
    using assms JObj map_of_own_order [of "sort_key fst kvs" k] map_of_sort_key [of kvs k] by (simp add: distinct_map)
  ultimately show ?thesis
    using JObj by (simp add: sort_key_map split: option.split)
qed simp_all

lemma the_str_norm [simp]: "the_str (norm_js v) = the_str v"
  by (cases v) simp_all

lemma the_int_norm [simp]: "the_int (norm_js v) = the_int v"
  by (cases v rule: norm_js.cases) simp_all

lemma event_members_norm:
  assumes "json_data P e"
  shows "event_key (norm_js e) = event_key e" "event_seq (norm_js e) = event_seq e"
    "event_timestamp (norm_js e) = event_timestamp e"
  using field_norm_js [OF assms] by (simp_all add: event_key_def event_seq_def event_timestamp_def)

lemma log_events_append:
  assumes "log_inv P logs"
  shows "smap (\<lambda>e. parse_body P (e_body e)) (log_entries logs r) = Inr (log_events P logs r)"
    and "list_all2 (\<lambda>s v. \<exists>e. entry_of P s e \<and> v = norm_js e) (log_entries logs r) (log_events P logs r)"
proof -
  have ok: "\<forall>s \<in> set (log_entries logs r). \<exists>e. entry_of P s e"
    using assms by (simp add: log_inv_def)
  then obtain g where g: "\<forall>s \<in> set (log_entries logs r). entry_of P s (g s)"
    by metis
  have "smap (\<lambda>e. parse_body P (e_body e)) (log_entries logs r) =
      Inr (map (\<lambda>s. norm_js (g s)) (log_entries logs r))"
    using g by (intro smap_total) (auto simp: entry_of_def intro: parse_body_canonical)
  then show "smap (\<lambda>e. parse_body P (e_body e)) (log_entries logs r) = Inr (log_events P logs r)"
    and "list_all2 (\<lambda>s v. \<exists>e. entry_of P s e \<and> v = norm_js e) (log_entries logs r) (log_events P logs r)"
    using g by (auto simp: log_events_def loadLog_def list_all2_conv_all_nth)
qed

lemma entry_members:
  "entry_of P s e \<Longrightarrow> idempotencyKey s = event_key (norm_js e) \<and> sequenceNumber s = event_seq (norm_js e)"
  by (auto simp: entry_of_def event_members_norm)

lemma log_events_members:
  assumes "log_inv P logs"
  shows "map event_key (log_events P logs r) = map idempotencyKey (log_entries logs r)"
    and "map event_seq (log_events P logs r) = map sequenceNumber (log_entries logs r)"
  using log_events_append(2) [OF assms, of r]
  by (induction rule: list_all2_induct) (auto dest: entry_members)

lemma log_entry_parsed:
  assumes "log_inv P logs" "s \<in> set (log_entries logs r)"
  shows "\<exists>v \<in> set (log_events P logs r). parse_body P (e_body s) = Inr v \<and> event_key v = idempotencyKey s"
proof -
  obtain i where i: "i < length (log_entries logs r)" "s = log_entries logs r ! i"
    using assms(2) by (metis in_set_conv_nth)
  note l2 = log_events_append(2) [OF assms(1), of r]
  obtain e where e: "entry_of P s e" "log_events P logs r ! i = norm_js e"
    using list_all2_nthD [OF l2 i(1)] i(2) by auto
  have "norm_js e \<in> set (log_events P logs r)"
    using i(1) e(2) list_all2_lengthD [OF l2] nth_mem [of i "log_events P logs r"] by auto
  moreover have "parse_body P (e_body s) = Inr (norm_js e)"
    using e(1) by (auto simp: entry_of_def intro: parse_body_canonical)
  ultimately show ?thesis using entry_members [OF e(1)] by auto
qed

lemma toCanonicalRow_iff:
  "toCanonicalRow P e = Inr row \<longleftrightarrow>
   canonicalizeProtocolJson P e = Inr (body row) \<and> digest row = sha256ProtocolText P (body row)"
  by (cases row) (auto simp: toCanonicalRow_def computeCanonicalSha256Id_def)

lemma log_append_cases:
  assumes "log_append P logs r e = Inr (logs', out)" and "json_data P e"
  obtains (noop) s v where "logs' = logs" "out = Idempotent_noop v" "s \<in> set (log_entries logs r)"
      "idempotencyKey s = event_key e" "parse_body P (e_body s) = Inr v"
  | (rejected) reason where "logs' = logs" "out = Rejected reason"
  | (appended) s where "entry_of P s e" "out = Appended (norm_js e)"
      "logs' = jm_set logs r (log_entries logs r @ [s])"
      "\<forall>x \<in> set (log_entries logs r). idempotencyKey x \<noteq> event_key e \<and> sequenceNumber x < event_seq e"
proof -
  obtain row where row: "toCanonicalRow P e = Inr row"
    using assms(1) by (auto simp: log_append_def Let_def)
  note r = row [unfolded toCanonicalRow_iff]
  have pb: "parse_body P (body row) = Inr (norm_js e)"
    using r assms(2) by (auto intro: parse_body_canonical)
  show thesis
  proof (cases "find_first (\<lambda>s. idempotencyKey s = event_key e) (log_entries logs r)")
    case None
    show thesis
    proof (cases "\<exists>x \<in> set (log_entries logs r). sequenceNumber x \<ge> event_seq e")
      case True
      with None row assms(1) show thesis
        by (intro rejected) (auto simp: log_append_def Let_def)
    next
      case False
      define s where "s = \<lparr>e_digest = digest row, idempotencyKey = event_key e,
            sequenceNumber = event_seq e, e_body = body row\<rparr>"
      have "logs' = jm_set logs r (log_entries logs r @ [s])" "out = Appended (norm_js e)"
        using None False row assms(1) pb by (auto simp: log_append_def Let_def s_def)
      moreover have "entry_of P s e"
        using r assms(2) by (simp add: entry_of_def s_def)
      ultimately show thesis
        using None False by (intro appended [of s]) (auto simp: find_first_None)
    qed
  next
    case (Some s)
    from find_first_SomeD [OF this] Some row assms(1) show thesis
      by (cases "e_digest s = digest row")
        (auto simp: log_append_def Let_def intro: noop rejected)
  qed
qed

lemma log_entries_set [simp]: "log_entries (jm_set logs r es) q = (if q = r then es else log_entries logs q)"
  by (simp add: log_entries_def)

lemma log_append_inv:
  assumes "log_inv P logs" "json_data P e" "log_append P logs r e = Inr (logs', out)"
  shows "log_inv P logs'"
  using assms(3,2)
proof (cases rule: log_append_cases)
  case (appended s)
  then have "idempotencyKey s = event_key e" "sequenceNumber s = event_seq e"
    by (simp_all add: entry_of_def)
  then show ?thesis
    using assms(1) appended by (auto simp: log_inv_def sorted_wrt_append)
qed (use assms in auto)

lemma log_append_total:
  assumes "log_inv P logs" "storable P e"
  shows "\<exists>logs' out. log_append P logs r e = Inr (logs', out)"
proof -
  obtain t where t: "canonicalizeProtocolJson P e = Inr t" and e: "json_data P e"
    using assms(2) by (auto simp: storable_def)
  have row: "toCanonicalRow P e = Inr \<lparr>body = t, digest = sha256ProtocolText P t\<rparr>"
    using t by (simp add: toCanonicalRow_iff)
  have "\<exists>v. parse_body P (e_body s) = Inr v" if "s \<in> set (log_entries logs r)" for s
    using assms(1) that parse_body_canonical unfolding log_inv_def entry_of_def by blast
  then show ?thesis
    using row parse_body_canonical [OF t e]
    by (auto simp: log_append_def Let_def split: option.split dest!: find_first_SomeD)
qed

lemma log_events_appended:
  assumes "log_inv P logs" "entry_of P s e"
  shows "log_events P (jm_set logs r (log_entries logs r @ [s])) r = log_events P logs r @ [norm_js e]"
proof -
  have "parse_body P (e_body s) = Inr (norm_js e)"
    using assms(2) by (auto simp: entry_of_def intro: parse_body_canonical)
  then show ?thesis
    using log_events_append(1) [OF assms(1), of r]
    by (simp add: log_events_def [of P "jm_set logs r _"] loadLog_def smap_snoc)
qed

lemma log_append_replay:
  assumes "log_inv P logs" "storable P e" "norm_js e \<in> set (log_events P logs r)"
  shows "log_append P logs r e = Inr (logs, Idempotent_noop (norm_js e))"
proof -
  obtain t where t: "canonicalizeProtocolJson P e = Inr t" and e: "json_data P e"
    using assms(2) by (auto simp: storable_def)
  obtain s e' where s: "s \<in> set (log_entries logs r)" "entry_of P s e'" "norm_js e' = norm_js e"
    using log_events_append(2) [OF assms(1), of r] assms(3)
    by (auto simp: list_all2_conv_all_nth in_set_conv_nth) (metis nth_mem)
  then have e': "json_data P e'" "e_body s = t" "e_digest s = sha256ProtocolText P t"
    "idempotencyKey s = event_key e"
    using t canonicalize_norm [of P e] canonicalize_norm [of P e'] event_members_norm(1) [OF e]
      event_members_norm(1) [of P e']
    by (auto simp: entry_of_def)
  have "distinct (map idempotencyKey (log_entries logs r))"
    using assms(1) by (simp add: log_inv_def)
  then have "find_first (\<lambda>x. idempotencyKey x = event_key e) (log_entries logs r) = Some s"
    using s(1) e'(4) by (intro find_first_unique) (auto simp: distinct_map inj_on_def)
  then show ?thesis
    using e' t parse_body_canonical [OF t e]
    by (simp add: log_append_def Let_def toCanonicalRow_def computeCanonicalSha256Id_def)
qed

interpretation memory_log: event_log "log_inv P" "storable P" "log_events P" "log_append P"
  event_key event_seq norm_js
  for P
proof
  fix s s' r r' e x out
  show "\<exists>s' out. log_append P s r e = Inr (s', out)" if "log_inv P s" "storable P e"
    using that by (rule log_append_total)
  show "log_inv P s'" if "log_inv P s" "storable P e" "log_append P s r e = Inr (s', out)"
    using that log_append_inv by (auto simp: storable_def)
  show "x = norm_js e \<and> log_events P s' r = log_events P s r @ [norm_js e] \<and>
      (\<forall>y \<in> set (log_events P s r). event_key y \<noteq> event_key e \<and> event_seq y < event_seq e)"
    if "log_inv P s" "storable P e" and ap: "log_append P s r e = Inr (s', Appended x)"
  proof -
    have e: "json_data P e" using that(2) by (simp add: storable_def)
    from ap e show ?thesis
    proof (cases rule: log_append_cases)
      case (appended s0)
      have "\<forall>k \<in> set (map event_key (log_events P s r)). k \<noteq> event_key e"
        "\<forall>k \<in> set (map event_seq (log_events P s r)). k < event_seq e"
        using appended(4) unfolding log_events_members [OF that(1)] by auto
      then show ?thesis
        using appended log_events_appended [OF that(1) appended(1)] by simp
    qed auto
  qed
  show "s' = s" if "log_inv P s" "log_append P s r e = Inr (s', out)" "\<forall>x. out \<noteq> Appended x"
    using that(2,3)
    by (auto simp: log_append_def Let_def split: option.splits if_splits)
  show "log_events P s' r' = log_events P s r'"
    if "log_inv P s" "log_append P s r e = Inr (s', out)" "r' \<noteq> r"
    using that(2,3)
    by (auto simp: log_append_def Let_def log_events_def loadLog_def split: option.splits if_splits)
  show "log_append P s r e = Inr (s, Idempotent_noop (norm_js e))"
    if "log_inv P s" "storable P e" "norm_js e \<in> set (log_events P s r)"
    using that by (rule log_append_replay)
  show "x \<in> set (log_events P s r) \<and> event_key x = event_key e"
    if "log_inv P s" "storable P e" and ap: "log_append P s r e = Inr (s', Idempotent_noop x)"
  proof -
    have "json_data P e" using that(2) by (simp add: storable_def)
    with ap show ?thesis
    proof (cases rule: log_append_cases)
      case (noop s0 v)
      from log_entry_parsed [OF that(1) noop(3)] noop show ?thesis by auto
    qed auto
  qed
  show "event_key (norm_js e) = event_key e" "event_seq (norm_js e) = event_seq e" if "storable P e"
    using that event_members_norm by (auto simp: storable_def)
qed

lemma log_key_conflict:
  assumes "log_inv P logs" and "storable P e" and "sha256_digests P"
    and "x \<in> set (log_events P logs r)" and "event_key x = event_key e" and "x \<noteq> norm_js e"
  shows "log_append P logs r e = Inr (logs, Rejected Idempotency_key_body_conflict) \<or> body_collision P x e"
proof -
  obtain t where t: "canonicalizeProtocolJson P e = Inr t" and e: "json_data P e"
    using assms(2) by (auto simp: storable_def)
  obtain s e' where s: "s \<in> set (log_entries logs r)" "entry_of P s e'" "x = norm_js e'"
    using log_events_append(2) [OF assms(1), of r] assms(4)
    by (auto simp: list_all2_conv_all_nth in_set_conv_nth) (metis nth_mem)
  have e': "json_data P e'" "canonicalizeProtocolJson P e' = Inr (e_body s)"
    "e_digest s = sha256ProtocolText P (e_body s)" "idempotencyKey s = event_key e"
    using s(2,3) assms(5) event_members_norm(1) [of P e'] by (auto simp: entry_of_def)
  have ff: "find_first (\<lambda>y. idempotencyKey y = event_key e) (log_entries logs r) = Some s"
    using assms(1) s(1) e'(4)
    by (intro find_first_unique) (auto simp: log_inv_def distinct_map inj_on_def)
  have "e_body s \<noteq> t"
    using canonicalize_eq_iff [OF e'(1) e e'(2)] t s(3) assms(6) by auto
  then have "e_digest s \<noteq> sha256ProtocolText P t \<or> sha256_collision P (utf8 (e_body s)) (utf8 t)"
    using sha256ProtocolText_eqD [OF _ assms(3) canonicalize_clean [OF e'(2,1)] canonicalize_clean [OF t e]]
      e'(3) by auto
  then show ?thesis
    using ff t e'(2) s(3) canonicalize_norm [of P e']
    by (auto simp: log_append_def Let_def toCanonicalRow_def computeCanonicalSha256Id_def body_collision_def)
qed

section \<open>Properties\<close>

lemma log_inv_Nil [simp]: "log_inv P []"
  by (simp add: log_inv_def log_entries_def)

lemma log_inv_increasing:
  assumes "log_inv P logs"
  shows "sorted_wrt (<) (map event_seq (log_events P logs r))"
    and "distinct (map event_key (log_events P logs r))"
  using assms log_events_members [OF assms, of r] by (simp_all add: log_inv_def)

lemma log_append_first:
  assumes "storable P e"
  shows "\<exists>logs' x. log_append P [] r e = Inr (logs', Appended x)"
proof -
  obtain t where t: "canonicalizeProtocolJson P e = Inr t" and e: "json_data P e"
    using assms by (auto simp: storable_def)
  show ?thesis
    using t parse_body_canonical [OF t e]
    by (simp add: log_append_def log_entries_def toCanonicalRow_def computeCanonicalSha256Id_def)
qed

definition sample_event :: "string \<Rightarrow> int \<Rightarrow> jsval" where
  "sample_event k n = JObj [(lit ''sequence_number'', jint n), (lit ''idempotency_key'', jstr k)]"

lemma sample_event_storable:
  "storable sample_platform (sample_event ''k1'' 1)" "storable sample_platform (sample_event ''k2'' 2)"
proof -
  have "json_data sample_platform (sample_event ''k1'' 1)" "json_data sample_platform (sample_event ''k2'' 2)"
    "canonicalizeProtocolJson sample_platform (sample_event ''k1'' 1) =
      Inr (lit ''{\"idempotency_key\":\"k1\",\"sequence_number\":1}'')"
    "canonicalizeProtocolJson sample_platform (sample_event ''k2'' 2) =
      Inr (lit ''{\"idempotency_key\":\"k2\",\"sequence_number\":2}'')"
    by code_simp+
  then show "storable sample_platform (sample_event ''k1'' 1)" "storable sample_platform (sample_event ''k2'' 2)"
    by (simp_all add: storable_def)
qed

text \<open>C7: whatever sequence of events is appended to whatever reviews, the history of a review is
  only ever extended: the old log is a prefix of the new one, the sequence numbers stay strictly
  increasing and no idempotency key is used twice.\<close>

theorem log_history_only_grows:
  assumes "log_inv P logs" and "\<forall>op \<in> set ops. storable P (snd op)"
  shows "\<exists>new. log_events P (run_appends (log_append P) logs ops) r = log_events P logs r @ new \<and>
    sorted_wrt (<) (map event_seq (log_events P logs r @ new)) \<and>
    distinct (map event_key (log_events P logs r @ new))"
  using memory_log.run_extends [OF assms, of r]
    memory_log.run_increasing [OF assms log_inv_increasing [OF assms(1)], of r] by metis

theorem log_history_only_grows_witness:
  "\<exists>new. log_events sample_platform (run_appends (log_append sample_platform) []
      [(lit ''r'', sample_event ''k1'' 1), (lit ''r'', sample_event ''k2'' 2)]) (lit ''r'') =
      log_events sample_platform [] (lit ''r'') @ new \<and>
    sorted_wrt (<) (map event_seq (log_events sample_platform [] (lit ''r'') @ new)) \<and>
    distinct (map event_key (log_events sample_platform [] (lit ''r'') @ new))"
  by (rule log_history_only_grows) (simp_all add: sample_event_storable)

text \<open>C21: an append that succeeded can be replayed at any later time, after any other appends: the
  replay answers with the stored event and changes nothing.\<close>

theorem log_append_replay_idempotent:
  assumes "log_inv P logs" and "storable P e" and "log_append P logs r e = Inr (logs', Appended x)"
    and "\<forall>op \<in> set ops. storable P (snd op)"
  shows "log_append P (run_appends (log_append P) logs' ops) r e =
    Inr (run_appends (log_append P) logs' ops, Idempotent_noop (norm_js e))"
  using assms by (rule memory_log.replay_after_append)

theorem log_append_replay_idempotent_witness:
  "\<exists>logs' x. log_append sample_platform [] (lit ''r'') (sample_event ''k1'' 1) = Inr (logs', Appended x) \<and>
    log_append sample_platform
      (run_appends (log_append sample_platform) logs' [(lit ''r'', sample_event ''k2'' 2)])
      (lit ''r'') (sample_event ''k1'' 1) =
    Inr (run_appends (log_append sample_platform) logs' [(lit ''r'', sample_event ''k2'' 2)],
      Idempotent_noop (norm_js (sample_event ''k1'' 1)))"
proof -
  obtain logs' x where ap:
    "log_append sample_platform [] (lit ''r'') (sample_event ''k1'' 1) = Inr (logs', Appended x)"
    using log_append_first [OF sample_event_storable(1)] by blast
  with log_append_replay_idempotent [OF log_inv_Nil sample_event_storable(1) ap,
      of "[(lit ''r'', sample_event ''k2'' 2)]"]
  show ?thesis by (auto simp: sample_event_storable)
qed

text \<open>C22: a different body under an idempotency key that is already used never gets in: the append
  is rejected as a conflict and the log is unchanged, unless the canonical texts of exactly these two
  bodies, the stored and the new one, are a SHA-256 collision.\<close>

theorem log_append_conflict:
  assumes "log_inv P logs" and "storable P e" and "sha256_digests P"
    and "x \<in> set (log_events P logs r)" and "event_key x = event_key e" and "x \<noteq> norm_js e"
  shows "log_append P logs r e = Inr (logs, Rejected Idempotency_key_body_conflict) \<or> body_collision P x e"
  using assms by (rule log_key_conflict)

theorem log_append_conflict_witness:
  "\<exists>logs. sample_event ''k1'' 1 \<noteq> sample_event ''k1'' 3 \<and>
    (log_append sample_platform logs (lit ''r'') (sample_event ''k1'' 3) =
       Inr (logs, Rejected Idempotency_key_body_conflict) \<or>
     body_collision sample_platform (norm_js (sample_event ''k1'' 1)) (sample_event ''k1'' 3))"
proof -
  obtain logs x where ap:
    "log_append sample_platform [] (lit ''r'') (sample_event ''k1'' 1) = Inr (logs, Appended x)"
    using log_append_first [OF sample_event_storable(1)] by blast
  note st = sample_event_storable(1)
  have i: "log_inv sample_platform logs" "x = norm_js (sample_event ''k1'' 1)"
    "x \<in> set (log_events sample_platform logs (lit ''r''))"
    using memory_log.append_inv [OF log_inv_Nil st ap] memory_log.append_appended [OF log_inv_Nil st ap]
    by auto
  have "json_data sample_platform (sample_event ''k1'' 3)"
    "canonicalizeProtocolJson sample_platform (sample_event ''k1'' 3) =
      Inr (lit ''{\"idempotency_key\":\"k1\",\"sequence_number\":3}'')"
    "norm_js (sample_event ''k1'' 1) \<noteq> norm_js (sample_event ''k1'' 3)"
    "event_key (norm_js (sample_event ''k1'' 1)) = event_key (sample_event ''k1'' 3)"
    "sample_event ''k1'' 1 \<noteq> sample_event ''k1'' 3"
    by code_simp+
  then show ?thesis
    using log_append_conflict [OF i(1) _ sample_platform_digests i(3), of "sample_event ''k1'' 3"] i(2)
    by (auto simp: storable_def)
qed

end
