(* ===== verification/Evidence_Stores.thy ===== *)
theory Evidence_Stores
  imports Append_Only_Log
begin

text \<open>
  The in-memory record stores and the job queue of the evidence store
  (\<^verbatim>\<open>packages/evidence-store/src/memory/record-stores.ts\<close>, \<^verbatim>\<open>readiness-stores.ts\<close>,
  \<^verbatim>\<open>job-queue.ts\<close>). The stores share one contract, the locale \<open>write_once\<close>: a record, once
  written under its identity, is what every later read returns.
\<close>

section \<open>The contract of a write-once store\<close>

locale write_once =
  fixes inv :: "'s \<Rightarrow> bool"
    and valid :: "'v \<Rightarrow> bool"
    and record_op :: "'s \<Rightarrow> 'v \<Rightarrow> 't + 's \<times> 'o"
    and find_op :: "'s \<Rightarrow> 'k \<Rightarrow> 't + 'w option"
    and ident :: "'v \<Rightarrow> 'k"
    and stored :: "'v \<Rightarrow> 'w"
    and fresh :: "'o"
  assumes record_total: "inv s \<Longrightarrow> valid v \<Longrightarrow> \<exists>s' out. record_op s v = Inr (s', out)"
    and record_inv: "inv s \<Longrightarrow> valid v \<Longrightarrow> record_op s v = Inr (s', out) \<Longrightarrow> inv s'"
    and record_fresh: "inv s \<Longrightarrow> valid v \<Longrightarrow> find_op s (ident v) = Inr None \<Longrightarrow>
      \<exists>s'. record_op s v = Inr (s', fresh) \<and> find_op s' (ident v) = Inr (Some (stored v))"
    and record_taken: "inv s \<Longrightarrow> valid v \<Longrightarrow> find_op s (ident v) = Inr (Some w) \<Longrightarrow>
      record_op s v = Inr (s', out) \<Longrightarrow> s' = s \<and> out \<noteq> fresh"
    and record_frame: "inv s \<Longrightarrow> record_op s v = Inr (s', out) \<Longrightarrow> k \<noteq> ident v \<Longrightarrow>
      find_op s' k = find_op s k"
    and find_total: "inv s \<Longrightarrow> \<exists>w. find_op s k = Inr w"

text \<open>A sequence of writes; one that throws leaves the store as it is.\<close>

fun run_records :: "('s \<Rightarrow> 'v \<Rightarrow> 't + 's \<times> 'o) \<Rightarrow> 's \<Rightarrow> 'v list \<Rightarrow> 's" where
  "run_records rec s [] = s"
| "run_records rec s (v # vs) =
     (case rec s v of Inl _ \<Rightarrow> run_records rec s vs | Inr (s', _) \<Rightarrow> run_records rec s' vs)"

context write_once
begin

lemma record_keeps:
  assumes "inv s" "valid v" "record_op s v = Inr (s', out)" "find_op s k = Inr (Some w)"
  shows "find_op s' k = Inr (Some w)"
proof (cases "k = ident v")
  case True
  then show ?thesis using record_taken assms by metis
next
  case False
  then show ?thesis using record_frame assms by metis
qed

lemma run_keeps:
  assumes "inv s" "\<forall>v \<in> set vs. valid v" "find_op s k = Inr (Some w)"
  shows "inv (run_records record_op s vs) \<and> find_op (run_records record_op s vs) k = Inr (Some w)"
  using assms
proof (induction vs arbitrary: s)
  case (Cons v vs)
  have v: "valid v" using Cons.prems(2) by simp
  obtain s' out where r: "record_op s v = Inr (s', out)"
    using record_total [OF Cons.prems(1) v] by blast
  show ?case
    using Cons.IH [of s'] record_inv [OF Cons.prems(1) v r] record_keeps [OF Cons.prems(1) v r]
      Cons.prems(2,3) r by simp
qed simp

lemma first_write_wins:
  assumes "inv s" "\<forall>u \<in> set vs. valid u" "valid v" "find_op s (ident v) = Inr None"
  shows "\<exists>s'. record_op s v = Inr (s', fresh) \<and>
    find_op (run_records record_op s' vs) (ident v) = Inr (Some (stored v))"
proof -
  obtain s' where s': "record_op s v = Inr (s', fresh)" "find_op s' (ident v) = Inr (Some (stored v))"
    using record_fresh [OF assms(1,3,4)] by blast
  then show ?thesis
    using run_keeps [OF record_inv [OF assms(1,3) s'(1)] assms(2) s'(2)] by blast
qed

end

section \<open>Rows of canonical bodies\<close>

type_synonym row_store = "(ustr, ustr) jmap"

text \<open>Every stored body is the canonical text of JSON data.\<close>

definition rows_ok :: "platform \<Rightarrow> ('k \<times> ustr) list \<Rightarrow> bool" where
  "rows_ok P rows \<longleftrightarrow>
     (\<forall>k b. jm_get rows k = Some b \<longrightarrow> (\<exists>v. json_data P v \<and> canonicalizeProtocolJson P v = Inr b))"

definition find_row :: "platform \<Rightarrow> ('k \<times> ustr) list \<Rightarrow> 'k \<Rightarrow> thrown + jsval option" where
  "find_row P rows k =
     (case jm_get rows k of None \<Rightarrow> Inr None | Some b \<Rightarrow> sbind (parse_body P b) (\<lambda>v. Inr (Some v)))"

lemma find_row_total: "rows_ok P rows \<Longrightarrow> \<exists>w. find_row P rows k = Inr w"
  using parse_body_canonical by (fastforce simp: find_row_def rows_ok_def split: option.split)

lemma find_row_None [simp]: "find_row P rows k = Inr None \<longleftrightarrow> jm_get rows k = None"
  by (auto simp: find_row_def split: option.splits)

lemma find_row_SomeD: "find_row P rows k = Inr (Some w) \<Longrightarrow> jm_get rows k \<noteq> None"
  by (auto simp: find_row_def split: option.splits)

lemma find_row_other: "j \<noteq> k \<Longrightarrow> find_row P (jm_set rows k b) j = find_row P rows j"
  by (simp add: find_row_def)

lemma rows_ok_set:
  "rows_ok P rows \<Longrightarrow> json_data P v \<Longrightarrow> canonicalizeProtocolJson P v = Inr b \<Longrightarrow>
   rows_ok P (jm_set rows k b)"
  by (auto simp: rows_ok_def)

lemma find_row_set:
  "json_data P v \<Longrightarrow> canonicalizeProtocolJson P v = Inr b \<Longrightarrow>
   find_row P (jm_set rows k b) j = (if j = k then Inr (Some (norm_js v)) else find_row P rows j)"
  by (auto simp: find_row_def parse_body_canonical)

lemma rows_ok_Nil [simp]: "rows_ok P []"
  by (simp add: rows_ok_def)

lemma storable_row:
  assumes "storable P v"
  obtains b where "toCanonicalRow P v = Inr \<lparr>body = b, digest = sha256ProtocolText P b\<rparr>"
    "canonicalizeProtocolJson P v = Inr b" "json_data P v"
  using assms by (auto simp: storable_def toCanonicalRow_def computeCanonicalSha256Id_def)

section \<open>Classification, retention and gate stores\<close>

datatype recordOutcome = Recorded | Already_present

definition stored_object_ref :: "jsval \<Rightarrow> ustr" where
  "stored_object_ref c = the_str (field c ''stored_object_ref'')"

definition classification_record :: "platform \<Rightarrow> row_store \<Rightarrow> jsval \<Rightarrow> thrown + row_store \<times> recordOutcome" where
  "classification_record P rows c =
     (if jm_has rows (stored_object_ref c) then Inr (rows, Already_present)
      else sbind (lift_canon (toCanonicalRow P c)) (\<lambda>row.
        Inr (jm_set rows (stored_object_ref c) (body row), Recorded)))"

definition classification_find :: "platform \<Rightarrow> row_store \<Rightarrow> ustr \<Rightarrow> thrown + jsval option" where
  "classification_find P rows ref = find_row P rows ref"

definition retention_record_id :: "jsval \<Rightarrow> ustr" where
  "retention_record_id r = the_str (field r ''retention_record_id'')"

definition retention_record :: "platform \<Rightarrow> row_store \<Rightarrow> jsval \<Rightarrow> thrown + row_store \<times> recordOutcome" where
  "retention_record P rows r =
     (if jm_has rows (retention_record_id r) then Inr (rows, Already_present)
      else sbind (lift_canon (toCanonicalRow P r)) (\<lambda>row.
        Inr (jm_set rows (retention_record_id r) (body row), Recorded)))"

definition retention_find :: "platform \<Rightarrow> row_store \<Rightarrow> ustr \<Rightarrow> thrown + jsval option" where
  "retention_find P rows i = find_row P rows i"

definition end_timestamp_of :: "jsval \<Rightarrow> ustr" where
  "end_timestamp_of r = the_str (field (field r ''retention_period'') ''end_timestamp'')"

definition listDue :: "platform \<Rightarrow> row_store \<Rightarrow> ustr \<Rightarrow> thrown + jsval list" where
  "listDue P rows now =
     sbind (smap (parse_body P) (jm_values rows)) (\<lambda>records.
     Inr (filter (\<lambda>r. end_timestamp_of r \<le> now) records))"

datatype versionOutcome = Version_recorded | Version_conflict

fun highest_key :: "(int \<times> ustr) list \<Rightarrow> int option \<Rightarrow> int option" where
  "highest_key [] h = h"
| "highest_key ((v, _) # rows) h =
     highest_key rows (case h of None \<Rightarrow> Some v | Some x \<Rightarrow> if v > x then Some v else h)"

definition loadCurrent :: "platform \<Rightarrow> (int, ustr) jmap \<Rightarrow> thrown + (int \<times> jsval) option" where
  "loadCurrent P versions =
     (case highest_key versions None of
        None \<Rightarrow> Inr None
      | Some v \<Rightarrow> (case jm_get versions v of
            None \<Rightarrow> Inr None
          | Some b \<Rightarrow> sbind (parse_body P b) (\<lambda>g. Inr (Some (v, g)))))"

definition recordVersion ::
  "platform \<Rightarrow> (int, ustr) jmap \<Rightarrow> int \<times> jsval \<Rightarrow> thrown + (int, ustr) jmap \<times> versionOutcome" where
  "recordVersion P versions input =
     (if jm_has versions (fst input) then Inr (versions, Version_conflict)
      else sbind (lift_canon (toCanonicalRow P (snd input))) (\<lambda>row.
        Inr (jm_set versions (fst input) (body row), Version_recorded)))"

section \<open>Readiness stores\<close>

datatype identityRecordOutcome = Id_recorded | Id_already_present | Id_body_conflict

definition identity_record ::
  "platform \<Rightarrow> (jsval \<Rightarrow> ustr) \<Rightarrow> row_store \<Rightarrow> jsval \<Rightarrow> thrown + row_store \<times> identityRecordOutcome" where
  "identity_record P idOf rows r =
     sbind (lift_canon (toCanonicalRow P r)) (\<lambda>row.
     (case jm_get rows (idOf r) of
        None \<Rightarrow> Inr (jm_set rows (idOf r) (body row), Id_recorded)
      | Some existing \<Rightarrow>
          Inr (rows, if existing = body row then Id_already_present else Id_body_conflict)))"

definition identity_find :: "platform \<Rightarrow> row_store \<Rightarrow> ustr \<Rightarrow> thrown + jsval option" where
  "identity_find P rows i = find_row P rows i"

definition readiness_evidence_id :: "jsval \<Rightarrow> ustr" where
  "readiness_evidence_id r = the_str (field r ''readiness_evidence_id'')"

definition readiness_decision_id :: "jsval \<Rightarrow> ustr" where
  "readiness_decision_id r = the_str (field r ''readiness_decision_id'')"

lemmas row_store_defs = classification_record_def classification_find_def retention_record_def
  retention_find_def identity_record_def identity_find_def recordVersion_def

section \<open>The stores keep the contract\<close>

text \<open>Writing a canonical body under a key that is still free: what the stores have in common.\<close>

definition put_row ::
  "platform \<Rightarrow> 'o \<Rightarrow> 'o \<Rightarrow> ('k, ustr) jmap \<Rightarrow> 'k \<Rightarrow> jsval \<Rightarrow> thrown + ('k, ustr) jmap \<times> 'o" where
  "put_row P taken free rows k v =
     (if jm_has rows k then Inr (rows, taken)
      else sbind (lift_canon (toCanonicalRow P v)) (\<lambda>row. Inr (jm_set rows k (body row), free)))"

lemma put_row_write_once:
  fixes ident :: "'i \<Rightarrow> 'k"
  assumes "taken \<noteq> free"
  shows "write_once (rows_ok P) (\<lambda>i. storable P (content i))
    (\<lambda>s i. put_row P taken free s (ident i) (content i)) (find_row P) ident
    (\<lambda>i. norm_js (content i)) free"
proof
  fix s s' :: "('k, ustr) jmap" and v :: 'i and out k w
  show "\<exists>s' out. put_row P taken free s (ident v) (content v) = Inr (s', out)"
    if "rows_ok P s" "storable P (content v)"
    using that(2) by (auto simp: put_row_def elim!: storable_row)
  show "rows_ok P s'" if "rows_ok P s" "storable P (content v)"
    "put_row P taken free s (ident v) (content v) = Inr (s', out)"
    using that(2,1,3) by (elim storable_row) (auto simp: put_row_def split: if_splits intro: rows_ok_set)
  show "\<exists>s'. put_row P taken free s (ident v) (content v) = Inr (s', free) \<and>
      find_row P s' (ident v) = Inr (Some (norm_js (content v)))"
    if "rows_ok P s" "storable P (content v)" "find_row P s (ident v) = Inr None"
    using that(2,3) by (elim storable_row) (simp add: put_row_def jm_has_def find_row_set)
  show "s' = s \<and> out \<noteq> free" if "rows_ok P s" "storable P (content v)"
    "find_row P s (ident v) = Inr (Some w)"
    "put_row P taken free s (ident v) (content v) = Inr (s', out)"
    using that(4) assms find_row_SomeD [OF that(3)] by (auto simp: put_row_def jm_has_def split: if_splits)
  show "find_row P s' k = find_row P s k" if "rows_ok P s"
    "put_row P taken free s (ident v) (content v) = Inr (s', out)" "k \<noteq> ident v"
    using that(2,3) by (auto simp: put_row_def find_row_other split: if_splits)
  show "\<exists>w. find_row P s k = Inr w" if "rows_ok P s"
    using that by (rule find_row_total)
qed

lemma stores_as_put_row:
  "classification_record P = (\<lambda>rows c. put_row P Already_present Recorded rows (stored_object_ref c) c)"
  "retention_record P = (\<lambda>rows r. put_row P Already_present Recorded rows (retention_record_id r) r)"
  "recordVersion P = (\<lambda>rows i. put_row P Version_conflict Version_recorded rows (fst i) (snd i))"
  "classification_find P = find_row P" "retention_find P = find_row P" "identity_find P = find_row P"
  by (simp_all add: row_store_defs put_row_def fun_eq_iff)

interpretation classifications: write_once "rows_ok P" "storable P" "classification_record P"
  "classification_find P" stored_object_ref norm_js Recorded for P
  unfolding stores_as_put_row by (rule put_row_write_once) simp

interpretation retention_records: write_once "rows_ok P" "storable P" "retention_record P"
  "retention_find P" retention_record_id norm_js Recorded for P
  unfolding stores_as_put_row by (rule put_row_write_once) simp

interpretation gate_versions: write_once "rows_ok P" "\<lambda>i. storable P (snd i)" "recordVersion P"
  "find_row P" fst "\<lambda>i. norm_js (snd i)" Version_recorded for P
  unfolding stores_as_put_row by (rule put_row_write_once) simp

lemma identity_record_absent:
  "jm_get rows (idOf r) = None \<Longrightarrow>
   identity_record P idOf rows r = put_row P Id_already_present Id_recorded rows (idOf r) r"
  by (simp add: identity_record_def put_row_def jm_has_def)

lemma identity_record_present:
  "jm_get rows (idOf r) = Some b \<Longrightarrow> toCanonicalRow P r = Inr row \<Longrightarrow>
   identity_record P idOf rows r =
     Inr (rows, if b = body row then Id_already_present else Id_body_conflict)"
  by (simp add: identity_record_def)

lemma identity_record_cases:
  assumes "identity_record P idOf rows r = Inr (rows', out)"
  obtains (present) "jm_get rows (idOf r) \<noteq> None" "rows' = rows" "out \<noteq> Id_recorded"
  | (absent) "jm_get rows (idOf r) = None"
      "put_row P Id_already_present Id_recorded rows (idOf r) r = Inr (rows', out)"
  using assms identity_record_absent [of rows idOf r P]
  by (cases "jm_get rows (idOf r)") (auto simp: identity_record_def split: if_splits)

lemma put_row_identity:
  "write_once (rows_ok P) (storable P) (\<lambda>s r. put_row P Id_already_present Id_recorded s (idOf r) r)
     (identity_find P) idOf norm_js Id_recorded"
  unfolding stores_as_put_row by (rule put_row_write_once) simp

interpretation identity_records: write_once "rows_ok P" "storable P" "identity_record P idOf"
  "identity_find P" idOf norm_js Id_recorded for P idOf
proof
  note put = put_row_identity [of P idOf]
  fix s s' :: row_store and v out k w
  show "\<exists>s' out. identity_record P idOf s v = Inr (s', out)" if "rows_ok P s" "storable P v"
    using that(2) by (rule storable_row) (auto simp: identity_record_def split: option.split)
  show "rows_ok P s'" if "rows_ok P s" "storable P v" "identity_record P idOf s v = Inr (s', out)"
    using that(3) write_once.record_inv [OF put that(1,2)] that(1)
    by (cases rule: identity_record_cases) auto
  show "\<exists>s'. identity_record P idOf s v = Inr (s', Id_recorded) \<and>
      identity_find P s' (idOf v) = Inr (Some (norm_js v))"
    if "rows_ok P s" "storable P v" "identity_find P s (idOf v) = Inr None"
    using write_once.record_fresh [OF put that] that(3)
    by (simp add: identity_record_absent identity_find_def)
  show "s' = s \<and> out \<noteq> Id_recorded" if "rows_ok P s" "storable P v"
    "identity_find P s (idOf v) = Inr (Some w)" "identity_record P idOf s v = Inr (s', out)"
    using that(4) find_row_SomeD [OF that(3) [unfolded identity_find_def]]
    by (cases rule: identity_record_cases) auto
  show "identity_find P s' k = identity_find P s k" if "rows_ok P s"
    "identity_record P idOf s v = Inr (s', out)" "k \<noteq> idOf v"
    using that(2) write_once.record_frame [OF put that(1) _ that(3)]
    by (cases rule: identity_record_cases) auto
  show "\<exists>w. identity_find P s k = Inr w" if "rows_ok P s"
    using that by (simp add: identity_find_def find_row_total)
qed

lemma highest_key_acc:
  "highest_key rows (Some h) = Some (fold max (map fst rows) h)"
  by (induction rows arbitrary: h) (auto simp: max_def)

lemma highest_key_Max:
  assumes "rows \<noteq> []"
  shows "highest_key rows None = Some (Max (fst ` set rows))"
proof (cases rows)
  case (Cons p ps)
  then show ?thesis
    using highest_key_acc [of ps "fst p"] Max.set_eq_fold [of "fst p" "map fst ps"]
    by (cases p) simp
qed (use assms in simp)

lemma jm_get_in_keys: "jm_get m k \<noteq> None \<longleftrightarrow> k \<in> fst ` set m"
  by (simp add: map_of_eq_None_iff)

section \<open>The job queue\<close>

record jobRecord =
  job_id :: ustr
  job_type :: ustr
  payload :: ustr
  attempts :: nat

record jobRow = jobRecord +
  claimed :: bool

type_synonym job_state = "(ustr, jobRow) jmap"

datatype enqueueOutcome = Enqueued | Enqueue_already_present

definition enqueue :: "job_state \<Rightarrow> ustr \<Rightarrow> ustr \<Rightarrow> ustr \<Rightarrow> job_state \<times> enqueueOutcome" where
  "enqueue jobs i ty pl =
     (if jm_has jobs i then (jobs, Enqueue_already_present)
      else (jm_set jobs i \<lparr>job_id = i, job_type = ty, payload = pl, attempts = 0, claimed = False\<rparr>, Enqueued))"

text \<open>The first unclaimed job of the type is marked in place.\<close>

fun claim :: "job_state \<Rightarrow> ustr \<Rightarrow> job_state \<times> jobRecord option" where
  "claim [] ty = ([], None)"
| "claim ((k, job) # jobs) ty =
     (if job_type job = ty \<and> \<not> claimed job then
        (let job' = job\<lparr>claimed := True, attempts := attempts job + 1\<rparr>
         in ((k, job') # jobs,
             Some \<lparr>job_id = job_id job', job_type = job_type job', payload = payload job',
                   attempts = attempts job'\<rparr>))
      else (let (jobs', r) = claim jobs ty in ((k, job) # jobs', r)))"

definition complete :: "job_state \<Rightarrow> ustr \<Rightarrow> job_state" where
  "complete jobs i = jm_delete jobs i"

definition fail_job :: "job_state \<Rightarrow> ustr \<Rightarrow> job_state" where
  "fail_job jobs i =
     (case jm_get jobs i of None \<Rightarrow> jobs | Some job \<Rightarrow> jm_set jobs i (job\<lparr>claimed := False\<rparr>))"

text \<open>A row is stored under its own identity.\<close>

definition jobs_ok :: "job_state \<Rightarrow> bool" where
  "jobs_ok jobs \<longleftrightarrow> jm_wf jobs \<and> (\<forall>p \<in> set jobs. job_id (snd p) = fst p)"

lemma claim_spec:
  assumes "jobs_ok jobs"
  shows "case claim jobs ty of
      (jobs', None) \<Rightarrow> jobs' = jobs \<and> (\<forall>p \<in> set jobs. job_type (snd p) = ty \<longrightarrow> claimed (snd p))
    | (jobs', Some j) \<Rightarrow> (\<exists>row. jm_get jobs (job_id j) = Some row \<and> job_type row = ty \<and> \<not> claimed row \<and>
        jobs' = jm_set jobs (job_id j) (row\<lparr>claimed := True, attempts := attempts row + 1\<rparr>) \<and>
        j = \<lparr>job_id = job_id j, job_type = ty, payload = payload row, attempts = attempts row + 1\<rparr>)"
  using assms
proof (induction jobs)
  case (Cons p jobs)
  obtain k job where p: "p = (k, job)" by (cases p)
  have ok: "jobs_ok jobs" "job_id job = k" "k \<notin> fst ` set jobs"
    using Cons.prems p by (auto simp: jobs_ok_def jm_wf_def)
  show ?case
  proof (cases "job_type job = ty \<and> \<not> claimed job")
    case True
    then show ?thesis using p ok by simp
  next
    case False
    obtain jobs' r where c: "claim jobs ty = (jobs', r)" by (cases "claim jobs ty")
    show ?thesis
    proof (cases r)
      case None
      then show ?thesis using Cons.IH [OF ok(1)] False c p by auto
    next
      case (Some j)
      then obtain row where row: "jm_get jobs (job_id j) = Some row"
        "job_type row = ty \<and> \<not> claimed row \<and>
         jobs' = jm_set jobs (job_id j) (row\<lparr>claimed := True, attempts := attempts row + 1\<rparr>) \<and>
         j = \<lparr>job_id = job_id j, job_type = ty, payload = payload row, attempts = attempts row + 1\<rparr>"
        using Cons.IH [OF ok(1)] c by auto
      have "job_id j \<noteq> k"
        using row(1) ok(3) jm_get_in_keys [of jobs "job_id j"] by auto
      then show ?thesis using row False c Some p by auto
    qed
  qed
qed (simp add: jobs_ok_def)

lemma claim_Some:
  assumes "jobs_ok jobs" "claim jobs ty = (jobs', Some j)"
  obtains row where "jm_get jobs (job_id j) = Some row" "job_type row = ty" "\<not> claimed row"
    "jobs' = jm_set jobs (job_id j) (row\<lparr>claimed := True, attempts := attempts row + 1\<rparr>)"
    "j = \<lparr>job_id = job_id j, job_type = ty, payload = payload row, attempts = attempts row + 1\<rparr>"
proof -
  from claim_spec [OF assms(1), of ty] assms(2) obtain row where
    "jm_get jobs (job_id j) = Some row \<and> job_type row = ty \<and> \<not> claimed row \<and>
     jobs' = jm_set jobs (job_id j) (row\<lparr>claimed := True, attempts := attempts row + 1\<rparr>) \<and>
     j = \<lparr>job_id = job_id j, job_type = ty, payload = payload row, attempts = attempts row + 1\<rparr>"
    by auto
  then show thesis using that by blast
qed

lemma claim_None:
  assumes "jobs_ok jobs" "claim jobs ty = (jobs', None)"
  shows "jobs' = jobs" "\<forall>k row. jm_get jobs k = Some row \<longrightarrow> job_type row = ty \<longrightarrow> claimed row"
  using claim_spec [OF assms(1), of ty] assms by (auto dest!: map_of_SomeD)

text \<open>The calls any number of workers make, in the order the queue serves them. Each answers with
  the job it claimed, if any.\<close>

datatype job_op = Enqueue ustr ustr ustr | Claim ustr | Complete ustr | Fail ustr

fun job_exec :: "job_state \<Rightarrow> job_op \<Rightarrow> job_state \<times> jobRecord option" where
  "job_exec jobs (Enqueue i ty pl) = (fst (enqueue jobs i ty pl), None)"
| "job_exec jobs (Claim ty) = claim jobs ty"
| "job_exec jobs (Complete i) = (complete jobs i, None)"
| "job_exec jobs (Fail i) = (fail_job jobs i, None)"

fun run_jobs :: "job_state \<Rightarrow> job_op list \<Rightarrow> job_state \<times> jobRecord option list" where
  "run_jobs jobs [] = (jobs, [])"
| "run_jobs jobs (op # ops) =
     (let (jobs', r) = job_exec jobs op; (jobs'', rs) = run_jobs jobs' ops in (jobs'', r # rs))"

lemma jobs_ok_set: "jobs_ok jobs \<Longrightarrow> job_id row = i \<Longrightarrow> jobs_ok (jm_set jobs i row)"
proof -
  assume a: "jobs_ok jobs" "job_id row = i"
  have "set (jm_set jobs i row) \<subseteq> insert (i, row) (set jobs)"
    by (induction jobs i row rule: jm_set.induct) auto
  with a show ?thesis by (auto simp: jobs_ok_def)
qed

lemma jobs_ok_get: "jobs_ok jobs \<Longrightarrow> jm_get jobs i = Some row \<Longrightarrow> job_id row = i"
  by (auto simp: jobs_ok_def dest!: map_of_SomeD)

lemma jobs_ok_Nil [simp]: "jobs_ok []"
  by (simp add: jobs_ok_def)

lemma job_exec_ok:
  assumes "jobs_ok jobs"
  shows "jobs_ok (fst (job_exec jobs op))"
proof (cases op)
  case (Claim ty)
  obtain jobs' r where c: "claim jobs ty = (jobs', r)" by (cases "claim jobs ty")
  show ?thesis
  proof (cases r)
    case None
    then show ?thesis using claim_None(1) [OF assms, of ty jobs'] c assms Claim by simp
  next
    case (Some j)
    with c have "claim jobs ty = (jobs', Some j)" by simp
    then show ?thesis
      by (rule claim_Some [OF assms]) (use Claim c assms in \<open>auto intro!: jobs_ok_set dest: jobs_ok_get\<close>)
  qed
next
  case (Complete i)
  then show ?thesis using assms by (auto simp: complete_def jobs_ok_def jm_delete_def)
      (metis jm_delete_def jm_wf_delete)
qed (use assms in \<open>auto simp: enqueue_def fail_job_def intro!: jobs_ok_set dest: jobs_ok_get
    split: option.split\<close>)

text \<open>How one call changes the row of a job that it neither completes nor fails.\<close>

lemma job_exec_row:
  assumes "jobs_ok jobs" "jm_get jobs i = Some row" "op \<noteq> Complete i" "job_exec jobs op = (jobs', r)"
  shows "if \<exists>j. r = Some j \<and> job_id j = i
    then \<not> claimed row \<and> jm_get jobs' i = Some (row\<lparr>claimed := True, attempts := attempts row + 1\<rparr>)
    else \<exists>c. jm_get jobs' i = Some (row\<lparr>claimed := c\<rparr>) \<and> (op \<noteq> Fail i \<longrightarrow> c = claimed row)"
proof (cases op)
  case (Claim ty)
  show ?thesis
  proof (cases r)
    case None
    then have "jobs' = jobs"
      using claim_None(1) [OF assms(1)] assms(4) Claim by simp
    then show ?thesis using None assms(2) by (auto intro!: exI [of _ "claimed row"])
  next
    case (Some j)
    with assms(4) Claim have "claim jobs ty = (jobs', Some j)" by simp
    then show ?thesis
      by (rule claim_Some [OF assms(1)])
        (use Some assms(2) in \<open>auto intro!: exI [of _ "claimed row"]\<close>)
  qed
next
  case (Fail k)
  then show ?thesis
    using assms
    by (cases "k = i")
      (auto simp: fail_job_def split: option.splits intro: exI [of _ "claimed row"] exI [of _ False])
qed (use assms in \<open>auto simp: enqueue_def complete_def jm_has_def intro!: exI [of _ "claimed row"]
    split: if_splits\<close>)

definition claims_of :: "ustr \<Rightarrow> jobRecord option list \<Rightarrow> nat" where
  "claims_of i rs = length (filter (\<lambda>r. \<exists>j. r = Some j \<and> job_id j = i) rs)"

lemma run_jobs_row:
  assumes "jobs_ok jobs" "jm_get jobs i = Some row" "Complete i \<notin> set ops" "run_jobs jobs ops = (jobs', rs)"
  shows "\<exists>row'. jm_get jobs' i = Some row' \<and> attempts row' = attempts row + claims_of i rs \<and>
    (Fail i \<notin> set ops \<longrightarrow> claimed row \<longrightarrow> claims_of i rs = 0)"
  using assms
proof (induction ops arbitrary: jobs row rs)
  case (Cons op ops)
  obtain j1 r where e: "job_exec jobs op = (j1, r)" by (cases "job_exec jobs op")
  obtain rs1 where r1: "run_jobs j1 ops = (jobs', rs1)" "rs = r # rs1"
    using Cons.prems(4) e by (auto split: prod.splits)
  have ok: "jobs_ok j1" using job_exec_ok [OF Cons.prems(1), of op] e by simp
  have ne: "op \<noteq> Complete i" "Complete i \<notin> set ops" using Cons.prems(3) by auto
  note step = job_exec_row [OF Cons.prems(1,2) ne(1) e]
  show ?case
  proof (cases "\<exists>j. r = Some j \<and> job_id j = i")
    case True
    with step have "\<not> claimed row"
      "jm_get j1 i = Some (row\<lparr>claimed := True, attempts := attempts row + 1\<rparr>)" by auto
    with Cons.IH [OF ok this(2) ne(2) r1(1)] True show ?thesis
      by (auto simp: claims_of_def r1(2))
  next
    case False
    with step obtain c where c: "jm_get j1 i = Some (row\<lparr>claimed := c\<rparr>)"
      "op \<noteq> Fail i \<longrightarrow> c = claimed row" by (auto split: if_splits)
    from Cons.IH [OF ok c(1) ne(2) r1(1)] False c(2) show ?thesis
      by (auto simp: claims_of_def r1(2))
  qed
qed (simp add: claims_of_def)

section \<open>Properties\<close>

text \<open>C24: a claimed job is one worker's alone: whatever calls follow, no claim hands the same job out
  again until it is completed or failed.\<close>

theorem claim_is_exclusive:
  assumes "jobs_ok jobs" and "claim jobs ty = (jobs', Some j)"
    and "Complete (job_id j) \<notin> set ops" and "Fail (job_id j) \<notin> set ops"
  shows "claims_of (job_id j) (snd (run_jobs jobs' ops)) = 0"
proof -
  obtain row where
    row: "jm_get jobs' (job_id j) = Some (row\<lparr>claimed := True, attempts := attempts row + 1\<rparr>)"
    by (rule claim_Some [OF assms(1,2)]) simp
  have "jobs_ok jobs'"
    using job_exec_ok [OF assms(1), of "Claim ty"] assms(2) by simp
  from run_jobs_row [OF this row assms(3), of "fst (run_jobs jobs' ops)" "snd (run_jobs jobs' ops)"]
    assms(4) show ?thesis by auto
qed

definition sample_jobs :: job_state where
  "sample_jobs = fst (enqueue (fst (enqueue [] (lit ''j1'') (lit ''t'') (lit ''p''))) (lit ''j2'') (lit ''t'') (lit ''q''))"

lemma sample_jobs_ok: "jobs_ok sample_jobs"
  using job_exec_ok [OF job_exec_ok [OF jobs_ok_Nil], of "Enqueue (lit ''j1'') (lit ''t'') (lit ''p'')"
      "Enqueue (lit ''j2'') (lit ''t'') (lit ''q'')"]
  by (simp add: sample_jobs_def)

theorem claim_is_exclusive_witness:
  "claims_of (lit ''j1'') (snd (run_jobs (fst (claim sample_jobs (lit ''t'')))
     [Claim (lit ''t''), Claim (lit ''t''), Complete (lit ''j2'')])) = 0"
proof -
  have "claim sample_jobs (lit ''t'') = (fst (claim sample_jobs (lit ''t'')),
      Some \<lparr>job_id = lit ''j1'', job_type = lit ''t'', payload = lit ''p'', attempts = 1\<rparr>)"
    by (simp add: sample_jobs_def enqueue_def jm_has_def)
  from claim_is_exclusive [OF sample_jobs_ok this,
      of "[Claim (lit ''t''), Claim (lit ''t''), Complete (lit ''j2'')]"]
  show ?thesis by simp
qed

text \<open>The attempt counter of a job that has not been completed is the number of times it has been
  claimed since it was enqueued.\<close>

theorem attempts_count_claims:
  assumes "jobs_ok jobs" and "jm_get jobs i = None" and "Complete i \<notin> set ops"
  shows "\<exists>row. jm_get (fst (run_jobs (fst (enqueue jobs i ty pl)) ops)) i = Some row \<and>
    attempts row = claims_of i (snd (run_jobs (fst (enqueue jobs i ty pl)) ops))"
proof -
  have "jobs_ok (fst (enqueue jobs i ty pl))"
    using job_exec_ok [OF assms(1), of "Enqueue i ty pl"] by simp
  moreover have "jm_get (fst (enqueue jobs i ty pl)) i =
      Some \<lparr>job_id = i, job_type = ty, payload = pl, attempts = 0, claimed = False\<rparr>"
    using assms(2) by (simp add: enqueue_def)
  ultimately show ?thesis
    using run_jobs_row [OF _ _ assms(3) surjective_pairing] by fastforce
qed

theorem attempts_count_claims_witness:
  "\<exists>row. jm_get (fst (run_jobs (fst (enqueue [] (lit ''j'') (lit ''t'') (lit ''p''))) [Claim (lit ''t''),
      Fail (lit ''j''), Claim (lit ''t'')])) (lit ''j'') = Some row \<and>
    attempts row = claims_of (lit ''j'') (snd (run_jobs (fst (enqueue [] (lit ''j'') (lit ''t'') (lit ''p'')))
      [Claim (lit ''t''), Fail (lit ''j''), Claim (lit ''t'')]))"
  by (rule attempts_count_claims) simp_all

text \<open>C26: a readiness record, once stored, is what every later read returns, whatever is recorded
  afterwards; recording a different body under its identity is answered with a conflict.\<close>

theorem identity_store_first_write_wins:
  assumes "rows_ok P rows" and "storable P r" and "\<forall>u \<in> set later. storable P u"
    and "jm_get rows (idOf r) = None"
  shows "\<exists>rows'. identity_record P idOf rows r = Inr (rows', Id_recorded) \<and>
    identity_find P (run_records (identity_record P idOf) rows' later) (idOf r) = Inr (Some (norm_js r)) \<and>
    (\<forall>u. storable P u \<longrightarrow> idOf u = idOf r \<longrightarrow> norm_js u \<noteq> norm_js r \<longrightarrow>
       identity_record P idOf rows' u = Inr (rows', Id_body_conflict))"
proof -
  obtain rows' where rec: "identity_record P idOf rows r = Inr (rows', Id_recorded)" and
    fnd: "identity_find P (run_records (identity_record P idOf) rows' later) (idOf r) = Inr (Some (norm_js r))"
    using identity_records.first_write_wins [OF assms(1,3,2)] assms(4) by (auto simp: identity_find_def)
  obtain b where b: "toCanonicalRow P r = Inr \<lparr>body = b, digest = sha256ProtocolText P b\<rparr>"
    "canonicalizeProtocolJson P r = Inr b" "json_data P r"
    using assms(2) by (rule storable_row)
  have rows': "rows' = jm_set rows (idOf r) b"
    using rec b(1) assms(4) by (simp add: identity_record_def)
  have "identity_record P idOf rows' u = Inr (rows', Id_body_conflict)"
    if "storable P u" "idOf u = idOf r" "norm_js u \<noteq> norm_js r" for u
    using that(1)
  proof (rule storable_row)
    fix c
    assume c: "toCanonicalRow P u = Inr \<lparr>body = c, digest = sha256ProtocolText P c\<rparr>"
      "canonicalizeProtocolJson P u = Inr c" "json_data P u"
    then have "b \<noteq> c"
      using canonicalize_eq_iff [OF b(3) c(3) b(2)] that(3) by auto
    then show ?thesis using c(1) that(2) rows' by (simp add: identity_record_def)
  qed
  with rec fnd show ?thesis by blast
qed

theorem identity_store_first_write_wins_witness:
  "\<exists>rows'. identity_record sample_platform event_key [] (sample_event ''k1'' 1) = Inr (rows', Id_recorded) \<and>
    identity_find sample_platform (run_records (identity_record sample_platform event_key) rows'
      [sample_event ''k2'' 2]) (event_key (sample_event ''k1'' 1)) = Inr (Some (norm_js (sample_event ''k1'' 1))) \<and>
    (\<forall>u. storable sample_platform u \<longrightarrow> event_key u = event_key (sample_event ''k1'' 1) \<longrightarrow>
       norm_js u \<noteq> norm_js (sample_event ''k1'' 1) \<longrightarrow>
       identity_record sample_platform event_key rows' u = Inr (rows', Id_body_conflict))"
  by (rule identity_store_first_write_wins) (simp_all add: sample_event_storable)

text \<open>The current environment gate is the record with the highest version: recording a higher
  version makes it current, a version that is taken is refused and leaves everything as it is, and
  a lower new version does not change the current gate.\<close>

theorem gate_store_current:
  assumes "rows_ok P versions" and "storable P g"
  shows "if n \<in> fst ` set versions then recordVersion P versions (n, g) = Inr (versions, Version_conflict)
    else \<exists>versions'. recordVersion P versions (n, g) = Inr (versions', Version_recorded) \<and>
      (if \<forall>v \<in> fst ` set versions. v < n then loadCurrent P versions' = Inr (Some (n, norm_js g))
       else loadCurrent P versions' = loadCurrent P versions)"
proof (cases "n \<in> fst ` set versions")
  case True
  then show ?thesis using jm_get_in_keys [of versions n] by (auto simp: recordVersion_def jm_has_def)
next
  case False
  then have none: "jm_get versions n = None" by (simp add: map_of_eq_None_iff)
  obtain b where b: "toCanonicalRow P g = Inr \<lparr>body = b, digest = sha256ProtocolText P b\<rparr>"
    "canonicalizeProtocolJson P g = Inr b" "json_data P g"
    using assms(2) by (rule storable_row)
  define vs where "vs = versions @ [(n, b)]"
  have rec: "recordVersion P versions (n, g) = Inr (vs, Version_recorded)"
    using none b(1) by (simp add: recordVersion_def jm_has_def jm_set_fresh vs_def)
  have get: "jm_get vs v = (if v = n then Some b else jm_get versions v)" for v
    using none by (simp add: vs_def map_add_def split: option.split)
  have hk: "highest_key vs None = Some (Max (insert n (fst ` set versions)))"
    using highest_key_Max [of vs] by (simp add: vs_def)
  show ?thesis
  proof (cases "\<forall>v \<in> fst ` set versions. v < n")
    case True
    then have "Max (insert n (fst ` set versions)) = n"
      by (intro Max_eqI) (auto simp: order.strict_implies_order)
    then show ?thesis
      using False True rec get [of n] hk parse_body_canonical [OF b(2,3)] by (simp add: loadCurrent_def)
  next
    case larger: False
    then obtain v where v: "v \<in> fst ` set versions" "n < v"
      using False by (metis linorder_neqE_linordered_idom)
    then have ne: "versions \<noteq> []" and big: "n < Max (fst ` set versions)"
      by (auto intro: less_le_trans Max_ge)
    then have "Max (insert n (fst ` set versions)) = Max (fst ` set versions)"
      by (subst Max_insert) auto
    then show ?thesis
      using False larger rec get big hk highest_key_Max [OF ne] by (auto simp: loadCurrent_def)
  qed
qed

theorem gate_store_current_witness:
  "\<exists>versions'. recordVersion sample_platform [] (3, sample_event ''k1'' 1) = Inr (versions', Version_recorded) \<and>
    loadCurrent sample_platform versions' = Inr (Some (3, norm_js (sample_event ''k1'' 1)))"
  using gate_store_current [OF rows_ok_Nil sample_event_storable(1), of 3] by simp

end
