(* ===== verification/Artifact_Store.thy ===== *)
theory Artifact_Store
  imports Append_Only_Log
begin

text \<open>
  The artifact store (\<^verbatim>\<open>packages/evidence-store/src/memory/artifact-store.ts\<close>), the
  envelope encryption of source-derived bytes (\<^verbatim>\<open>envelope-encryption.ts\<close>) and the two records
  of a deletion (\<^verbatim>\<open>deletion-evidence-append.ts\<close>). AES-256-GCM and the random nonce are
  parameters; the lifecycle log is used through its contract \<open>event_log\<close>.
\<close>

section \<open>Envelopes\<close>

record gcm =
  gcm_seal :: "bytes \<Rightarrow> bytes \<Rightarrow> bytes \<Rightarrow> bytes \<times> bytes"
  gcm_open :: "bytes \<Rightarrow> bytes \<Rightarrow> bytes \<Rightarrow> bytes \<Rightarrow> bytes option"

text \<open>Documented behaviour of AES-256-GCM: a tag is 16 bytes, and opening with the key, nonce and tag
  of the sealing gives the plaintext.\<close>

definition gcm_correct :: "gcm \<Rightarrow> bool" where
  "gcm_correct G \<longleftrightarrow> (\<forall>k n m. length k = 32 \<longrightarrow> length n = 12 \<longrightarrow>
     length (snd (gcm_seal G k n m)) = 16 \<and>
     gcm_open G k n (fst (gcm_seal G k n m)) (snd (gcm_seal G k n m)) = Some m)"

definition isSourceDerivedClass :: "ustr \<Rightarrow> bool" where
  "isSourceDerivedClass c \<longleftrightarrow> c = lit ''transient_source_derived'' \<or> c = lit ''customer_opt_in_retained_source''"

definition MAGIC :: bytes where "MAGIC = [67, 65, 69, 49]"
definition NONCE_LENGTH :: nat where "NONCE_LENGTH = 12"
definition TAG_LENGTH :: nat where "TAG_LENGTH = 16"

record envelopeKey =
  keyId :: ustr
  env_key :: bytes

datatype envelope_error = BadKeyLength | BadKeyId

definition isEnvelope :: "bytes \<Rightarrow> bool" where
  "isEnvelope bs \<longleftrightarrow> length bs \<ge> length MAGIC \<and> take (length MAGIC) bs = MAGIC"

definition wrapEnvelope :: "gcm \<Rightarrow> bytes \<Rightarrow> bytes \<Rightarrow> envelopeKey \<Rightarrow> envelope_error + bytes" where
  "wrapEnvelope G nonce plaintext env =
     (if length (env_key env) \<noteq> 32 then Inl BadKeyLength
      else (let kid = utf8 (keyId env) in
        if length kid < 1 \<or> length kid > 64 then Inl BadKeyId
        else (let (ciphertext, tag) = gcm_seal G (env_key env) nonce plaintext in
          Inr (MAGIC @ [length kid] @ kid @ nonce @ ciphertext @ tag))))"

datatype unwrap_reason = Not_envelope | Wrong_key

definition unwrapEnvelope :: "gcm \<Rightarrow> bytes \<Rightarrow> envelopeKey \<Rightarrow> unwrap_reason + bytes" where
  "unwrapEnvelope G bs env =
     (if \<not> isEnvelope bs then Inl Not_envelope
      else if length (env_key env) \<noteq> 32 then Inl Wrong_key
      else (case drop (length MAGIC) bs of
          [] \<Rightarrow> Inl Wrong_key
        | keyIdLength # _ \<Rightarrow>
            if keyIdLength < 1 \<or> keyIdLength > 64 then Inl Wrong_key
            else (let keyIdStart = length MAGIC + 1;
                      keyIdEnd = keyIdStart + keyIdLength;
                      nonceEnd = keyIdEnd + NONCE_LENGTH;
                      tagStart = int (length bs) - int TAG_LENGTH
                  in if tagStart < int nonceEnd then Inl Wrong_key
                     else if utf8_decode (slice keyIdStart keyIdEnd bs) \<noteq> keyId env then Inl Wrong_key
                     else (case gcm_open G (env_key env) (slice keyIdEnd nonceEnd bs)
                             (slice nonceEnd (nat tagStart) bs) (slice_from (nat tagStart) bs) of
                         None \<Rightarrow> Inl Wrong_key
                       | Some plaintext \<Rightarrow> Inr plaintext))))"

section \<open>Deletion evidence\<close>

record deletionEvidence =
  de_protocol_version :: ustr
  deletion_evidence_id :: ustr
  deleted_artifact_digests :: "ustr list"
  deletion_method :: ustr
  deletion_timestamp :: ustr
  de_actor :: jsval
  verification_status :: ustr
  supersedes_ref :: "ustr option"

definition unverifiedDeletionAttempt :: "deletionEvidence \<Rightarrow> deletionEvidence" where
  "unverifiedDeletionAttempt e =
     \<lparr>de_protocol_version = de_protocol_version e, deletion_evidence_id = deletion_evidence_id e,
      deleted_artifact_digests = deleted_artifact_digests e, deletion_method = deletion_method e,
      deletion_timestamp = deletion_timestamp e, de_actor = de_actor e,
      verification_status = lit ''unverified'', supersedes_ref = None\<rparr>"

definition verifiedDeletionRecord :: "deletionEvidence \<Rightarrow> deletionEvidence" where
  "verifiedDeletionRecord e =
     (let attemptId = deletion_evidence_id e;
          local = (if starts_with (lit ''deletion_evidence:'') attemptId
                   then slice_from (length (lit ''deletion_evidence:'')) attemptId else attemptId);
          verifiedLocal = (if ends_with (lit ''_verified'') local then local else local @ lit ''_verified'')
      in e\<lparr>deletion_evidence_id := lit ''deletion_evidence:'' @ verifiedLocal,
           verification_status := lit ''verified'', supersedes_ref := Some attemptId\<rparr>)"

section \<open>The store\<close>

record artifact_state =
  objects :: "(ustr, bytes) jmap"
  deletionEvidence_rows :: "(ustr, deletionEvidence) jmap"

datatype putOutcome = Stored | Put_already_present | Encryption_unavailable

definition artifact_put ::
  "gcm \<Rightarrow> envelopeKey option \<Rightarrow> bytes \<Rightarrow> artifact_state \<Rightarrow> ustr \<Rightarrow> bytes \<Rightarrow> jsval \<Rightarrow>
   envelope_error + artifact_state \<times> putOutcome" where
  "artifact_put G envelope nonce st dg bs classification =
     (if jm_has (objects st) dg then Inr (st, Put_already_present)
      else if isSourceDerivedClass (the_str (field classification ''source_derived_class'')) then
        (case envelope of
           None \<Rightarrow> Inr (st, Encryption_unavailable)
         | Some env \<Rightarrow> sbind (wrapEnvelope G nonce bs env) (\<lambda>w.
             Inr (st\<lparr>objects := jm_set (objects st) dg w\<rparr>, Stored)))
      else Inr (st\<lparr>objects := jm_set (objects st) dg bs\<rparr>, Stored))"

datatype artifactGetResult = Read bytes | Not_found | Access_not_logged | Decryption_failed

definition event_review_id :: "jsval \<Rightarrow> ustr" where
  "event_review_id e = the_str (field e ''review_id'')"

definition artifact_get ::
  "gcm \<Rightarrow> envelopeKey option \<Rightarrow> ('l \<Rightarrow> ustr \<Rightarrow> jsval \<Rightarrow> 't + 'l \<times> jsval appendOutcome) \<Rightarrow>
   'l \<Rightarrow> artifact_state \<Rightarrow> jsval \<Rightarrow> ustr \<Rightarrow> 't + 'l \<times> artifactGetResult" where
  "artifact_get G envelope append_event log st access_event dg =
     (case jm_get (objects st) dg of
        None \<Rightarrow> Inr (log, Not_found)
      | Some bs \<Rightarrow>
          sbind (append_event log (event_review_id access_event) access_event) (\<lambda>(log', appended).
          (case appended of
             Rejected _ \<Rightarrow> Inr (log', Access_not_logged)
           | _ \<Rightarrow>
               if isEnvelope bs then
                 (case envelope of
                    None \<Rightarrow> Inr (log', Decryption_failed)
                  | Some env \<Rightarrow> (case unwrapEnvelope G bs env of
                        Inl _ \<Rightarrow> Inr (log', Decryption_failed)
                      | Inr plaintext \<Rightarrow> Inr (log', Read plaintext)))
               else Inr (log', Read bs))))"

datatype deletionOutcome = Deleted deletionEvidence | Not_verified deletionEvidence

definition artifact_delete ::
  "artifact_state \<Rightarrow> ustr \<Rightarrow> deletionEvidence \<Rightarrow> artifact_state \<times> deletionOutcome" where
  "artifact_delete st dg evidence =
     (let attempt = unverifiedDeletionAttempt evidence;
          st1 = st\<lparr>deletionEvidence_rows :=
            jm_set (deletionEvidence_rows st) (deletion_evidence_id attempt) attempt\<rparr>;
          st2 = st1\<lparr>objects := jm_delete (objects st1) dg\<rparr>
      in if jm_has (objects st2) dg then (st2, Not_verified attempt)
         else (let verified = verifiedDeletionRecord attempt in
           (st2\<lparr>deletionEvidence_rows :=
              jm_set (deletionEvidence_rows st2) (deletion_evidence_id verified) verified\<rparr>,
            Deleted verified)))"

definition findDeletionEvidence :: "artifact_state \<Rightarrow> ustr \<Rightarrow> deletionEvidence option" where
  "findDeletionEvidence st i = jm_get (deletionEvidence_rows st) i"

section \<open>Envelopes open again\<close>

lemma wrap_is_envelope: "wrapEnvelope G nonce m env = Inr w \<Longrightarrow> isEnvelope w"
  by (auto simp: wrapEnvelope_def isEnvelope_def Let_def split: if_splits prod.splits)

lemma unwrap_wrap:
  assumes "gcm_correct G" "length nonce = 12" "clean_text (keyId env)" "wrapEnvelope G nonce m env = Inr w"
  shows "unwrapEnvelope G w env = Inr m"
proof -
  obtain ct tag where s: "gcm_seal G (env_key env) nonce m = (ct, tag)"
    by (cases "gcm_seal G (env_key env) nonce m")
  define kid where "kid = utf8 (keyId env)"
  have k: "length (env_key env) = 32" "1 \<le> length kid" "length kid \<le> 64"
    and w: "w = MAGIC @ [length kid] @ kid @ nonce @ ct @ tag"
    using assms(4) s by (auto simp: wrapEnvelope_def Let_def kid_def Suc_le_eq split: if_splits)
  have tag: "length tag = 16" and opn: "gcm_open G (env_key env) nonce ct tag = Some m"
    using assms(1,2) k(1) s unfolding gcm_correct_def by (metis fst_conv snd_conv)+
  have dec: "utf8_decode kid = keyId env"
    using assms(3) utf8_decode_utf8 by (simp add: kid_def clean_text_def)
  have M: "length MAGIC = 4" by (simp add: MAGIC_def)
  define pre where "pre = MAGIC @ [length kid] @ kid @ nonce"
  have pre: "17 + length kid = length pre" "w = pre @ ct @ tag"
    using assms(2) by (simp_all add: pre_def w M)
  have parts: "slice 5 (5 + length kid) w = kid" "slice (5 + length kid) (17 + length kid) w = nonce"
    using assms(2) by (simp_all add: w slice_def M)
  have parts': "slice (17 + length kid) (length w - 16) w = ct" "slice_from (length w - 16) w = tag"
    unfolding pre using tag by (simp_all add: slice_def slice_from_def)
  have "drop 4 w = length kid # kid @ nonce @ ct @ tag" by (simp add: w M)
  moreover have "nat (int (length w) - 16) = length w - 16" by linarith
  moreover have "\<not> int (length w) - 16 < int (17 + length kid)"
    using assms(2) tag by (simp add: w M)
  ultimately show ?thesis
    using wrap_is_envelope [OF assms(4)] k parts parts' dec opn
    by (simp add: unwrapEnvelope_def M NONCE_LENGTH_def TAG_LENGTH_def Let_def add.commute add.assoc
        Suc_le_eq)
qed

section \<open>Reads through the log contract\<close>

context event_log
begin

lemma logged_append:
  assumes "inv s" "valid e" "append s r e = Inr (s', out)" "\<forall>reason. out \<noteq> Rejected reason"
  shows "inv s' \<and> (\<exists>x \<in> set (load s' r). key x = key e)"
proof (cases out)
  case (Appended x)
  then show ?thesis
    using append_appended [OF assms(1,2), of r s' x] append_inv [OF assms(1-3)] assms(3)
    by (simp add: norm_key [OF assms(2)])
next
  case (Idempotent_noop x)
  then have "s' = s" using append_unchanged [OF assms(1,3)] by simp
  then show ?thesis
    using append_noop [OF assms(1,2)] Idempotent_noop append_inv [OF assms(1-3)] assms(3) by auto
qed (use assms in auto)

end

lemma artifact_get_Read:
  assumes "artifact_get G envelope app log st e dg = Inr (log', Read bs)"
  obtains out raw where "jm_get (objects st) dg = Some raw"
    "app log (event_review_id e) e = Inr (log', out)" "\<forall>reason. out \<noteq> Rejected reason"
    "if isEnvelope raw then \<exists>env. envelope = Some env \<and> unwrapEnvelope G raw env = Inr bs else bs = raw"
proof -
  obtain raw where raw: "jm_get (objects st) dg = Some raw"
    using assms by (auto simp: artifact_get_def split: option.splits)
  then obtain log1 out where ap: "app log (event_review_id e) e = Inr (log1, out)"
    using assms by (auto simp: artifact_get_def)
  have "log1 = log'" "\<forall>reason. out \<noteq> Rejected reason"
    "if isEnvelope raw then \<exists>env. envelope = Some env \<and> unwrapEnvelope G raw env = Inr bs else bs = raw"
    using assms raw ap
    by (cases out; auto simp: artifact_get_def split: if_splits option.splits sum.splits)+
  then show thesis using that raw ap by blast
qed

lemma artifact_get_logged:
  assumes "jm_get (objects st) dg = Some raw" "app log (event_review_id e) e = Inr (log', out)"
    "\<forall>reason. out \<noteq> Rejected reason"
  shows "artifact_get G envelope app log st e dg =
    (if isEnvelope raw then
       (case envelope of None \<Rightarrow> Inr (log', Decryption_failed)
        | Some env \<Rightarrow> (case unwrapEnvelope G raw env of
            Inl _ \<Rightarrow> Inr (log', Decryption_failed) | Inr m \<Rightarrow> Inr (log', Read m)))
     else Inr (log', Read raw))"
  using assms by (cases out) (auto simp: artifact_get_def)

section \<open>Properties\<close>

text \<open>An envelope opens to the bytes that were wrapped, with the key it was wrapped with.\<close>

theorem envelope_round_trip:
  assumes "gcm_correct G" and "length nonce = NONCE_LENGTH" and "clean_text (keyId env)"
    and "wrapEnvelope G nonce m env = Inr w"
  shows "isEnvelope w \<and> unwrapEnvelope G w env = Inr m"
  using assms wrap_is_envelope unwrap_wrap by (auto simp: NONCE_LENGTH_def)

definition sample_gcm :: gcm where
  "sample_gcm = \<lparr>gcm_seal = (\<lambda>k n m. (m, replicate 16 0)), gcm_open = (\<lambda>k n c t. Some c)\<rparr>"

definition sample_env :: envelopeKey where
  "sample_env = \<lparr>keyId = lit ''k1'', env_key = replicate 32 7\<rparr>"

lemma sample_env_facts:
  "gcm_correct sample_gcm" "length (replicate 12 (1 :: nat)) = NONCE_LENGTH" "clean_text (keyId sample_env)"
  "wrapEnvelope sample_gcm (replicate 12 1) [1, 2] sample_env =
     Inr (MAGIC @ [2] @ lit ''k1'' @ replicate 12 1 @ [1, 2] @ replicate 16 0)"
  subgoal by (simp add: gcm_correct_def sample_gcm_def)
  subgoal by (simp add: NONCE_LENGTH_def)
  subgoal by (rule clean_ascii) (simp add: sample_env_def lit_def)
  subgoal by (simp add: wrapEnvelope_def sample_env_def sample_gcm_def lit_def)
  done

theorem envelope_round_trip_witness:
  "isEnvelope (MAGIC @ [2] @ lit ''k1'' @ replicate 12 1 @ [1, 2] @ replicate 16 0) \<and>
   unwrapEnvelope sample_gcm (MAGIC @ [2] @ lit ''k1'' @ replicate 12 1 @ [1, 2] @ replicate 16 0)
     sample_env = Inr [1, 2]"
  by (rule envelope_round_trip [OF sample_env_facts])

text \<open>C10: bytes leave the store only together with a logged access: after a successful read the
  lifecycle log of the review holds the event of the access decision itself, unless an event already
  logged under its idempotency key has a canonical text that collides with its own under SHA-256, and
  nothing that was in any log before is gone.\<close>

theorem artifact_read_is_logged:
  assumes "log_inv P log" and "storable P e" and "sha256_digests P"
    and "artifact_get G envelope (log_append P) log st e dg = Inr (log', Read bs)"
  shows "(norm_js e \<in> set (log_events P log' (event_review_id e)) \<or>
     (\<exists>x \<in> set (log_events P log (event_review_id e)). event_key x = event_key e \<and> body_collision P x e)) \<and>
    (\<forall>r. \<exists>new. log_events P log' r = log_events P log r @ new)"
proof -
  obtain out where ap: "log_append P log (event_review_id e) e = Inr (log', out)"
    "\<forall>reason. out \<noteq> Rejected reason"
    using assms(4) by (rule artifact_get_Read)
  obtain x where x: "x \<in> set (log_events P log' (event_review_id e))" "event_key x = event_key e"
    and i: "log_inv P log'"
    using memory_log.logged_append [OF assms(1,2) ap] by blast
  have "norm_js e \<in> set (log_events P log' (event_review_id e)) \<or>
    (\<exists>x \<in> set (log_events P log (event_review_id e)). event_key x = event_key e \<and> body_collision P x e)"
  proof (cases out)
    case (Appended y)
    then show ?thesis using memory_log.append_appended [OF assms(1,2)] ap(1) by auto
  next
    case (Idempotent_noop y)
    then have l: "log' = log" using memory_log.append_unchanged [OF assms(1) ap(1)] by simp
    then show ?thesis
      using log_key_conflict [OF assms(1-3), of x] x ap Idempotent_noop by (cases "x = norm_js e") auto
  qed (use ap in auto)
  moreover have "\<exists>new. log_events P log' r = log_events P log r @ new" for r
    using memory_log.append_extends [OF assms(1,2) ap(1), of r] by auto
  ultimately show ?thesis by blast
qed

definition sample_access :: jsval where
  "sample_access = JObj [(lit ''sequence_number'', jint 1), (lit ''idempotency_key'', jstr ''k''),
     (lit ''review_id'', jstr ''r'')]"

lemma sample_access_storable: "storable sample_platform sample_access"
proof -
  have "json_data sample_platform sample_access"
    "canonicalizeProtocolJson sample_platform sample_access =
      Inr (lit ''{\"idempotency_key\":\"k\",\"review_id\":\"r\",\"sequence_number\":1}'')"
    by code_simp+
  then show ?thesis by (simp add: storable_def)
qed

definition sample_artifacts :: artifact_state where
  "sample_artifacts = \<lparr>objects = [(lit ''d'', [1, 2, 3])], deletionEvidence_rows = []\<rparr>"

lemma sample_read:
  obtains log' where
    "artifact_get sample_gcm None (log_append sample_platform) [] sample_artifacts sample_access (lit ''d'') =
      Inr (log', Read [1, 2, 3])"
proof -
  obtain log' x where "log_append sample_platform [] (event_review_id sample_access) sample_access =
      Inr (log', Appended x)"
    using log_append_first [OF sample_access_storable] by blast
  then have "artifact_get sample_gcm None (log_append sample_platform) [] sample_artifacts sample_access (lit ''d'') =
      Inr (log', Read [1, 2, 3])"
    by (subst artifact_get_logged) (auto simp: sample_artifacts_def isEnvelope_def MAGIC_def)
  then show thesis using that by blast
qed

theorem artifact_read_is_logged_witness:
  "\<exists>log'. artifact_get sample_gcm None (log_append sample_platform) [] sample_artifacts sample_access (lit ''d'') =
      Inr (log', Read [1, 2, 3]) \<and>
    norm_js sample_access \<in> set (log_events sample_platform log' (event_review_id sample_access))"
proof (rule sample_read)
  fix log'
  assume "artifact_get sample_gcm None (log_append sample_platform) [] sample_artifacts sample_access (lit ''d'') =
      Inr (log', Read [1, 2, 3])"
  with artifact_read_is_logged [OF log_inv_Nil sample_access_storable sample_platform_digests this]
  show ?thesis by (auto simp: log_events_def loadLog_def log_entries_def)
qed

text \<open>C27: source-derived bytes are encrypted at rest and come back on a logged read: what is stored is an
  envelope, and a read whose access is logged returns exactly the bytes that were put; without a
  configured key nothing is stored.\<close>

theorem source_derived_round_trip:
  assumes "gcm_correct G" and "length nonce = NONCE_LENGTH" and "clean_text (keyId env)"
    and "isSourceDerivedClass (the_str (field classification ''source_derived_class''))"
    and "jm_get (objects st) dg = None"
    and "artifact_put G (Some env) nonce st dg bs classification = Inr (st', Stored)"
    and "app log (event_review_id e) e = Inr (log', out)" and "\<forall>reason. out \<noteq> Rejected reason"
  shows "artifact_get G (Some env) app log st' e dg = Inr (log', Read bs) \<and>
    (\<exists>w. jm_get (objects st') dg = Some w \<and> isEnvelope w) \<and>
    artifact_put G None nonce st dg bs classification = Inr (st, Encryption_unavailable)"
proof -
  obtain w where w: "wrapEnvelope G nonce bs env = Inr w" "jm_get (objects st') dg = Some w"
    using assms(4,5,6) by (auto simp: artifact_put_def jm_has_def)
  have "isEnvelope w" "unwrapEnvelope G w env = Inr bs"
    using wrap_is_envelope [OF w(1)] unwrap_wrap [OF assms(1) _ assms(3) w(1)] assms(2)
    by (simp_all add: NONCE_LENGTH_def)
  then show ?thesis
    using w assms(4,5) artifact_get_logged [where app = app, OF w(2) assms(7,8)]
    by (simp add: artifact_put_def jm_has_def)
qed

definition sample_classification :: jsval where
  "sample_classification = JObj [(lit ''source_derived_class'', jstr ''transient_source_derived'')]"

theorem source_derived_round_trip_witness:
  "\<exists>st'. artifact_get sample_gcm (Some sample_env) (\<lambda>l r e. Inr (l, Appended e)) () st' sample_access (lit ''x'') =
      (Inr ((), Read [1, 2]) :: unit + unit \<times> artifactGetResult) \<and>
    (\<exists>w. jm_get (objects st') (lit ''x'') = Some w \<and> isEnvelope w) \<and>
    artifact_put sample_gcm None (replicate 12 1) sample_artifacts (lit ''x'') [1, 2] sample_classification =
      Inr (sample_artifacts, Encryption_unavailable)"
proof -
  have sd: "isSourceDerivedClass (the_str (field sample_classification ''source_derived_class''))"
    by (simp add: isSourceDerivedClass_def sample_classification_def)
  have none: "jm_get (objects sample_artifacts) (lit ''x'') = None"
    by (simp add: sample_artifacts_def)
  then obtain st' where "artifact_put sample_gcm (Some sample_env) (replicate 12 1) sample_artifacts (lit ''x'') [1, 2]
      sample_classification = Inr (st', Stored)"
    using sd sample_env_facts(4) by (simp add: artifact_put_def jm_has_def)
  from source_derived_round_trip [OF sample_env_facts(1,2,3) sd none this,
      of "\<lambda>l r e. Inr (l, Appended e)" "()" sample_access "()" "Appended sample_access"]
  show ?thesis by auto
qed

text \<open>Bytes of another class that happen to begin with the envelope magic are stored as they are
  but can never be read back: every logged read of them takes them for an envelope, and without a
  key, or unless they open as one, answers \<open>decryption_failed\<close>.\<close>

theorem plain_magic_bytes_unreadable:
  assumes "\<not> isSourceDerivedClass (the_str (field classification ''source_derived_class''))"
    and "jm_get (objects st) dg = None"
    and "app log (event_review_id e) e = Inr (log', out)" and "\<forall>reason. out \<noteq> Rejected reason"
  shows "\<exists>st'. artifact_put G envelope nonce st dg (MAGIC @ rest) classification = Inr (st', Stored) \<and>
    artifact_get G None app log st' e dg = Inr (log', Decryption_failed) \<and>
    (length rest < 30 \<longrightarrow> artifact_get G envelope app log st' e dg = Inr (log', Decryption_failed))"
proof -
  define st' where "st' = st\<lparr>objects := jm_set (objects st) dg (MAGIC @ rest)\<rparr>"
  have put: "artifact_put G envelope nonce st dg (MAGIC @ rest) classification = Inr (st', Stored)"
    using assms(1,2) by (simp add: artifact_put_def jm_has_def st'_def)
  have raw: "jm_get (objects st') dg = Some (MAGIC @ rest)" by (simp add: st'_def)
  have env: "isEnvelope (MAGIC @ rest)" by (simp add: isEnvelope_def)
  have "\<exists>r. unwrapEnvelope G (MAGIC @ rest) ek = Inl r" if "length rest < 30" for ek
    using that env
    by (auto simp: unwrapEnvelope_def MAGIC_def Let_def NONCE_LENGTH_def TAG_LENGTH_def split: list.split)
  then show ?thesis
    using put env artifact_get_logged [where app = app, OF raw assms(3,4)]
    by (auto split: option.split sum.split) (metis sum.distinct(1))
qed

theorem plain_magic_bytes_unreadable_witness:
  "\<exists>st'. artifact_put sample_gcm (Some sample_env) (replicate 12 1) sample_artifacts (lit ''x'') (MAGIC @ [9])
      (JObj [(lit ''source_derived_class'', jstr ''aggregate'')]) = Inr (st', Stored) \<and>
    artifact_get sample_gcm None (\<lambda>l r e. Inr (l, Appended e)) () st' sample_access (lit ''x'') =
      (Inr ((), Decryption_failed) :: unit + unit \<times> artifactGetResult) \<and>
    (length [9 :: nat] < 30 \<longrightarrow>
     artifact_get sample_gcm (Some sample_env) (\<lambda>l r e. Inr (l, Appended e)) () st' sample_access (lit ''x'') =
      (Inr ((), Decryption_failed) :: unit + unit \<times> artifactGetResult))"
  by (rule plain_magic_bytes_unreadable [where out = "Appended sample_access"])
    (simp_all add: isSourceDerivedClass_def sample_artifacts_def)

text \<open>After a deletion the object is gone, the unverified attempt is on record and superseded by a
  separate verified record that names it, unless the attempt's own identity already carries the
  verified suffix.\<close>

theorem artifact_delete_leaves_evidence:
  assumes "artifact_delete st dg ev = (st', out)" and "deletion_evidence_id ev = lit ''deletion_evidence:'' @ i"
    and "\<not> ends_with (lit ''_verified'') i"
  shows "jm_get (objects st') dg = None \<and>
    findDeletionEvidence st' (deletion_evidence_id ev) = Some (unverifiedDeletionAttempt ev) \<and>
    (\<exists>v. out = Deleted v \<and> findDeletionEvidence st' (deletion_evidence_id ev @ lit ''_verified'') = Some v \<and>
       verification_status v = lit ''verified'' \<and> supersedes_ref v = Some (deletion_evidence_id ev) \<and>
       deleted_artifact_digests v = deleted_artifact_digests ev)"
proof -
  have ver: "deletion_evidence_id (verifiedDeletionRecord (unverifiedDeletionAttempt ev)) =
      deletion_evidence_id ev @ lit ''_verified''"
    using assms(2,3) by (simp add: verifiedDeletionRecord_def unverifiedDeletionAttempt_def Let_def slice_from_def)
  have st': "st' = st\<lparr>deletionEvidence_rows := jm_set (jm_set (deletionEvidence_rows st) (deletion_evidence_id ev)
        (unverifiedDeletionAttempt ev)) (deletion_evidence_id ev @ lit ''_verified'')
        (verifiedDeletionRecord (unverifiedDeletionAttempt ev)), objects := jm_delete (objects st) dg\<rparr>"
    "out = Deleted (verifiedDeletionRecord (unverifiedDeletionAttempt ev))"
    using assms(1) ver
    by (auto simp: artifact_delete_def Let_def jm_has_def unverifiedDeletionAttempt_def [of ev])
  show ?thesis
    by (simp add: st' findDeletionEvidence_def verifiedDeletionRecord_def unverifiedDeletionAttempt_def Let_def)
qed

definition sample_deletion :: deletionEvidence where
  "sample_deletion = \<lparr>de_protocol_version = lit ''codeattest.v0'', deletion_evidence_id = lit ''deletion_evidence:abc'',
     deleted_artifact_digests = [lit ''d''], deletion_method = lit ''secure_delete'', deletion_timestamp = lit ''t'',
     de_actor = JNull, verification_status = lit ''unverified'', supersedes_ref = None\<rparr>"

theorem artifact_delete_leaves_evidence_witness:
  "jm_get (objects (fst (artifact_delete sample_artifacts (lit ''d'') sample_deletion))) (lit ''d'') = None"
proof -
  have "artifact_delete sample_artifacts (lit ''d'') sample_deletion =
      (fst (artifact_delete sample_artifacts (lit ''d'') sample_deletion),
       snd (artifact_delete sample_artifacts (lit ''d'') sample_deletion))" by simp
  from artifact_delete_leaves_evidence [OF this, of "lit ''abc''"] show ?thesis
    by (simp add: sample_deletion_def lit_append [symmetric] ends_with_def)
qed

end
