(* ===== verification/Retention_Expiry.thy ===== *)
theory Retention_Expiry
  imports Evidence_Stores Artifact_Store
begin

text \<open>
  Expiry of retained source (\<^verbatim>\<open>packages/evidence-store/src/retention-expiry.ts\<close>): the catch-up
  that queues a purge for every record whose period has ended, the drain of the queue, and the
  operator's deletion. The stores and the queue are the in-memory ones; the artifact store's delete
  is a parameter of the drain (it may throw), instantiated with the in-memory one in the properties.
  The drain's \<^verbatim>\<open>for (;;)\<close> takes fuel: \<open>None\<close> is a drain that has not returned.
\<close>

section \<open>Definitions\<close>

definition RETENTION_EXPIRY_JOB_TYPE :: ustr where
  "RETENTION_EXPIRY_JOB_TYPE = lit ''retention_expiry''"

datatype policy_result = Policy_ok | Missing_policy

definition retentionPolicyForClassification :: "jsval \<Rightarrow> jsval option \<Rightarrow> policy_result" where
  "retentionPolicyForClassification classification record_opt =
     (if field classification ''source_derived_class'' = jstr ''customer_opt_in_retained_source''
         \<and> record_opt = None then Missing_policy else Policy_ok)"

definition expiryDeletionEvidenceId :: "ustr \<Rightarrow> ustr" where
  "expiryDeletionEvidenceId dg = lit ''deletion_evidence:exp_'' @ slice 7 (7 + 24) dg"

definition retained_artifact_refs :: "jsval \<Rightarrow> ustr list" where
  "retained_artifact_refs r = map the_str (the_array (field r ''retained_artifact_refs''))"

definition sha256_refs :: "ustr list \<Rightarrow> ustr list" where
  "sha256_refs refs = filter (starts_with (lit ''sha256:'')) refs"

text \<open>\<open>JSON.stringify\<close> of the payload object, members in the order they are written.\<close>

definition expiry_payload :: "ustr \<Rightarrow> ustr \<Rightarrow> ustr list \<Rightarrow> ustr" where
  "expiry_payload rid end_ts digests =
     [123] @ json_quote (lit ''retention_record_id'') @ [58] @ json_quote rid @ [44]
     @ json_quote (lit ''end_timestamp'') @ [58] @ json_quote end_ts @ [44]
     @ json_quote (lit ''artifact_digests'') @ [58, 91] @ join_with [44] (map json_quote digests) @ [93, 125]"

text \<open>\<open>evidence_of\<close> is \<open>artifacts.findDeletionEvidence\<close>, when the caller passes an artifact store. A record
  is skipped when every digest it names has verified expiry evidence.\<close>

definition purge_verified :: "(ustr \<Rightarrow> deletionEvidence option) option \<Rightarrow> jsval \<Rightarrow> bool" where
  "purge_verified evidence_of r =
     (case evidence_of of
        None \<Rightarrow> False
      | Some f \<Rightarrow> list_all (\<lambda>dg. case f (expiryDeletionEvidenceId dg @ lit ''_verified'') of
            None \<Rightarrow> False | Some e \<Rightarrow> verification_status e = lit ''verified'') (sha256_refs (retained_artifact_refs r)))"

fun catch_up_loop ::
  "(ustr \<Rightarrow> deletionEvidence option) option \<Rightarrow> jsval list \<Rightarrow> job_state \<Rightarrow> nat \<Rightarrow> nat \<Rightarrow>
   job_state \<times> nat \<times> nat" where
  "catch_up_loop evidence_of [] jobs enqueued alreadyPurged = (jobs, enqueued, alreadyPurged)"
| "catch_up_loop evidence_of (r # due) jobs enqueued alreadyPurged =
     (let digests = sha256_refs (retained_artifact_refs r) in
      if purge_verified evidence_of r then catch_up_loop evidence_of due jobs enqueued (alreadyPurged + 1)
      else
        (case enqueue jobs (retention_record_id r) RETENTION_EXPIRY_JOB_TYPE
                (expiry_payload (retention_record_id r) (end_timestamp_of r) digests) of
           (jobs', Enqueued) \<Rightarrow> catch_up_loop evidence_of due jobs' (enqueued + 1) alreadyPurged
         | (jobs', Enqueue_already_present) \<Rightarrow> catch_up_loop evidence_of due jobs' enqueued alreadyPurged))"

definition catchUpRetentionExpiry ::
  "platform \<Rightarrow> (ustr \<Rightarrow> deletionEvidence option) option \<Rightarrow> row_store \<Rightarrow> ustr \<Rightarrow> job_state \<Rightarrow>
   thrown + job_state \<times> nat \<times> nat" where
  "catchUpRetentionExpiry P evidence_of rows now jobs =
     sbind (listDue P rows now) (\<lambda>due. Inr (catch_up_loop evidence_of due jobs 0 0))"

definition expiry_evidence :: "ustr \<Rightarrow> jsval \<Rightarrow> ustr \<Rightarrow> deletionEvidence" where
  "expiry_evidence now actor dg =
     \<lparr>de_protocol_version = lit ''codeattest.v0'', deletion_evidence_id = expiryDeletionEvidenceId dg,
      deleted_artifact_digests = [dg], deletion_method = lit ''expiry_purge'', deletion_timestamp = now,
      de_actor = actor, verification_status = lit ''unverified'', supersedes_ref = None\<rparr>"

text \<open>The delete of the port returns its new state and whether it returned (or threw).\<close>

fun delete_all ::
  "('a \<Rightarrow> ustr \<Rightarrow> deletionEvidence \<Rightarrow> 'a \<times> bool) \<Rightarrow> ustr \<Rightarrow> jsval \<Rightarrow> 'a \<Rightarrow> ustr list \<Rightarrow> 'a \<times> bool" where
  "delete_all del now actor arts [] = (arts, True)"
| "delete_all del now actor arts (dg # dgs) =
     (case del arts dg (expiry_evidence now actor dg) of
        (arts', False) \<Rightarrow> (arts', False)
      | (arts', True) \<Rightarrow> delete_all del now actor arts' dgs)"

datatype drain_error = Drain_thrown thrown | Drain_type_error

record drain_result =
  processed :: nat
  refused :: "ustr list"
  failed :: "ustr list"

text \<open>The digests of a payload: \<open>None\<close> when the filter's callback throws on an element that is no
  string.\<close>

definition payload_digests :: "jsval \<Rightarrow> ustr list option" where
  "payload_digests pl =
     (case field pl ''artifact_digests'' of
        JArr ds \<Rightarrow> if list_all is_string ds then Some (sha256_refs (map the_str ds)) else None
      | _ \<Rightarrow> Some [])"

fun process_loop ::
  "platform \<Rightarrow> ('a \<Rightarrow> ustr \<Rightarrow> deletionEvidence \<Rightarrow> 'a \<times> bool) \<Rightarrow> row_store \<Rightarrow> ustr \<Rightarrow> jsval \<Rightarrow> nat \<Rightarrow>
   job_state \<Rightarrow> 'a \<Rightarrow> drain_result \<Rightarrow> (drain_error + job_state \<times> 'a \<times> drain_result) option" where
  "process_loop P del rows now actor 0 jobs arts acc = None"
| "process_loop P del rows now actor (Suc n) jobs arts acc =
     (case claim jobs RETENTION_EXPIRY_JOB_TYPE of
        (jobs1, None) \<Rightarrow> Some (Inr (jobs1, arts, acc))
      | (jobs1, Some job) \<Rightarrow>
          (case json_parse P (payload job) of
             None \<Rightarrow> Some (Inl (Drain_thrown SyntaxThrow))
           | Some pl \<Rightarrow>
               if pl = JNull then Some (Inl Drain_type_error)
               else if \<not> is_string (field pl ''end_timestamp'') \<or> \<not> is_string (field pl ''retention_record_id'') then
                 process_loop P del rows now actor n (complete jobs1 (job_id job)) arts
                   (acc\<lparr>refused := refused acc @ [lit ''missing_policy'']\<rparr>)
               else if the_str (field pl ''end_timestamp'') > now then
                 process_loop P del rows now actor n (fail_job jobs1 (job_id job)) arts acc
               else
                 (case retention_find P rows (the_str (field pl ''retention_record_id'')) of
                    Inl t \<Rightarrow> Some (Inl (Drain_thrown t))
                  | Inr None \<Rightarrow>
                      process_loop P del rows now actor n (complete jobs1 (job_id job)) arts
                        (acc\<lparr>refused := refused acc @ [lit ''missing_policy'']\<rparr>)
                  | Inr (Some _) \<Rightarrow>
                      (case payload_digests pl of
                         None \<Rightarrow> Some (Inl Drain_type_error)
                       | Some digests \<Rightarrow>
                           (case delete_all del now actor arts digests of
                              (arts', True) \<Rightarrow>
                                process_loop P del rows now actor n (complete jobs1 (job_id job)) arts'
                                  (acc\<lparr>processed := processed acc + 1\<rparr>)
                            | (arts', False) \<Rightarrow>
                                Some (Inr (fail_job jobs1 (job_id job), arts',
                                  acc\<lparr>failed := failed acc @ [job_id job]\<rparr>)))))))"

definition processRetentionExpiryJob ::
  "platform \<Rightarrow> ('a \<Rightarrow> ustr \<Rightarrow> deletionEvidence \<Rightarrow> 'a \<times> bool) \<Rightarrow> row_store \<Rightarrow> ustr \<Rightarrow> jsval \<Rightarrow> nat \<Rightarrow>
   job_state \<Rightarrow> 'a \<Rightarrow> (drain_error + job_state \<times> 'a \<times> drain_result) option" where
  "processRetentionExpiryJob P del rows now actor fuel jobs arts =
     process_loop P del rows now actor fuel jobs arts \<lparr>processed = 0, refused = [], failed = []\<rparr>"

definition operatorDeleteArtifact :: "artifact_state \<Rightarrow> ustr \<Rightarrow> jsval \<Rightarrow> ustr \<Rightarrow> artifact_state \<times> deletionOutcome" where
  "operatorDeleteArtifact arts dg actor now =
     (let local = (if slice 7 (7 + 24) dg = [] then lit ''operator'' else slice 7 (7 + 24) dg) in
      artifact_delete arts dg
        \<lparr>de_protocol_version = lit ''codeattest.v0'', deletion_evidence_id = lit ''deletion_evidence:op_'' @ local,
         deleted_artifact_digests = [dg], deletion_method = lit ''secure_delete'', deletion_timestamp = now,
         de_actor = actor, verification_status = lit ''unverified'', supersedes_ref = None\<rparr>)"

text \<open>The in-memory delete never throws.\<close>

definition memory_delete :: "artifact_state \<Rightarrow> ustr \<Rightarrow> deletionEvidence \<Rightarrow> artifact_state \<times> bool" where
  "memory_delete arts dg ev = (fst (artifact_delete arts dg ev), True)"

section \<open>A payload that is not due yet\<close>

lemma claim_after_fail:
  assumes "jobs_ok jobs" "claim jobs ty = (jobs1, Some j)"
  shows "\<exists>jobs2 j'. claim (fail_job jobs1 (job_id j)) ty = (jobs2, Some j') \<and>
    job_id j' = job_id j \<and> payload j' = payload j"
  using assms
proof (induction jobs arbitrary: jobs1)
  case (Cons p jobs)
  obtain k job where p: "p = (k, job)" by (cases p)
  have ok: "jobs_ok jobs" "job_id job = k" "k \<notin> fst ` set jobs"
    using Cons.prems p by (auto simp: jobs_ok_def jm_wf_def)
  show ?case
  proof (cases "job_type job = ty \<and> \<not> claimed job")
    case True
    then show ?thesis using Cons.prems(2) p ok(2) by (auto simp: fail_job_def)
  next
    case False
    then obtain jobs' where c: "claim jobs ty = (jobs', Some j)" "jobs1 = p # jobs'"
      using Cons.prems(2) p by (auto split: prod.splits)
    obtain row where row: "jm_get jobs (job_id j) = Some row"
      by (rule claim_Some [OF ok(1) c(1)])
    then have "job_id j \<noteq> k"
      using ok(3) jm_get_in_keys [of jobs "job_id j"] by auto
    then have "fail_job jobs1 (job_id j) = p # fail_job jobs' (job_id j)"
      using c(2) p by (auto simp: fail_job_def split: option.split)
    with Cons.IH [OF ok(1) c(1)] False p show ?thesis by auto
  qed
qed simp

lemma drain_spins:
  assumes "jobs_ok jobs" "claim jobs RETENTION_EXPIRY_JOB_TYPE = (jobs1, Some j)"
    and "json_parse P (payload j) = Some pl" and "is_string (field pl ''end_timestamp'')"
    and "is_string (field pl ''retention_record_id'')" and "the_str (field pl ''end_timestamp'') > now"
  shows "process_loop P del rows now actor n jobs arts acc = None"
  using assms(1-3)
proof (induction n arbitrary: jobs jobs1 j acc)
  case (Suc n)
  obtain jobs2 j' where c: "claim (fail_job jobs1 (job_id j)) RETENTION_EXPIRY_JOB_TYPE = (jobs2, Some j')"
    "payload j' = payload j"
    using claim_after_fail [OF Suc.prems(1,2)] by blast
  have "jobs_ok jobs1"
    using job_exec_ok [OF Suc.prems(1), of "Claim RETENTION_EXPIRY_JOB_TYPE"] Suc.prems(2) by simp
  then have "jobs_ok (fail_job jobs1 (job_id j))"
    using job_exec_ok [of jobs1 "Fail (job_id j)"] by simp
  from Suc.IH [OF this c(1)] c(2) Suc.prems assms(4-6) show ?case
    by (cases pl) auto
qed simp

section \<open>A queue whose purges are all due\<close>

definition pending :: "jobRow \<Rightarrow> bool" where
  "pending row \<longleftrightarrow> job_type row = RETENTION_EXPIRY_JOB_TYPE \<and> \<not> claimed row"

definition job_ready :: "platform \<Rightarrow> row_store \<Rightarrow> ustr \<Rightarrow> jobRow \<Rightarrow> ustr list \<Rightarrow> bool" where
  "job_ready P rows now row ds \<longleftrightarrow>
     (\<exists>pl r. json_parse P (payload row) = Some pl \<and> pl \<noteq> JNull \<and> is_string (field pl ''end_timestamp'') \<and>
       is_string (field pl ''retention_record_id'') \<and> the_str (field pl ''end_timestamp'') \<le> now \<and>
       retention_find P rows (the_str (field pl ''retention_record_id'')) = Inr (Some r) \<and>
       payload_digests pl = Some ds)"

lemma delete_set: "jm_delete (jm_set m k v) k = jm_delete m k"
  by (induction m k v rule: jm_set.induct) (auto simp: jm_delete_def)

lemma complete_claimed:
  assumes "jobs_ok jobs" "claim jobs ty = (jobs1, Some j)"
  shows "complete jobs1 (job_id j) = jm_delete jobs (job_id j)"
  by (rule claim_Some [OF assms]) (simp add: complete_def delete_set)

lemma memory_delete_objects:
  "objects (fst (memory_delete arts dg ev)) = jm_delete (objects arts) dg"
  by (simp add: memory_delete_def artifact_delete_def Let_def jm_has_def)

lemma delete_all_memory:
  "\<exists>arts'. delete_all memory_delete now actor arts dgs = (arts', True) \<and>
    (\<forall>d. jm_get (objects arts') d = (if d \<in> set dgs then None else jm_get (objects arts) d))"
proof (induction dgs arbitrary: arts)
  case (Cons dg dgs)
  define arts1 where "arts1 = fst (memory_delete arts dg (expiry_evidence now actor dg))"
  have "delete_all memory_delete now actor arts (dg # dgs) = delete_all memory_delete now actor arts1 dgs"
    by (simp add: arts1_def memory_delete_def)
  with Cons.IH [of arts1] show ?case
    using memory_delete_objects [of arts dg "expiry_evidence now actor dg"] by (auto simp: arts1_def)
qed simp

lemma jm_delete_split:
  assumes "jm_wf m" "(k, v) \<in> set m"
  obtains xs ys where "m = xs @ (k, v) # ys" "jm_delete m k = xs @ ys"
proof -
  obtain xs ys where m: "m = xs @ (k, v) # ys"
    using split_list [OF assms(2)] by blast
  have "\<forall>p \<in> set xs \<union> set ys. fst p \<noteq> k"
    using assms(1) m by (auto simp: jm_wf_def)
  then have "filter (\<lambda>p. fst p \<noteq> k) xs = xs" "filter (\<lambda>p. fst p \<noteq> k) ys = ys"
    by (simp_all add: filter_id_conv)
  then show thesis using that m by (simp add: jm_delete_def)
qed

lemma drain_step:
  assumes "jobs_ok jobs" "claim jobs RETENTION_EXPIRY_JOB_TYPE = (jobs1, Some j)"
    and "jm_get jobs (job_id j) = Some row" "job_ready P rows now row ds" "payload j = payload row"
  obtains arts' where "process_loop P memory_delete rows now actor (Suc n) jobs arts acc =
      process_loop P memory_delete rows now actor n (jm_delete jobs (job_id j)) arts'
        (acc\<lparr>processed := processed acc + 1\<rparr>)"
    "\<forall>d. jm_get (objects arts') d = (if d \<in> set ds then None else jm_get (objects arts) d)"
proof -
  obtain arts' where del: "delete_all memory_delete now actor arts ds = (arts', True)"
    "\<forall>d. jm_get (objects arts') d = (if d \<in> set ds then None else jm_get (objects arts) d)"
    using delete_all_memory by blast
  obtain pl r where "json_parse P (payload row) = Some pl" "pl \<noteq> JNull" "is_string (field pl ''end_timestamp'')"
    "is_string (field pl ''retention_record_id'')" "the_str (field pl ''end_timestamp'') \<le> now"
    "retention_find P rows (the_str (field pl ''retention_record_id'')) = Inr (Some r)"
    "payload_digests pl = Some ds"
    using assms(4) by (auto simp: job_ready_def)
  then have "process_loop P memory_delete rows now actor (Suc n) jobs arts acc =
      process_loop P memory_delete rows now actor n (jm_delete jobs (job_id j)) arts'
        (acc\<lparr>processed := processed acc + 1\<rparr>)"
    using assms(2,5) del(1) complete_claimed [OF assms(1,2)] by (simp add: not_less [symmetric])
  then show thesis using that del(2) by blast
qed

lemma drain_purges:
  assumes "jobs_ok jobs" "\<forall>p \<in> set jobs. pending (snd p) \<longrightarrow> job_ready P rows now (snd p) (D (fst p))"
    and "length jobs < n"
  shows "\<exists>arts' acc'. process_loop P memory_delete rows now actor n jobs arts acc =
      Some (Inr (filter (\<lambda>p. \<not> pending (snd p)) jobs, arts', acc')) \<and>
    failed acc' = failed acc \<and> refused acc' = refused acc \<and>
    processed acc' = processed acc + length (filter (\<lambda>p. pending (snd p)) jobs) \<and>
    (\<forall>d. jm_get (objects arts') d =
       (if \<exists>p \<in> set jobs. pending (snd p) \<and> d \<in> set (D (fst p)) then None else jm_get (objects arts) d))"
  using assms
proof (induction n arbitrary: jobs arts acc)
  case (Suc n)
  obtain jobs1 r where c: "claim jobs RETENTION_EXPIRY_JOB_TYPE = (jobs1, r)"
    by (cases "claim jobs RETENTION_EXPIRY_JOB_TYPE")
  show ?case
  proof (cases r)
    case None
    with claim_None [OF Suc.prems(1)] c have "jobs1 = jobs"
      "\<forall>k row. jm_get jobs k = Some row \<longrightarrow> \<not> pending row" by (auto simp: pending_def)
    moreover from this have "\<forall>p \<in> set jobs. \<not> pending (snd p)"
      using Suc.prems(1) jm_wf_mem [of jobs] by (auto simp: jobs_ok_def)
    ultimately show ?thesis using c None by (auto simp: filter_id_conv)
  next
    case (Some j)
    with c have cj: "claim jobs RETENTION_EXPIRY_JOB_TYPE = (jobs1, Some j)" by simp
    obtain row where row: "jm_get jobs (job_id j) = Some row" "pending row" "payload j = payload row"
      by (rule claim_Some [OF Suc.prems(1) cj]) (metis jobRecord.select_convs(3) pending_def)
    define k where "k = job_id j"
    have mem: "(k, row) \<in> set jobs" using row(1) map_of_SomeD by (fastforce simp: k_def)
    have wf: "jm_wf jobs" using Suc.prems(1) by (simp add: jobs_ok_def)
    have ready: "job_ready P rows now row (D k)" using Suc.prems(2) mem row(2) by fastforce
    obtain arts1 where st: "process_loop P memory_delete rows now actor (Suc n) jobs arts acc =
        process_loop P memory_delete rows now actor n (jm_delete jobs k) arts1
          (acc\<lparr>processed := processed acc + 1\<rparr>)"
      "\<forall>d. jm_get (objects arts1) d = (if d \<in> set (D k) then None else jm_get (objects arts) d)"
      unfolding k_def by (rule drain_step [OF Suc.prems(1) cj row(1) ready [unfolded k_def] row(3)])
    obtain xs ys where xy: "jobs = xs @ (k, row) # ys" "jm_delete jobs k = xs @ ys"
      using wf mem by (rule jm_delete_split)
    have jobs': "jobs_ok (jm_delete jobs k)"
      using job_exec_ok [OF Suc.prems(1), of "Complete k"] by (simp add: complete_def)
    have len: "length (jm_delete jobs k) < n"
      and filt: "filter (\<lambda>p. \<not> pending (snd p)) (jm_delete jobs k) = filter (\<lambda>p. \<not> pending (snd p)) jobs"
      "Suc (length (filter (\<lambda>p. pending (snd p)) (jm_delete jobs k))) = length (filter (\<lambda>p. pending (snd p)) jobs)"
      using Suc.prems(3) row(2) xy by auto
    have "\<forall>p \<in> set (jm_delete jobs k). pending (snd p) \<longrightarrow> job_ready P rows now (snd p) (D (fst p))"
      using Suc.prems(2) xy by simp
    from Suc.IH [OF jobs' this len, of arts1 "acc\<lparr>processed := processed acc + 1\<rparr>"] obtain arts' acc' where
      *: "process_loop P memory_delete rows now actor n (jm_delete jobs k) arts1
          (acc\<lparr>processed := processed acc + 1\<rparr>) =
        Some (Inr (filter (\<lambda>p. \<not> pending (snd p)) jobs, arts', acc'))"
      "failed acc' = failed acc" "refused acc' = refused acc"
      "processed acc' = processed acc + length (filter (\<lambda>p. pending (snd p)) jobs)"
      "\<forall>d. jm_get (objects arts') d = (if \<exists>p \<in> set (jm_delete jobs k). pending (snd p) \<and> d \<in> set (D (fst p))
         then None else jm_get (objects arts1) d)"
      using filt by auto
    have "(\<exists>p \<in> set jobs. pending (snd p) \<and> d \<in> set (D (fst p))) \<longleftrightarrow>
        d \<in> set (D k) \<or> (\<exists>p \<in> set (jm_delete jobs k). pending (snd p) \<and> d \<in> set (D (fst p)))" for d
      using xy row(2) by auto
    with * st show ?thesis by (auto intro!: exI [of _ arts'] exI [of _ acc'])
  qed
qed simp

section \<open>What catch-up queues is ready\<close>

lemma parses_strings:
  assumes "\<forall>s \<in> set (d # ds). code_units s"
  shows "parses (parse_elements P) (join_with [44] (map json_quote (d # ds)) @ 93 # r) (map JStr (d # ds)) r"
  using assms
proof (induction ds arbitrary: d)
  case Nil
  then show ?case
    using parses_elements_last [OF parses_string [of d P "93 # r"]] by simp
next
  case (Cons d' ds)
  then show ?case
    using parses_elements_Cons [OF parses_string [of d P "44 # join_with [44] (map json_quote (d' # ds)) @ 93 # r"]
        Cons.IH [of d']] by simp
qed

lemma parses_string_array:
  assumes "\<forall>s \<in> set ds. code_units s"
  shows "parses (parse_value P) (91 # join_with [44] (map json_quote ds) @ 93 # r) (JArr (map JStr ds)) r"
proof (cases ds)
  case Nil
  then show ?thesis by (auto intro!: parse_atom)
next
  case (Cons d ds')
  have "value_start (join_with [44] (map json_quote (d # ds')) @ 93 # r)"
    by (cases ds') (simp_all add: value_start_def json_quote_def json_space_def)
  then show ?thesis
    using parses_JArr [OF parses_strings] assms Cons by metis
qed

definition payload_object :: "ustr \<Rightarrow> ustr \<Rightarrow> ustr list \<Rightarrow> jsval" where
  "payload_object rid end_ts digests =
     JObj [(lit ''retention_record_id'', JStr rid), (lit ''end_timestamp'', JStr end_ts),
       (lit ''artifact_digests'', JArr (map JStr digests))]"

lemma parse_expiry_payload:
  assumes "code_units rid" "code_units end_ts" "\<forall>s \<in> set ds. code_units s"
  shows "json_parse P (expiry_payload rid end_ts ds) = Some (payload_object rid end_ts ds)"
proof -
  define t3 where "t3 = json_quote (lit ''artifact_digests'') @ 58 # 91 # join_with [44] (map json_quote ds) @ [93, 125]"
  define t2 where "t2 = json_quote (lit ''end_timestamp'') @ 58 # json_quote end_ts @ 44 # t3"
  define t1 where "t1 = json_quote (lit ''retention_record_id'') @ 58 # json_quote rid @ 44 # t2"
  have p3: "parses (parse_members P) t3 [(lit ''artifact_digests'', JArr (map JStr ds))] []"
    unfolding t3_def using parses_string_array [OF assms(3), of P "[125]"]
    by (intro parses_members_last) simp_all
  have p2: "parses (parse_members P) t2 [(lit ''end_timestamp'', JStr end_ts),
      (lit ''artifact_digests'', JArr (map JStr ds))] []"
    unfolding t2_def by (rule parses_members_Cons [OF _ parses_string [OF assms(2)] p3]) simp
  have p1: "parses (parse_members P) t1 [(lit ''retention_record_id'', JStr rid), (lit ''end_timestamp'', JStr end_ts),
      (lit ''artifact_digests'', JArr (map JStr ds))] []"
    unfolding t1_def by (rule parses_members_Cons [OF _ parses_string [OF assms(1)] p2]) simp
  have "value_start t1"
    by (simp add: t1_def value_start_def json_quote_def)
  from parses_JObj [OF p1 this] have "parses (parse_value P) (123 # t1) (payload_object rid end_ts ds) []"
    by (subst (asm) object_of_distinct) (simp_all add: payload_object_def own_order_names is_digit_def)
  then show ?thesis
    using json_parse_of_parses by (simp add: expiry_payload_def t1_def t2_def t3_def)
qed

text \<open>The rows of the retention store are keyed by the identity of the record they hold, and hold
  records of the declared shape.\<close>

definition retention_rows :: "platform \<Rightarrow> row_store \<Rightarrow> bool" where
  "retention_rows P rows \<longleftrightarrow> jm_wf rows \<and>
     (\<forall>p \<in> set rows. \<exists>v. json_data P v \<and> canonicalizeProtocolJson P v = Inr (snd p) \<and>
        retention_record_id v = fst p)"

lemma retention_rows_record:
  assumes "retention_rows P rows" "storable P r" "retention_record P rows r = Inr (rows', out)"
  shows "retention_rows P rows'"
proof (cases "jm_has rows (retention_record_id r)")
  case True
  then show ?thesis using assms by (simp add: retention_record_def)
next
  case False
  obtain b where b: "toCanonicalRow P r = Inr \<lparr>body = b, digest = sha256ProtocolText P b\<rparr>"
    "canonicalizeProtocolJson P r = Inr b" "json_data P r"
    using assms(2) by (rule storable_row)
  have "rows' = rows @ [(retention_record_id r, b)]"
    using False b(1) assms(3) by (auto simp: retention_record_def jm_set_fresh jm_has_def)
  then show ?thesis
    using assms(1) b(2,3) False
    by (auto simp: retention_rows_def jm_wf_def jm_has_def map_of_eq_None_iff)
qed

lemma retention_rows_Nil [simp]: "retention_rows P []"
  by (simp add: retention_rows_def)

lemma retention_id_norm: "json_data P v \<Longrightarrow> retention_record_id (norm_js v) = retention_record_id v"
  by (simp add: retention_record_id_def field_norm_js)

lemma due_record_units:
  assumes "json_data P r"
  shows "code_units (retention_record_id r)" "code_units (end_timestamp_of r)"
    "\<forall>s \<in> set (sha256_refs (retained_artifact_refs r)). code_units s"
proof -
  show "code_units (retention_record_id r)"
    using json_data_field_str [OF assms] by (simp add: retention_record_id_def)
  show "code_units (end_timestamp_of r)"
    using json_data_field [OF assms, of "lit ''retention_period''"] json_data_field_str
    by (cases "field r ''retention_period'' = JUndef") (auto simp: end_timestamp_of_def code_units_def)
  have "\<forall>v \<in> set (the_array (field r ''retained_artifact_refs'')). json_data P v"
    using json_data_field [OF assms, of "lit ''retained_artifact_refs''"]
    by (cases "field r ''retained_artifact_refs''") auto
  then show "\<forall>s \<in> set (sha256_refs (retained_artifact_refs r)). code_units s"
    by (auto simp: sha256_refs_def retained_artifact_refs_def intro: json_data_the_str)
qed

lemma listDue_spec:
  assumes "retention_rows P rows"
  obtains due where "listDue P rows now = Inr due" "distinct (map retention_record_id due)"
    "\<forall>r \<in> set due. json_data P r \<and> end_timestamp_of r \<le> now \<and>
       retention_find P rows (retention_record_id r) = Inr (Some r)"
    "\<forall>k r. retention_find P rows k = Inr (Some r) \<longrightarrow> end_timestamp_of r \<le> now \<longrightarrow> r \<in> set due"
proof -
  obtain g where g: "\<forall>p \<in> set rows. json_data P (g p) \<and> canonicalizeProtocolJson P (g p) = Inr (snd p) \<and>
      retention_record_id (g p) = fst p"
    using assms unfolding retention_rows_def by metis
  define all where "all = map (\<lambda>p. norm_js (g p)) rows"
  have pb: "parse_body P (snd p) = Inr (norm_js (g p))" if "p \<in> set rows" for p
    using g that by (auto intro: parse_body_canonical)
  have "smap (parse_body P) (jm_values rows) = Inr all"
    unfolding jm_values_def all_def using pb by (induction rows) auto
  then have lst: "listDue P rows now = Inr (filter (\<lambda>r. end_timestamp_of r \<le> now) all)"
    by (simp add: listDue_def)
  have ids: "map retention_record_id all = map fst rows"
    using g retention_id_norm [of P] by (auto simp: all_def)
  have wf: "jm_wf rows" using assms by (simp add: retention_rows_def)
  have fnd: "retention_find P rows (fst p) = Inr (Some (norm_js (g p)))" if "p \<in> set rows" for p
    using that pb [OF that] jm_wf_mem [OF wf, of "fst p" "snd p"] by (simp add: retention_find_def find_row_def)
  show thesis
  proof (rule that [OF lst])
    show "distinct (map retention_record_id (filter (\<lambda>r. end_timestamp_of r \<le> now) all))"
      using wf unfolding jm_wf_def ids [symmetric] by (rule distinct_map_filter)
    show "\<forall>r \<in> set (filter (\<lambda>r. end_timestamp_of r \<le> now) all). json_data P r \<and> end_timestamp_of r \<le> now \<and>
        retention_find P rows (retention_record_id r) = Inr (Some r)"
      using g fnd retention_id_norm [of P] by (auto simp: all_def json_data_norm)
    show "\<forall>k r. retention_find P rows k = Inr (Some r) \<longrightarrow> end_timestamp_of r \<le> now \<longrightarrow>
        r \<in> set (filter (\<lambda>r. end_timestamp_of r \<le> now) all)"
      using fnd pb by (fastforce simp: all_def retention_find_def find_row_def split: option.splits dest: map_of_SomeD)
  qed
qed

lemma retention_find_id:
  assumes "retention_rows P rows" "retention_find P rows k = Inr (Some r)"
  shows "retention_record_id r = k"
proof -
  obtain b where b: "(k, b) \<in> set rows" "parse_body P b = Inr r"
    using assms(2) by (auto simp: retention_find_def find_row_def split: option.splits dest: map_of_SomeD)
  obtain v where v: "json_data P v" "canonicalizeProtocolJson P v = Inr b" "retention_record_id v = k"
    using assms(1) b(1) by (fastforce simp: retention_rows_def)
  then show ?thesis using b(2) parse_body_canonical [OF v(2,1)] retention_id_norm [OF v(1)] by simp
qed

definition expiry_job :: "jsval \<Rightarrow> jobRow" where
  "expiry_job r = \<lparr>job_id = retention_record_id r, job_type = RETENTION_EXPIRY_JOB_TYPE,
     payload = expiry_payload (retention_record_id r) (end_timestamp_of r) (sha256_refs (retained_artifact_refs r)),
     attempts = 0, claimed = False\<rparr>"

lemma catch_up_queue:
  assumes "distinct (map retention_record_id due)"
  shows "catch_up_loop evidence_of due jobs e a =
    (jobs @ map (\<lambda>r. (retention_record_id r, expiry_job r))
       (filter (\<lambda>r. \<not> purge_verified evidence_of r \<and> jm_get jobs (retention_record_id r) = None) due),
     e + length (filter (\<lambda>r. \<not> purge_verified evidence_of r \<and> jm_get jobs (retention_record_id r) = None) due),
     a + length (filter (purge_verified evidence_of) due))"
  using assms
proof (induction due arbitrary: jobs e a)
  case (Cons r due)
  let ?enq = "enqueue jobs (retention_record_id r) RETENTION_EXPIRY_JOB_TYPE
      (expiry_payload (retention_record_id r) (end_timestamp_of r) (sha256_refs (retained_artifact_refs r)))"
  consider (verified) "purge_verified evidence_of r" | (queued) row where "\<not> purge_verified evidence_of r" "jm_get jobs (retention_record_id r) = Some row"
    | (fresh) "\<not> purge_verified evidence_of r" "jm_get jobs (retention_record_id r) = None" by fastforce
  then show ?case
  proof cases
    case queued
    then have "?enq = (jobs, Enqueue_already_present)" by (simp add: enqueue_def jm_has_def)
    then show ?thesis using queued Cons by simp
  next
    case fresh
    then have enq: "?enq = (jobs @ [(retention_record_id r, expiry_job r)], Enqueued)"
      by (simp add: enqueue_def jm_has_def jm_set_fresh expiry_job_def)
    have "filter (\<lambda>q. \<not> purge_verified evidence_of q \<and> jm_get (jobs @ [(retention_record_id r, expiry_job r)]) (retention_record_id q) = None) due =
        filter (\<lambda>q. \<not> purge_verified evidence_of q \<and> jm_get jobs (retention_record_id q) = None) due"
      using Cons.prems by (intro filter_cong) (auto simp: map_add_def image_iff split: option.split)
    with Cons.IH [of "jobs @ [(retention_record_id r, expiry_job r)]" "e + 1" a] Cons.prems fresh enq show ?thesis by simp
  qed (use Cons in simp)
qed simp

lemma expiry_job_ready:
  assumes "json_data P r" "end_timestamp_of r \<le> now" "retention_find P rows (retention_record_id r) = Inr (Some r)"
  shows "pending (expiry_job r\<lparr>attempts := n\<rparr>)"
    "job_ready P rows now (expiry_job r\<lparr>attempts := n\<rparr>) (sha256_refs (retained_artifact_refs r))"
proof -
  show "pending (expiry_job r\<lparr>attempts := n\<rparr>)" by (simp add: pending_def expiry_job_def)
  have "sha256_refs (sha256_refs xs) = sha256_refs xs" for xs by (simp add: sha256_refs_def)
  then show "job_ready P rows now (expiry_job r\<lparr>attempts := n\<rparr>) (sha256_refs (retained_artifact_refs r))"
    using assms parse_expiry_payload [OF due_record_units [OF assms(1)], of P]
    by (simp add: job_ready_def expiry_job_def payload_object_def payload_digests_def list.pred_map comp_def
        list_all_iff)
qed

section \<open>Properties\<close>

text \<open>A queue as earlier runs leave it: unclaimed purges of records whose period has ended, however often
  they were tried, and jobs of other kinds.\<close>

definition purge_queue :: "platform \<Rightarrow> row_store \<Rightarrow> ustr \<Rightarrow> job_state \<Rightarrow> bool" where
  "purge_queue P rows now queue \<longleftrightarrow> jobs_ok queue \<and>
     (\<forall>(k, row) \<in> set queue.
        (job_type row \<noteq> RETENTION_EXPIRY_JOB_TYPE \<and> retention_find P rows k = Inr None) \<or>
        (\<exists>r n. retention_find P rows k = Inr (Some r) \<and> end_timestamp_of r \<le> now \<and> row = expiry_job r\<lparr>attempts := n\<rparr>))"

definition record_digests :: "platform \<Rightarrow> row_store \<Rightarrow> ustr \<Rightarrow> ustr list" where
  "record_digests P rows k =
     (case retention_find P rows k of Inr (Some r) \<Rightarrow> sha256_refs (retained_artifact_refs r) | _ \<Rightarrow> [])"

text \<open>What a catch-up leaves in such a queue.\<close>

lemma caught_up_queue:
  assumes "retention_rows P rows" "purge_queue P rows now queue"
  obtains jobs n a where "catchUpRetentionExpiry P evidence_of rows now queue = Inr (jobs, n, a)" "jobs_ok jobs"
    "\<forall>p \<in> set jobs. pending (snd p) \<longrightarrow> job_ready P rows now (snd p) (record_digests P rows (fst p))"
    "filter (\<lambda>p. \<not> pending (snd p)) jobs = filter (\<lambda>p. job_type (snd p) \<noteq> RETENTION_EXPIRY_JOB_TYPE) queue"
    "length (filter (\<lambda>p. pending (snd p)) jobs) = length (filter (\<lambda>p. job_type (snd p) = RETENTION_EXPIRY_JOB_TYPE) queue) + n"
    "\<forall>k. (\<exists>row. (k, row) \<in> set jobs \<and> pending row) \<longleftrightarrow> (\<exists>r. retention_find P rows k = Inr (Some r) \<and> end_timestamp_of r \<le> now \<and>
       (\<not> purge_verified evidence_of r \<or> jm_has queue k))"
proof (rule listDue_spec [OF assms(1), of now])
  fix due
  assume due: "listDue P rows now = Inr due" "distinct (map retention_record_id due)"
    "\<forall>r \<in> set due. json_data P r \<and> end_timestamp_of r \<le> now \<and>
       retention_find P rows (retention_record_id r) = Inr (Some r)"
    "\<forall>k r. retention_find P rows k = Inr (Some r) \<longrightarrow> end_timestamp_of r \<le> now \<longrightarrow> r \<in> set due"
  define new where "new = filter (\<lambda>r. \<not> purge_verified evidence_of r \<and> jm_get queue (retention_record_id r) = None) due"
  define jobs where "jobs = queue @ map (\<lambda>r. (retention_record_id r, expiry_job r)) new"
  have q: "jobs_ok queue" using assms(2) by (simp add: purge_queue_def)
  have old: "(job_type row \<noteq> RETENTION_EXPIRY_JOB_TYPE \<and> retention_find P rows k = Inr None) \<or>
      (\<exists>r n. r \<in> set due \<and> retention_record_id r = k \<and> row = expiry_job r\<lparr>attempts := n\<rparr>)" if "(k, row) \<in> set queue" for k row
    using assms(2) that due(4) retention_find_id [OF assms(1)] unfolding purge_queue_def by fastforce
  have ready: "pending (expiry_job r\<lparr>attempts := n\<rparr>)"
      "job_ready P rows now (expiry_job r\<lparr>attempts := n\<rparr>) (record_digests P rows (retention_record_id r))" if "r \<in> set due" for r n
    using due(3) that by (auto simp: expiry_job_ready record_digests_def)
  have first: "expiry_job r = expiry_job r\<lparr>attempts := 0\<rparr>" for r by (simp add: expiry_job_def)
  have kind: "pending row \<longleftrightarrow> job_type row = RETENTION_EXPIRY_JOB_TYPE" if "(k, row) \<in> set queue" for k row
    using old [OF that] ready(1) by (auto simp: pending_def)
  have fresh: "r \<in> set due \<and> pending (expiry_job r) \<and> job_ready P rows now (expiry_job r) (record_digests P rows (retention_record_id r))"
    if "r \<in> set new" for r
    using that ready(1) [of r 0] ready(2) [of r 0] first [of r] by (simp add: new_def)
  show thesis
  proof (rule that)
    show "catchUpRetentionExpiry P evidence_of rows now queue = Inr (jobs, length new, length (filter (purge_verified evidence_of) due))"
      using due(1) catch_up_queue [OF due(2), of evidence_of queue 0 0] by (simp add: catchUpRetentionExpiry_def jobs_def new_def)
    show "jobs_ok jobs"
      using q due(2) distinct_map_filter [OF due(2)]
      by (auto simp: jobs_ok_def jm_wf_def jobs_def new_def comp_def expiry_job_def map_of_eq_None_iff)
        (metis fst_conv image_eqI)
    show "\<forall>p \<in> set jobs. pending (snd p) \<longrightarrow> job_ready P rows now (snd p) (record_digests P rows (fst p))"
      using old kind fresh ready(2) by (fastforce simp: jobs_def)
    have "filter (\<lambda>p. Q (pending (snd p))) queue = filter (\<lambda>p. Q (job_type (snd p) = RETENTION_EXPIRY_JOB_TYPE)) queue" for Q
      using kind by (intro filter_cong) auto
    from this [of Not] this [of "\<lambda>b. b"] fresh show
      "filter (\<lambda>p. \<not> pending (snd p)) jobs = filter (\<lambda>p. job_type (snd p) \<noteq> RETENTION_EXPIRY_JOB_TYPE) queue"
      "length (filter (\<lambda>p. pending (snd p)) jobs) = length (filter (\<lambda>p. job_type (snd p) = RETENTION_EXPIRY_JOB_TYPE) queue) + length new"
      by (auto simp: jobs_def filter_empty_conv filter_id_conv [THEN iffD2])
    show "\<forall>k. (\<exists>row. (k, row) \<in> set jobs \<and> pending row) \<longleftrightarrow> (\<exists>r. retention_find P rows k = Inr (Some r) \<and> end_timestamp_of r \<le> now \<and>
       (\<not> purge_verified evidence_of r \<or> jm_has queue k))"
    proof (intro allI iffI)
      fix k
      assume "\<exists>row. (k, row) \<in> set jobs \<and> pending row"
      then consider row where "(k, row) \<in> set queue" "pending row" | r where "r \<in> set new" "k = retention_record_id r"
        by (auto simp: jobs_def)
      then show "\<exists>r. retention_find P rows k = Inr (Some r) \<and> end_timestamp_of r \<le> now \<and> (\<not> purge_verified evidence_of r \<or> jm_has queue k)"
      proof cases
        case 1
        then have "jm_has queue k" by (force simp: jm_has_def map_of_eq_None_iff)
        then show ?thesis using old [OF 1(1)] kind [OF 1(1)] 1(2) due(3) by auto
      next
        case 2
        then show ?thesis using due(3) by (auto simp: new_def)
      qed
    next
      fix k
      assume "\<exists>r. retention_find P rows k = Inr (Some r) \<and> end_timestamp_of r \<le> now \<and> (\<not> purge_verified evidence_of r \<or> jm_has queue k)"
      then obtain r where r: "r \<in> set due" "retention_record_id r = k" "retention_find P rows k = Inr (Some r)"
        "\<not> purge_verified evidence_of r \<or> jm_has queue k"
        using due(4) retention_find_id [OF assms(1)] by blast
      show "\<exists>row. (k, row) \<in> set jobs \<and> pending row"
      proof (cases "jm_get queue k")
        case None
        then have "r \<in> set new" using r by (simp add: new_def jm_has_def)
        then show ?thesis using r(2) fresh [of r] by (auto simp: jobs_def)
      next
        case (Some row)
        then have "(k, row) \<in> set queue" by (rule map_of_SomeD)
        then show ?thesis using old [of k row] r(3) ready(1) by (auto simp: jobs_def)
      qed
    qed
  qed
qed

text \<open>C14: a retention run completes. From any queue that earlier runs leave, with or without a source of
  deletion evidence, catch-up and drain at the same time return, with no purge refused or failed, and
  only jobs of other kinds left. Exactly these artifacts are gone: those named by digest in a record
  whose period has ended, unless catch-up skipped the record because every digest it names has verified
  expiry evidence. Every other artifact is untouched.\<close>

theorem retention_purge_complete:
  assumes "retention_rows P rows" and "purge_queue P rows now queue"
  shows "\<exists>jobs n a arts' res. catchUpRetentionExpiry P evidence_of rows now queue = Inr (jobs, n, a) \<and>
    processRetentionExpiryJob P memory_delete rows now actor (Suc (length jobs)) jobs arts =
      Some (Inr (filter (\<lambda>p. job_type (snd p) \<noteq> RETENTION_EXPIRY_JOB_TYPE) queue, arts', res)) \<and>
    refused res = [] \<and> failed res = [] \<and>
    processed res = length (filter (\<lambda>p. job_type (snd p) = RETENTION_EXPIRY_JOB_TYPE) queue) + n \<and>
    (\<forall>d. jm_get (objects arts') d =
      (if \<exists>k r. retention_find P rows k = Inr (Some r) \<and> end_timestamp_of r \<le> now \<and>
          d \<in> set (sha256_refs (retained_artifact_refs r)) \<and> (\<not> purge_verified evidence_of r \<or> jm_has queue k)
       then None else jm_get (objects arts) d))"
proof (rule caught_up_queue [OF assms, of evidence_of])
  fix jobs n a
  assume cu: "catchUpRetentionExpiry P evidence_of rows now queue = Inr (jobs, n, a)" "jobs_ok jobs"
    and ready: "\<forall>p \<in> set jobs. pending (snd p) \<longrightarrow> job_ready P rows now (snd p) (record_digests P rows (fst p))"
    and rest: "filter (\<lambda>p. \<not> pending (snd p)) jobs = filter (\<lambda>p. job_type (snd p) \<noteq> RETENTION_EXPIRY_JOB_TYPE) queue"
      "length (filter (\<lambda>p. pending (snd p)) jobs) = length (filter (\<lambda>p. job_type (snd p) = RETENTION_EXPIRY_JOB_TYPE) queue) + n"
    and keys: "\<forall>k. (\<exists>row. (k, row) \<in> set jobs \<and> pending row) \<longleftrightarrow> (\<exists>r. retention_find P rows k = Inr (Some r) \<and> end_timestamp_of r \<le> now \<and>
       (\<not> purge_verified evidence_of r \<or> jm_has queue k))"
  have rd: "record_digests P rows k = sha256_refs (retained_artifact_refs r)" if "retention_find P rows k = Inr (Some r)" for k r
    using that by (simp add: record_digests_def)
  have dgs: "(\<exists>p \<in> set jobs. pending (snd p) \<and> d \<in> set (record_digests P rows (fst p))) \<longleftrightarrow>
      (\<exists>k r. retention_find P rows k = Inr (Some r) \<and> end_timestamp_of r \<le> now \<and> d \<in> set (sha256_refs (retained_artifact_refs r)) \<and>
         (\<not> purge_verified evidence_of r \<or> jm_has queue k))" for d
  proof -
    have "(\<exists>p \<in> set jobs. pending (snd p) \<and> d \<in> set (record_digests P rows (fst p))) \<longleftrightarrow>
        (\<exists>k. (\<exists>row. (k, row) \<in> set jobs \<and> pending row) \<and> d \<in> set (record_digests P rows k))" by force
    also have "\<dots> \<longleftrightarrow> (\<exists>k. (\<exists>r. retention_find P rows k = Inr (Some r) \<and> end_timestamp_of r \<le> now \<and>
        (\<not> purge_verified evidence_of r \<or> jm_has queue k)) \<and> d \<in> set (record_digests P rows k))"
      by (simp only: keys [rule_format])
    also have "\<dots> \<longleftrightarrow> (\<exists>k r. retention_find P rows k = Inr (Some r) \<and> end_timestamp_of r \<le> now \<and> d \<in> set (sha256_refs (retained_artifact_refs r)) \<and>
         (\<not> purge_verified evidence_of r \<or> jm_has queue k))"
      by (intro iff_exI) (auto simp: rd)
    finally show ?thesis .
  qed
  show ?thesis
    using drain_purges [OF cu(2) ready lessI, of actor arts "\<lparr>processed = 0, refused = [], failed = []\<rparr>"] cu(1)
    unfolding rest dgs processRetentionExpiryJob_def by (auto simp: jm_has_def simp del: process_loop.simps)
qed

definition sample_retention :: jsval where
  "sample_retention = JObj [(lit ''retention_record_id'', jstr ''r1''),
     (lit ''retention_period'', JObj [(lit ''end_timestamp'', jstr ''2024'')]),
     (lit ''retained_artifact_refs'', JArr [jstr ''sha256:d''])]"

definition sample_retention_text :: ustr where
  "sample_retention_text = lit ''{\"retained_artifact_refs\":[\"sha256:d\"],\"retention_period\":{\"end_timestamp\":\"2024\"},\"retention_record_id\":\"r1\"}''"

lemma sample_retention_rows: "retention_rows sample_platform [(lit ''r1'', sample_retention_text)]"
proof -
  have "json_data sample_platform sample_retention"
    "canonicalizeProtocolJson sample_platform sample_retention = Inr sample_retention_text"
    "retention_record_id sample_retention = lit ''r1''"
    by code_simp+
  then show ?thesis by (auto simp: retention_rows_def jm_wf_def)
qed

definition sample_queue :: job_state where
  "sample_queue = [(lit ''n1'', \<lparr>job_id = lit ''n1'', job_type = lit ''normalize'', payload = [], attempts = 0, claimed = False\<rparr>)]"

lemma sample_purge_queue: "purge_queue sample_platform [(lit ''r1'', sample_retention_text)] (lit ''2025'') sample_queue"
  by (simp add: purge_queue_def sample_queue_def jobs_ok_def jm_wf_def RETENTION_EXPIRY_JOB_TYPE_def retention_find_def find_row_def)

text \<open>The run of the worker: the evidence is looked up in the artifact store itself.\<close>

theorem retention_purge_complete_witness:
  "\<exists>jobs n a arts' res. catchUpRetentionExpiry sample_platform (Some (findDeletionEvidence sample_artifacts))
      [(lit ''r1'', sample_retention_text)] (lit ''2025'') sample_queue = Inr (jobs, n, a) \<and>
    processRetentionExpiryJob sample_platform memory_delete [(lit ''r1'', sample_retention_text)] (lit ''2025'') JNull
      (Suc (length jobs)) jobs sample_artifacts =
      Some (Inr (filter (\<lambda>p. job_type (snd p) \<noteq> RETENTION_EXPIRY_JOB_TYPE) sample_queue, arts', res)) \<and>
    refused res = [] \<and> failed res = []"
  using retention_purge_complete [OF sample_retention_rows sample_purge_queue,
      of "Some (findDeletionEvidence sample_artifacts)" JNull sample_artifacts] by blast

text \<open>C29: a drain whose next purge is not due yet never returns: \<open>fail\<close> puts the job back as the first
  unclaimed one, so the next claim takes the same job again, for every number of iterations.\<close>

theorem expiry_drain_never_returns:
  assumes "jobs_ok jobs" and "claim jobs RETENTION_EXPIRY_JOB_TYPE = (jobs1, Some j)"
    and "json_parse P (payload j) = Some pl" and "is_string (field pl ''end_timestamp'')"
    and "is_string (field pl ''retention_record_id'')" and "the_str (field pl ''end_timestamp'') > now"
  shows "processRetentionExpiryJob P del rows now actor fuel jobs arts = None"
  unfolding processRetentionExpiryJob_def using assms by (rule drain_spins)

theorem expiry_drain_never_returns_witness:
  "processRetentionExpiryJob sample_platform memory_delete [] (lit ''2024'') JNull 1000
     [(lit ''r1'', \<lparr>job_id = lit ''r1'', job_type = RETENTION_EXPIRY_JOB_TYPE,
        payload = expiry_payload (lit ''r1'') (lit ''2025'') [], attempts = 0, claimed = False\<rparr>)]
     sample_artifacts = None"
proof (rule expiry_drain_never_returns)
  show "json_parse sample_platform (payload \<lparr>job_id = lit ''r1'', job_type = RETENTION_EXPIRY_JOB_TYPE,
        payload = expiry_payload (lit ''r1'') (lit ''2025'') [], attempts = 1\<rparr>) =
      Some (payload_object (lit ''r1'') (lit ''2025'') [])"
    using parse_expiry_payload [of "lit ''r1''" "lit ''2025''" "[]" sample_platform] by simp
  show "the_str (field (payload_object (lit ''r1'') (lit ''2025'') []) ''end_timestamp'') > lit ''2024''"
    by code_simp
qed (simp_all add: jobs_ok_def jm_wf_def payload_object_def)

end
