(* ===== verification/Timestamps.thy ===== *)
theory Timestamps
  imports Json_Text
begin

text \<open>
  UTC RFC 3339 timestamps: the validator and the nanosecond clock of
  \<^verbatim>\<open>packages/protocol-ts/src/validation.ts\<close> and the separate copy of both in
  \<^verbatim>\<open>apps/control-plane/src/index.ts\<close>. A timestamp is matched by position, as its regular
  expression does; the day count is compared with the calendar it is meant to be.
\<close>

section \<open>Definitions\<close>

record utc_match =
  yearText :: ustr
  monthText :: ustr
  dayText :: ustr
  hourText :: ustr
  minuteText :: ustr
  secondText :: ustr
  fractionText :: "ustr option"

definition utc_suffix :: "ustr \<Rightarrow> bool" where
  "utc_suffix s \<longleftrightarrow> s = lit ''Z'' \<or> s = lit ''+00:00''"

text \<open>The groups of \<^verbatim>\<open>(?:\.(\d{1,9}))?(?:Z|\+00:00)$\<close> on the text after the seconds.\<close>

definition match_fraction :: "ustr \<Rightarrow> ustr option option" where
  "match_fraction s =
     (if utc_suffix s then Some None
      else (case s of
          [] \<Rightarrow> None
        | c # r \<Rightarrow>
            (let (ds, u) = span_digits r in
             if c = 46 \<and> 1 \<le> length ds \<and> length ds \<le> 9 \<and> utc_suffix u then Some (Some ds) else None)))"

definition UTC_RFC3339_FRACTION_PATTERN :: "ustr \<Rightarrow> utc_match option" where
  "UTC_RFC3339_FRACTION_PATTERN s =
     (if length s \<ge> 19
         \<and> list_all is_digit (slice 0 4 s @ slice 5 7 s @ slice 8 10 s @ slice 11 13 s @ slice 14 16 s @ slice 17 19 s)
         \<and> s ! 4 = 45 \<and> s ! 7 = 45 \<and> s ! 10 = 84 \<and> s ! 13 = 58 \<and> s ! 16 = 58
      then map_option (\<lambda>f. \<lparr>yearText = slice 0 4 s, monthText = slice 5 7 s, dayText = slice 8 10 s,
             hourText = slice 11 13 s, minuteText = slice 14 16 s, secondText = slice 17 19 s, fractionText = f\<rparr>)
           (match_fraction (drop 19 s))
      else None)"

definition isLeapYear :: "int \<Rightarrow> bool" where
  "isLeapYear year \<longleftrightarrow> year mod 4 = 0 \<and> (year mod 100 \<noteq> 0 \<or> year mod 400 = 0)"

definition daysByMonth :: "int \<Rightarrow> int list" where
  "daysByMonth year = [31, if isLeapYear year then 29 else 28, 31, 30, 31, 30, 31, 31, 30, 31, 30, 31]"

definition num_of :: "ustr \<Rightarrow> int" where
  "num_of ds = int (nat_of_digits ds)"

definition isUtcRfc3339Timestamp :: "ustr \<Rightarrow> bool" where
  "isUtcRfc3339Timestamp s =
     (case UTC_RFC3339_FRACTION_PATTERN s of
        None \<Rightarrow> False
      | Some m \<Rightarrow>
          (let year = num_of (yearText m); month = num_of (monthText m); day = num_of (dayText m);
               hour = num_of (hourText m); minute = num_of (minuteText m); second = num_of (secondText m)
           in if month < 1 \<or> month > 12 \<or> hour > 23 \<or> minute > 59 \<or> second > 60 then False
              else day \<ge> 1 \<and> day \<le> daysByMonth year ! nat (month - 1)))"

definition daysFromCivil :: "int \<Rightarrow> int \<Rightarrow> int \<Rightarrow> int" where
  "daysFromCivil year month day =
     (let shiftedYear = (if month \<le> 2 then year - 1 else year);
          era = (if shiftedYear \<ge> 0 then shiftedYear else shiftedYear - 399) div 400;
          yearOfEra = shiftedYear - era * 400;
          monthOfYear = (month + 9) mod 12;
          dayOfYear = (153 * monthOfYear + 2) div 5 + day - 1;
          dayOfEra = yearOfEra * 365 + yearOfEra div 4 - yearOfEra div 100 + dayOfYear
      in era * 146097 + dayOfEra - 719468)"

definition padEnd9 :: "ustr \<Rightarrow> ustr" where
  "padEnd9 s = s @ replicate (9 - length s) 48"

definition fraction_nanos :: "ustr option \<Rightarrow> int" where
  "fraction_nanos f = num_of (padEnd9 (case f of None \<Rightarrow> [] | Some ds \<Rightarrow> ds))"

text \<open>\<open>Inl ()\<close> is the \<^verbatim>\<open>TypeError\<close>.\<close>

definition utcRfc3339ToNanoseconds :: "ustr \<Rightarrow> unit + int" where
  "utcRfc3339ToNanoseconds s =
     (if \<not> isUtcRfc3339Timestamp s then Inl ()
      else (case UTC_RFC3339_FRACTION_PATTERN s of
          None \<Rightarrow> Inl ()
        | Some m \<Rightarrow>
            (let days = daysFromCivil (num_of (yearText m)) (num_of (monthText m)) (num_of (dayText m));
                 seconds = days * 86400 + num_of (hourText m) * 3600 + num_of (minuteText m) * 60 + num_of (secondText m)
             in Inr (seconds * 1000000000 + fraction_nanos (fractionText m)))))"

definition compareUtcRfc3339Timestamps :: "ustr \<Rightarrow> ustr \<Rightarrow> unit + int" where
  "compareUtcRfc3339Timestamps left right =
     sbind (utcRfc3339ToNanoseconds left) (\<lambda>l.
     sbind (utcRfc3339ToNanoseconds right) (\<lambda>r.
     Inr (if l < r then - 1 else if l > r then 1 else 0)))"

text \<open>The control plane's copy admits seconds up to 59 only; \<open>Date.parse\<close> of the whole seconds is
  the calendar's count of milliseconds.\<close>

definition isCalendarValidUtcTimestamp :: "ustr \<Rightarrow> bool" where
  "isCalendarValidUtcTimestamp s =
     (case UTC_RFC3339_FRACTION_PATTERN s of
        None \<Rightarrow> False
      | Some m \<Rightarrow>
          (let year = num_of (yearText m); month = num_of (monthText m); day = num_of (dayText m);
               hour = num_of (hourText m); minute = num_of (minuteText m); second = num_of (secondText m)
           in if month < 1 \<or> month > 12 \<or> hour > 23 \<or> minute > 59 \<or> second > 59 then False
              else day \<ge> 1 \<and> day \<le> daysByMonth year ! nat (month - 1)))"

definition Date_parse_seconds :: "utc_match \<Rightarrow> int" where
  "Date_parse_seconds m =
     (daysFromCivil (num_of (yearText m)) (num_of (monthText m)) (num_of (dayText m)) * 86400
      + num_of (hourText m) * 3600 + num_of (minuteText m) * 60 + num_of (secondText m)) * 1000"

definition parseUtcTimestampNs :: "jsval \<Rightarrow> int option" where
  "parseUtcTimestampNs v =
     (case v of
        JStr s \<Rightarrow>
          (case UTC_RFC3339_FRACTION_PATTERN s of
             None \<Rightarrow> None
           | Some m \<Rightarrow>
               if \<not> isCalendarValidUtcTimestamp s then None
               else Some (Date_parse_seconds m * 1000000 + fraction_nanos (fractionText m)))
      | _ \<Rightarrow> None)"

section \<open>The calendar\<close>

text \<open>The days before a year and before a month, counted one by one from 1 March of year 0 being
  day -719468 (the epoch is day 0).\<close>

fun next_day :: "int \<times> int \<times> int \<Rightarrow> int \<times> int \<times> int" where
  "next_day (y, m, d) =
     (if d < daysByMonth y ! nat (m - 1) then (y, m, d + 1)
      else if m < 12 then (y, m + 1, 1)
      else (y + 1, 1, 1))"

definition valid_date :: "int \<times> int \<times> int \<Rightarrow> bool" where
  "valid_date dt = (case dt of (y, m, d) \<Rightarrow> 0 \<le> y \<and> 1 \<le> m \<and> m \<le> 12 \<and> 1 \<le> d \<and> d \<le> daysByMonth y ! nat (m - 1))"

lemma month_cases:
  assumes "1 \<le> m" "m \<le> (12 :: int)"
  shows "m = 1 \<or> m = 2 \<or> m = 3 \<or> m = 4 \<or> m = 5 \<or> m = 6 \<or> m = 7 \<or> m = 8 \<or> m = 9 \<or> m = 10 \<or> m = 11 \<or> m = 12"
proof -
  have "m \<in> set [1..12]" using assms unfolding set_upto by simp
  moreover have "[1..12] = [1, 2, 3, 4, 5, 6, 7, 8, 9, 10, 11, 12 :: int]" by code_simp
  ultimately have "m \<in> set [1, 2, 3, 4, 5, 6, 7, 8, 9, 10, 11, 12]" by (simp only:)
  then show ?thesis by simp
qed

text \<open>The era of a year: Math.floor of the shifted year agrees with floor division from year -1 on.\<close>

lemma era_div: "- 1 \<le> y \<Longrightarrow> (if y \<ge> 0 then y else y - 399) div 400 = (y :: int) div 400"
proof -
  assume "- 1 \<le> y"
  then have "y = - 1 \<or> y \<ge> 0" by linarith
  then show ?thesis by auto
qed

definition year_days :: "int \<Rightarrow> int" where
  "year_days y = 365 * y + y div 4 - y div 100 + y div 400"

lemma year_days_era:
  "y div 400 * 146097 + ((y - y div 400 * 400) * 365 + (y - y div 400 * 400) div 4 - (y - y div 400 * 400) div 100)
   = year_days y"
proof -
  define q r where "q = y div 400" and "r = y - y div 400 * 400"
  have y: "y = q * 400 + r" by (simp add: q_def r_def)
  have r2: "y - q * 400 = r" by (simp add: q_def r_def)
  have dv: "y div 4 = q * 100 + r div 4" "y div 100 = q * 4 + r div 100"
    using div_mult_self1 [of 4 r "q * 100"] div_mult_self1 [of 100 r "q * 4"] by (simp_all add: y add.commute)
  have "q * 146097 + (r * 365 + u - v) = 365 * (q * 400 + r) + (q * 100 + u) - (q * 4 + v) + q" for u v :: int
    by simp
  from this [of "r div 4" "r div 100"] show ?thesis
    unfolding year_days_def dv q_def [symmetric] r2 y [symmetric] .
qed

lemma daysFromCivil_eq:
  assumes "0 \<le> y" "1 \<le> m" "m \<le> 12"
  shows "daysFromCivil y m d =
    year_days (if m \<le> 2 then y - 1 else y) + (153 * ((m + 9) mod 12) + 2) div 5 + d - 719469"
proof -
  define s where "s = (if m \<le> 2 then y - 1 else y)"
  have "- 1 \<le> s" using assms by (simp add: s_def)
  note era = era_div [OF this]
  have "daysFromCivil y m d = s div 400 * 146097 + ((s - s div 400 * 400) * 365 + (s - s div 400 * 400) div 4
      - (s - s div 400 * 400) div 100 + ((153 * ((m + 9) mod 12) + 2) div 5 + d - 1)) - 719468"
    unfolding daysFromCivil_def Let_def s_def [symmetric] era ..
  moreover have "u + (v + w - x + (z + d - 1)) - 719468 = (u + (v + w - x)) + z + d - 719469" for u v w x z :: int
    by simp
  ultimately show ?thesis
    unfolding s_def [symmetric] by (simp only: year_days_era)
qed

lemma div_step:
  assumes "1 < (k :: int)"
  shows "y div k = (y - 1) div k + (if y mod k = 0 then 1 else 0)"
proof -
  define q r where "q = (y - 1) div k" and "r = (y - 1) mod k"
  have r: "0 \<le> r" "r < k" using assms by (simp_all add: r_def)
  have y: "y = q * k + (r + 1)"
    using div_mult_mod_eq [of "y - 1" k] by (simp add: q_def r_def)
  show ?thesis
  proof (cases "r + 1 = k")
    case True
    then have "y = (q + 1) * k" using y by (simp add: algebra_simps)
    then have "y div k = q + 1" "y mod k = 0" using assms by simp_all
    then show ?thesis by (simp add: q_def)
  next
    case False
    then have "y div k = q" "y mod k = r + 1"
      using r y by (simp_all add: div_pos_pos_trivial mod_pos_pos_trivial)
    then show ?thesis using r by (simp add: q_def)
  qed
qed

lemma mod_nested: "y mod 400 = 0 \<Longrightarrow> y mod 100 = (0 :: int)" "y mod 100 = 0 \<Longrightarrow> y mod 4 = (0 :: int)"
proof -
  show "y mod 100 = 0" if "y mod 400 = 0"
    using that dvd_trans [of "100 :: int" 400 y] by (simp add: mod_eq_0_iff_dvd)
  show "y mod 4 = 0" if "y mod 100 = 0"
    using that dvd_trans [of "4 :: int" 100 y] by (simp add: mod_eq_0_iff_dvd)
qed

lemma year_days_leap:
  "year_days y = year_days (y - 1) + (if isLeapYear y then 366 else 365)"
proof -
  define a b c where "a = (if y mod 4 = 0 then 1 else 0 :: int)" and "b = (if y mod 100 = 0 then 1 else 0 :: int)"
    and "c = (if y mod 400 = 0 then 1 else 0 :: int)"
  have "y div 4 = (y - 1) div 4 + a" "y div 100 = (y - 1) div 100 + b" "y div 400 = (y - 1) div 400 + c"
    unfolding a_def b_def c_def by (rule div_step, simp)+
  then have eq: "year_days y = 365 * y + ((y - 1) div 4 + a) - ((y - 1) div 100 + b) + ((y - 1) div 400 + c)"
    by (simp only: year_days_def)
  have "365 * y + (u + a) - (v + b) + (w + c) = 365 * (y - 1) + u - v + w + 365 + a - b + c" for u v w
    by simp
  from eq [unfolded this] have "year_days y = year_days (y - 1) + 365 + a - b + c"
    unfolding year_days_def .
  moreover have "a - b + c = (if isLeapYear y then 1 else 0)"
  proof -
    have "(if P then 1 else 0) - (if Q then 1 else 0) + (if R then 1 else 0) = (if P \<and> (\<not> Q \<or> R) then 1 else (0 :: int))"
      if "R \<Longrightarrow> Q" "Q \<Longrightarrow> P" for P Q R
      using that by auto
    from this [OF mod_nested] show ?thesis
      unfolding a_def b_def c_def isLeapYear_def .
  qed
  ultimately show ?thesis by (cases "isLeapYear y") simp_all
qed

text \<open>The day count of the next calendar day is one more.\<close>

lemma daysFromCivil_next:
  assumes "valid_date (y, m, d)" "next_day (y, m, d) = (y', m', d')"
  shows "daysFromCivil y' m' d' = daysFromCivil y m d + 1"
proof -
  have v: "0 \<le> y" "1 \<le> m" "m \<le> 12" "1 \<le> d" "d \<le> daysByMonth y ! nat (m - 1)"
    using assms(1) by (simp_all add: valid_date_def)
  have v': "0 \<le> y'" "1 \<le> m'" "m' \<le> 12"
    using assms(2) v by (auto split: if_splits)
  note eqs = daysFromCivil_eq [OF v(1-3)] daysFromCivil_eq [OF v']
  show ?thesis
  proof (cases "d < daysByMonth y ! nat (m - 1)")
    case True
    then show ?thesis using assms(2) eqs by simp
  next
    case False
    then have d: "d = daysByMonth y ! nat (m - 1)" using v(5) by simp
    show ?thesis
      using month_cases [OF v(2,3)] assms(2) d year_days_leap [of y] unfolding eqs
      by (elim disjE) (auto simp: daysByMonth_def split: if_splits)
  qed
qed

lemma daysFromCivil_day:
  assumes "0 \<le> y" "1 \<le> m" "m \<le> 12"
  shows "daysFromCivil y m d = daysFromCivil y m 1 + (d - 1)"
  using daysFromCivil_eq [OF assms] by simp

abbreviation month_days :: "int \<Rightarrow> int \<Rightarrow> int" where
  "month_days y m \<equiv> daysByMonth y ! nat (m - 1)"

lemma month_days_pos:
  assumes "1 \<le> m" "m \<le> 12"
  shows "1 \<le> month_days y m"
  using month_cases [OF assms] by (elim disjE) (simp_all add: daysByMonth_def)

lemma next_month:
  assumes "0 \<le> y" "1 \<le> m" "m \<le> 12"
  shows "daysFromCivil y m 1 + month_days y m =
    (if m < 12 then daysFromCivil y (m + 1) 1 else daysFromCivil (y + 1) 1 1)"
proof -
  have v: "valid_date (y, m, month_days y m)"
    using assms month_days_pos by (simp add: valid_date_def)
  show ?thesis
    using daysFromCivil_next [OF v, of "if m < 12 then y else y + 1" "if m < 12 then m + 1 else 1" 1]
      daysFromCivil_day [OF assms, of "month_days y m"] by (auto split: if_splits)
qed

lemma later_month:
  assumes "0 \<le> y" "1 \<le> m"
  shows "m < m' \<Longrightarrow> m' \<le> 12 \<Longrightarrow> daysFromCivil y m 1 + month_days y m \<le> daysFromCivil y m' 1"
proof (induction m' rule: int_gr_induct)
  case base
  then show ?case using next_month [of y m] assms by simp
next
  case (step i)
  then show ?case
    using next_month [of y i] month_days_pos [of i y] assms by simp
qed

lemma year_after:
  assumes "0 \<le> y" "1 \<le> m" "m \<le> 12"
  shows "daysFromCivil y m 1 + month_days y m \<le> daysFromCivil (y + 1) 1 1"
  using later_month [OF assms(1,2), of 12] next_month [OF assms(1,2,3)] next_month [of y 12] assms
    month_days_pos [of 12 y] by (cases "m = 12") auto

lemma later_year:
  assumes "0 \<le> y"
  shows "y < y' \<Longrightarrow> daysFromCivil (y + 1) 1 1 \<le> daysFromCivil y' 1 1"
proof (induction y' rule: int_gr_induct)
  case (step i)
  then show ?case
    using year_after [of i 1] month_days_pos [of 1 i] assms by simp
qed simp

definition date_less :: "int \<times> int \<times> int \<Rightarrow> int \<times> int \<times> int \<Rightarrow> bool" where
  "date_less a b = (case a of (y, m, d) \<Rightarrow> case b of (y', m', d') \<Rightarrow>
     y < y' \<or> (y = y' \<and> (m < m' \<or> (m = m' \<and> d < d'))))"

lemma date_less_days:
  assumes "valid_date (y, m, d)" "valid_date (y', m', d')" "date_less (y, m, d) (y', m', d')"
  shows "daysFromCivil y m d < daysFromCivil y' m' d'"
proof -
  have v: "0 \<le> y" "1 \<le> m" "m \<le> 12" "d \<le> month_days y m" "0 \<le> y'" "1 \<le> m'" "m' \<le> 12" "1 \<le> d'"
    using assms(1,2) by (simp_all add: valid_date_def)
  have d: "daysFromCivil y m d < daysFromCivil y m 1 + month_days y m"
    "daysFromCivil y' m' 1 \<le> daysFromCivil y' m' d'" "daysFromCivil y' 1 1 \<le> daysFromCivil y' m' 1"
    using daysFromCivil_day [of y m d] daysFromCivil_day [of y' m' d'] later_month [of y' 1 m'] v
      month_days_pos [of 1 y'] by (cases "m' = 1"; simp)+
  from assms(3) consider "y < y'" | "y = y'" "m < m'" | "y = y'" "m = m'" "d < d'"
    by (auto simp: date_less_def)
  then show ?thesis
  proof cases
    case 1
    then show ?thesis using d later_year [OF v(1) 1] year_after [OF v(1-3)] by linarith
  next
    case 2
    then show ?thesis using d later_month [OF v(1,2) 2(2) v(7)] by simp
  next
    case 3
    have "daysFromCivil y m d = daysFromCivil y m 1 + (d - 1)" "daysFromCivil y m d' = daysFromCivil y m 1 + (d' - 1)"
      using v by (intro daysFromCivil_day; simp)+
    then show ?thesis unfolding 3(1,2) [symmetric] using 3(3) by linarith
  qed
qed

section \<open>Fractions\<close>

lemma nat_of_digits_bound: "list_all is_digit ds \<Longrightarrow> nat_of_digits ds < 10 ^ length ds"
proof (induction ds rule: rev_induct)
  case (snoc d ds)
  then show ?case by (auto simp: nat_of_digits_append is_digit_def)
qed (simp add: nat_of_digits_def)

lemma fraction_nanos_bound:
  assumes "match_fraction s = Some f"
  shows "0 \<le> fraction_nanos f" "fraction_nanos f < 1000000000"
proof -
  define ds where "ds = (case f of None \<Rightarrow> [] | Some ds \<Rightarrow> ds)"
  have ds: "list_all is_digit ds" "length ds \<le> 9"
    using assms
    by (auto simp: ds_def match_fraction_def span_digits_def list_all_iff Let_def dest: set_takeWhileD
        split: if_splits list.splits)
  have "list_all is_digit (padEnd9 ds)" "length (padEnd9 ds) = 9"
    using ds by (auto simp: padEnd9_def list_all_iff is_digit_def)
  then have "nat_of_digits (padEnd9 ds) < 10 ^ 9"
    using nat_of_digits_bound [of "padEnd9 ds"] by simp
  then show "0 \<le> fraction_nanos f" "fraction_nanos f < 1000000000"
    by (simp_all add: fraction_nanos_def num_of_def ds_def)
qed

lemma parseUtcTimestampNs_agrees:
  assumes "isCalendarValidUtcTimestamp s"
  shows "parseUtcTimestampNs (JStr s) = Some n \<longleftrightarrow> utcRfc3339ToNanoseconds s = Inr n"
proof -
  obtain m where m: "UTC_RFC3339_FRACTION_PATTERN s = Some m"
    using assms by (auto simp: isCalendarValidUtcTimestamp_def split: option.splits)
  have "isUtcRfc3339Timestamp s"
    using assms m by (auto simp: isCalendarValidUtcTimestamp_def isUtcRfc3339Timestamp_def Let_def split: if_splits)
  then show ?thesis
    using assms m
    by (auto simp: parseUtcTimestampNs_def utcRfc3339ToNanoseconds_def Date_parse_seconds_def Let_def algebra_simps)
qed

lemma parseUtcTimestampNs_Some:
  "parseUtcTimestampNs v = Some n \<Longrightarrow> \<exists>s. v = JStr s \<and> isCalendarValidUtcTimestamp s"
  by (auto simp: parseUtcTimestampNs_def split: jsval.splits option.splits if_splits)

section \<open>Properties\<close>

definition stamp_date :: "utc_match \<Rightarrow> int \<times> int \<times> int" where
  "stamp_date m = (num_of (yearText m), num_of (monthText m), num_of (dayText m))"

text \<open>The time of day of a match, in nanoseconds.\<close>

definition stamp_time :: "utc_match \<Rightarrow> int" where
  "stamp_time m = (num_of (hourText m) * 3600 + num_of (minuteText m) * 60 + num_of (secondText m)) * 1000000000
     + fraction_nanos (fractionText m)"

abbreviation day_nanos :: int where
  "day_nanos \<equiv> 86400 * 1000000000"

text \<open>The instant of a match, as a date and a nanosecond of that day below 24 hours. POSIX time has no
  second 60: it is counted as the first second of the next minute, which may be on the next day.\<close>

definition posix_instant :: "utc_match \<Rightarrow> (int \<times> int \<times> int) \<times> int" where
  "posix_instant m =
     (if stamp_time m < day_nanos then (stamp_date m, stamp_time m) else (next_day (stamp_date m), stamp_time m - day_nanos))"

definition instant_less :: "(int \<times> int \<times> int) \<times> int \<Rightarrow> (int \<times> int \<times> int) \<times> int \<Rightarrow> bool" where
  "instant_less a b \<longleftrightarrow> date_less (fst a) (fst b) \<or> fst a = fst b \<and> snd a < snd b"

definition instant_nanos :: "(int \<times> int \<times> int) \<times> int \<Rightarrow> int" where
  "instant_nanos i = (case i of ((y, mo, d), t) \<Rightarrow> daysFromCivil y mo d * day_nanos + t)"

definition valid_instant :: "(int \<times> int \<times> int) \<times> int \<Rightarrow> bool" where
  "valid_instant i \<longleftrightarrow> valid_date (fst i) \<and> 0 \<le> snd i \<and> snd i < day_nanos"

lemma next_day_valid: "valid_date dt \<Longrightarrow> valid_date (next_day dt)"
  using month_days_pos [of "fst (snd dt) + 1" "fst dt"] month_days_pos [of 1 "fst dt + 1"]
  by (cases dt) (auto simp: valid_date_def)

lemma timestamp_parts:
  assumes "isUtcRfc3339Timestamp s"
  obtains m where "UTC_RFC3339_FRACTION_PATTERN s = Some m" "valid_date (stamp_date m)"
    "0 \<le> stamp_time m" "stamp_time m < day_nanos + 1000000000"
    "num_of (secondText m) < 60 \<Longrightarrow> stamp_time m < day_nanos"
    "utcRfc3339ToNanoseconds s = Inr (instant_nanos (stamp_date m, stamp_time m))"
proof -
  obtain m where m: "UTC_RFC3339_FRACTION_PATTERN s = Some m"
    using assms by (auto simp: isUtcRfc3339Timestamp_def split: option.splits)
  have r: "1 \<le> num_of (monthText m)" "num_of (monthText m) \<le> 12" "num_of (hourText m) \<le> 23"
    "num_of (minuteText m) \<le> 59" "num_of (secondText m) \<le> 60" "1 \<le> num_of (dayText m)"
    "num_of (dayText m) \<le> daysByMonth (num_of (yearText m)) ! nat (num_of (monthText m) - 1)"
    using assms m by (auto simp: isUtcRfc3339Timestamp_def Let_def split: if_splits)
  have nn: "0 \<le> num_of ds" for ds by (simp add: num_of_def)
  obtain f where "match_fraction (drop 19 s) = Some f" "fractionText m = f"
    using m by (auto simp: UTC_RFC3339_FRACTION_PATTERN_def split: if_splits)
  then have fr: "0 \<le> fraction_nanos (fractionText m)" "fraction_nanos (fractionText m) < 1000000000"
    using fraction_nanos_bound by blast+
  have "valid_date (stamp_date m)"
    using r nn by (simp add: stamp_date_def valid_date_def)
  moreover have "0 \<le> stamp_time m" "stamp_time m < day_nanos + 1000000000"
    "num_of (secondText m) < 60 \<Longrightarrow> stamp_time m < day_nanos"
    using fr r nn [of "hourText m"] nn [of "minuteText m"] nn [of "secondText m"] by (simp_all add: stamp_time_def)
  moreover have "utcRfc3339ToNanoseconds s = Inr (instant_nanos (stamp_date m, stamp_time m))"
    using m assms
    by (simp add: utcRfc3339ToNanoseconds_def instant_nanos_def stamp_date_def stamp_time_def Let_def algebra_simps)
  ultimately show thesis using that m by blast
qed

text \<open>Moving a leap second into the next minute changes neither its nanosecond count nor validity.\<close>

lemma posix_instant_nanos:
  assumes "valid_date (stamp_date m)" "0 \<le> stamp_time m" "stamp_time m < day_nanos + 1000000000"
  shows "valid_instant (posix_instant m)" "instant_nanos (posix_instant m) = instant_nanos (stamp_date m, stamp_time m)"
proof -
  obtain y mo d y' mo' d' where dt: "stamp_date m = (y, mo, d)" "next_day (y, mo, d) = (y', mo', d')"
    by (cases "stamp_date m", cases "next_day (stamp_date m)") (metis prod.exhaust)
  have succ: "daysFromCivil y' mo' d' = daysFromCivil y mo d + 1" "valid_date (y', mo', d')"
    using daysFromCivil_next [OF _ dt(2)] next_day_valid [of "(y, mo, d)"] assms(1) dt by simp_all
  show "valid_instant (posix_instant m)"
    using assms succ(2) dt by (auto simp: valid_instant_def posix_instant_def)
  show "instant_nanos (posix_instant m) = instant_nanos (stamp_date m, stamp_time m)"
    using dt succ(1) by (auto simp: posix_instant_def instant_nanos_def algebra_simps)
qed

lemma instant_nanos_less:
  assumes "valid_instant a" "valid_instant b" "instant_less a b"
  shows "instant_nanos a < instant_nanos b"
proof -
  obtain y m d t y' m' d' t' where ab: "a = ((y, m, d), t)" "b = ((y', m', d'), t')" by (cases a; cases b) auto
  define A B where "A = daysFromCivil y m d" and "B = daysFromCivil y' m' d'"
  have t: "0 \<le> t'" "t < day_nanos" using assms(1,2) ab by (simp_all add: valid_instant_def)
  from assms(3) consider "date_less (y, m, d) (y', m', d')" | "(y, m, d) = (y', m', d')" "t < t'"
    by (auto simp: instant_less_def ab)
  then have "A * day_nanos + t < B * day_nanos + t'"
  proof cases
    case 1
    from date_less_days [OF _ _ this] assms(1,2) ab have "A < B" by (simp add: valid_instant_def A_def B_def)
    with t show ?thesis by linarith
  qed (simp add: A_def B_def)
  then show ?thesis by (simp add: ab instant_nanos_def A_def B_def)
qed

lemma instant_linear: "instant_less a b \<or> a = b \<or> instant_less b a"
  by (cases a; cases b) (auto simp: instant_less_def date_less_def)

lemma instant_nanos_compare:
  assumes "valid_instant a" "valid_instant b"
  shows "instant_nanos a < instant_nanos b \<longleftrightarrow> instant_less a b" "instant_nanos a = instant_nanos b \<longleftrightarrow> a = b"
  using instant_linear [of a b] instant_nanos_less [OF assms] instant_nanos_less [OF assms(2,1)] by auto

text \<open>\<open>daysFromCivil\<close> is the Gregorian calendar: the epoch is day 0 and every calendar day is one
  more than the day before it, over month ends, year ends and leap days.\<close>

theorem days_from_civil_is_calendar:
  "daysFromCivil 1970 1 1 = 0 \<and>
   (valid_date (y, m, d) \<longrightarrow>
    (case next_day (y, m, d) of (y', m', d') \<Rightarrow> daysFromCivil y' m' d' = daysFromCivil y m d + 1))"
  using daysFromCivil_next [of y m d] by (cases "next_day (y, m, d)") (auto simp: daysFromCivil_def)

theorem days_from_civil_is_calendar_witness:
  "daysFromCivil 2024 2 29 = daysFromCivil 2024 2 28 + 1 \<and> valid_date (2024, 2, 28)"
  using days_from_civil_is_calendar [of 2024 2 28] by (simp add: valid_date_def daysByMonth_def isLeapYear_def)

text \<open>C40: comparing two timestamps compares the instants they denote in POSIX time, for every pair the
  validator accepts: by date first, then by the nanosecond of the day, whatever spelling of UTC and
  however many fraction digits they use. For seconds below 60 the date and the time of day are the
  ones written; second 60 counts as second 0 of the next minute. If the validator refuses one of the
  two, the comparison throws.\<close>

theorem compare_timestamps_chronological:
  "(isUtcRfc3339Timestamp l \<and> isUtcRfc3339Timestamp r \<longrightarrow>
    (\<exists>a b. UTC_RFC3339_FRACTION_PATTERN l = Some a \<and> UTC_RFC3339_FRACTION_PATTERN r = Some b \<and>
       (num_of (secondText a) < 60 \<longrightarrow> posix_instant a = (stamp_date a, stamp_time a)) \<and>
       (num_of (secondText b) < 60 \<longrightarrow> posix_instant b = (stamp_date b, stamp_time b)) \<and>
       compareUtcRfc3339Timestamps l r =
         Inr (if instant_less (posix_instant a) (posix_instant b) then - 1
              else if posix_instant a = posix_instant b then 0 else 1))) \<and>
   (\<not> (isUtcRfc3339Timestamp l \<and> isUtcRfc3339Timestamp r) \<longrightarrow> compareUtcRfc3339Timestamps l r = Inl ())"
proof (intro conjI impI)
  assume v: "isUtcRfc3339Timestamp l \<and> isUtcRfc3339Timestamp r"
  obtain a where a: "UTC_RFC3339_FRACTION_PATTERN l = Some a" "valid_date (stamp_date a)"
      "0 \<le> stamp_time a" "stamp_time a < day_nanos + 1000000000" "num_of (secondText a) < 60 \<Longrightarrow> stamp_time a < day_nanos"
      "utcRfc3339ToNanoseconds l = Inr (instant_nanos (stamp_date a, stamp_time a))"
    using timestamp_parts v by blast
  obtain b where b: "UTC_RFC3339_FRACTION_PATTERN r = Some b" "valid_date (stamp_date b)"
      "0 \<le> stamp_time b" "stamp_time b < day_nanos + 1000000000" "num_of (secondText b) < 60 \<Longrightarrow> stamp_time b < day_nanos"
      "utcRfc3339ToNanoseconds r = Inr (instant_nanos (stamp_date b, stamp_time b))"
    using timestamp_parts v by blast
  note pa = posix_instant_nanos [OF a(2-4)] and pb = posix_instant_nanos [OF b(2-4)]
  have "compareUtcRfc3339Timestamps l r =
      Inr (if instant_less (posix_instant a) (posix_instant b) then - 1
           else if posix_instant a = posix_instant b then 0 else 1)"
    using instant_nanos_compare [OF pa(1) pb(1)] by (auto simp: compareUtcRfc3339Timestamps_def a(6) b(6) pa(2) pb(2))
  moreover have "num_of (secondText a) < 60 \<longrightarrow> posix_instant a = (stamp_date a, stamp_time a)"
    "num_of (secondText b) < 60 \<longrightarrow> posix_instant b = (stamp_date b, stamp_time b)"
    using a(5) b(5) by (simp_all add: posix_instant_def)
  ultimately show "\<exists>a b. UTC_RFC3339_FRACTION_PATTERN l = Some a \<and> UTC_RFC3339_FRACTION_PATTERN r = Some b \<and>
       (num_of (secondText a) < 60 \<longrightarrow> posix_instant a = (stamp_date a, stamp_time a)) \<and>
       (num_of (secondText b) < 60 \<longrightarrow> posix_instant b = (stamp_date b, stamp_time b)) \<and>
       compareUtcRfc3339Timestamps l r =
         Inr (if instant_less (posix_instant a) (posix_instant b) then - 1
              else if posix_instant a = posix_instant b then 0 else 1)"
    using a(1) b(1) by blast
next
  assume "\<not> (isUtcRfc3339Timestamp l \<and> isUtcRfc3339Timestamp r)"
  then show "compareUtcRfc3339Timestamps l r = Inl ()"
    using timestamp_parts [of l] by (auto simp: compareUtcRfc3339Timestamps_def utcRfc3339ToNanoseconds_def split: option.splits)
qed

theorem compare_timestamps_chronological_witness:
  "compareUtcRfc3339Timestamps (lit ''2024-02-29T23:59:59.5Z'') (lit ''2024-03-01T00:00:00+00:00'') = Inr (- 1) \<and>
   compareUtcRfc3339Timestamps (lit ''2016-12-31T23:59:60Z'') (lit ''2017-01-01T00:00:00.000Z'') = Inr 0 \<and>
   compareUtcRfc3339Timestamps (lit ''2017-02-29T00:00:00Z'') (lit ''2017-03-01T00:00:00Z'') = Inl ()"
proof -
  let ?a = "lit ''2024-02-29T23:59:59.5Z''" and ?b = "lit ''2024-03-01T00:00:00+00:00''"
    and ?c = "lit ''2016-12-31T23:59:60Z''" and ?d = "lit ''2017-01-01T00:00:00.000Z''"
  have v: "isUtcRfc3339Timestamp ?a" "isUtcRfc3339Timestamp ?b" "isUtcRfc3339Timestamp ?c" "isUtcRfc3339Timestamp ?d"
    "\<not> isUtcRfc3339Timestamp (lit ''2017-02-29T00:00:00Z'')" by code_simp+
  have i: "map_option posix_instant (UTC_RFC3339_FRACTION_PATTERN ?a) = Some ((2024, 2, 29), 86399500000000)"
    "map_option posix_instant (UTC_RFC3339_FRACTION_PATTERN ?b) = Some ((2024, 3, 1), 0)"
    "map_option posix_instant (UTC_RFC3339_FRACTION_PATTERN ?c) = Some ((2017, 1, 1), 0)"
    "map_option posix_instant (UTC_RFC3339_FRACTION_PATTERN ?d) = Some ((2017, 1, 1), 0)" by code_simp+
  have "compareUtcRfc3339Timestamps ?a ?b = Inr (- 1)"
    using compare_timestamps_chronological [of ?a ?b] v i by (auto simp: instant_less_def date_less_def)
  moreover have "compareUtcRfc3339Timestamps ?c ?d = Inr 0"
    using compare_timestamps_chronological [of ?c ?d] v i by (auto simp: instant_less_def date_less_def)
  ultimately show ?thesis
    using compare_timestamps_chronological [of "lit ''2017-02-29T00:00:00Z''" "lit ''2017-03-01T00:00:00Z''"] v by simp
qed

text \<open>So a time within a leap second compares as later than times of the day that follows it, although
  it is earlier.\<close>

theorem leap_second_compares_late:
  "compareUtcRfc3339Timestamps (lit ''2016-12-31T23:59:60.5Z'') (lit ''2017-01-01T00:00:00.2Z'') = Inr 1"
  by code_simp

end
