(* ===== verification/Lifecycle_Log.thy ===== *)
theory Lifecycle_Log
  imports Timestamps Canonical_Identity
begin

text \<open>
  The evidence lifecycle boundary of the control plane
  (\<^verbatim>\<open>apps/control-plane/src/index.ts\<close>, classification of stored objects, the append-only
  lifecycle log, opt-in retention, scoped access and the minimization projection). Schema
  validation and the \<^verbatim>\<open>canonicalize\<close> package are parameters; a call that may throw answers
  with a sum, \<open>Inl ()\<close> being the exception.
\<close>

section \<open>The environment of the control plane\<close>

datatype jcs_result = JcsText ustr | JcsUndefined | JcsThrow

text \<open>\<open>schema_valid E i v\<close>: \<^verbatim>\<open>validateProtocolSchema(i, v)\<close> reports no error (the schemas are
  generated data). \<open>jcs\<close> is the \<^verbatim>\<open>canonicalize\<close> package.\<close>

record control_env =
  schema_valid :: "string \<Rightarrow> jsval \<Rightarrow> bool"
  jcs :: "jsval \<Rightarrow> jcs_result"

definition stableEquals :: "('a control_env_scheme) \<Rightarrow> jsval \<Rightarrow> jsval \<Rightarrow> unit + bool" where
  "stableEquals E left right =
     (case jcs E left of
        JcsThrow \<Rightarrow> Inl ()
      | l \<Rightarrow> (case jcs E right of
            JcsThrow \<Rightarrow> Inl ()
          | r \<Rightarrow> Inr (case l of JcsText s \<Rightarrow> r = JcsText s | _ \<Rightarrow> False)))"

text \<open>\<open>structuredClone\<close> throws on functions and symbols, at any depth.\<close>

fun cloneable :: "jsval \<Rightarrow> bool" where
  "cloneable (JArr vs) = (\<forall>v \<in> set vs. cloneable v)"
| "cloneable (JObj kvs) = (\<forall>p \<in> set kvs. cloneable (snd p))"
| "cloneable JOther = False"
| "cloneable _ = True"

definition cloneJson :: "jsval \<Rightarrow> jsval option" where
  "cloneJson v = (if cloneable v then Some v else None)"

text \<open>Membership in a \<^verbatim>\<open>Set\<close> and in an array of strings.\<close>

definition js_includes :: "jsval list \<Rightarrow> jsval \<Rightarrow> bool" where
  "js_includes vs v \<longleftrightarrow> list_ex (strict_eq v) vs"

definition one_of :: "string list \<Rightarrow> jsval \<Rightarrow> bool" where
  "one_of ss v \<longleftrightarrow> js_includes (map jstr ss) v"

definition is_sequence_number :: "jsval \<Rightarrow> bool" where
  "is_sequence_number v \<longleftrightarrow> is_safe_integer v \<and> 0 \<le> the_int v"

section \<open>Stored object classification\<close>

datatype storedObjectRejection = SO_schema_invalid | SO_forbidden_source_class | SO_opt_in_not_allowed

datatype storedObjectResult = Classified jsval | SO_rejected storedObjectRejection

definition NON_SOURCE_OBJECT_KINDS :: "string list" where
  "NON_SOURCE_OBJECT_KINDS = [''log_or_trace'', ''analytics_record'', ''crash_report'', ''support_attachment'']"

definition NON_SOURCE_ALLOWED_CLASSES :: "string list" where
  "NON_SOURCE_ALLOWED_CLASSES = [''never_collected'', ''retained_review_artifact'']"

definition SENSITIVE_SOURCE_CLASSES :: "string list" where
  "SENSITIVE_SOURCE_CLASSES = [''transient_source_derived'', ''customer_opt_in_retained_source'']"

definition LIFECYCLE_CLASS_BEARING_EVENT_TYPES :: "string list" where
  "LIFECYCLE_CLASS_BEARING_EVENT_TYPES = [''evidence_deleted'', ''retention_status_changed'']"

definition EVIDENCE_ACCESS_ROLES :: "string list" where
  "EVIDENCE_ACCESS_ROLES = [''customer_admin'', ''customer_viewer'', ''codeattest_reviewer'', ''codeattest_ops'',
     ''evidence_consumer_static'']"

definition REAL_SNIPPET_READY_PROFILE :: jsval where
  "REAL_SNIPPET_READY_PROFILE = jstr ''partner_pilot_real_snippet_ready''"

definition classifyStoredObject :: "('a control_env_scheme) \<Rightarrow> jsval \<Rightarrow> storedObjectResult" where
  "classifyStoredObject E candidate =
     (if \<not> is_record candidate then SO_rejected SO_schema_invalid
      else if one_of NON_SOURCE_OBJECT_KINDS (field candidate ''object_kind'')
              \<and> \<not> one_of NON_SOURCE_ALLOWED_CLASSES (field candidate ''source_derived_class'')
        then SO_rejected SO_forbidden_source_class
      else if field candidate ''source_derived_class'' = jstr ''customer_opt_in_retained_source''
              \<and> field candidate ''environment_profile'' \<noteq> REAL_SNIPPET_READY_PROFILE
        then SO_rejected SO_opt_in_not_allowed
      else if \<not> schema_valid E ''urn:codeattest:protocol:v0:stored-object-classification'' candidate
        then SO_rejected SO_schema_invalid
      else (case cloneJson candidate of
          None \<Rightarrow> SO_rejected SO_schema_invalid
        | Some c \<Rightarrow> Classified c))"

section \<open>The lifecycle log\<close>

datatype lifecycleRejection =
    Evidence_event_schema_invalid | Evidence_event_not_append_only
  | Deletion_event_missing_deletion_evidence | Deletion_event_deletion_evidence_unresolved
  | Access_event_missing_scope | Access_event_scope_mismatch
  | Evidence_event_missing_source_derived_class | Evidence_event_review_id_mismatch
  | Retention_event_missing_retention_record | Retention_event_record_unresolved

datatype lifecycleResult =
    LC_appended "jsval list" | LC_noop "jsval list" | LC_rejected lifecycleRejection "jsval list"

abbreviation lifecycle_schema :: string where
  "lifecycle_schema \<equiv> ''urn:codeattest:protocol:v0:evidence-lifecycle-event''"

text \<open>Reading \<^verbatim>\<open>event.access_scope.review_scope\<close> throws when the scope is \<^verbatim>\<open>null\<close>.\<close>

definition rejectionForLifecycleEvent :: "jsval \<Rightarrow> unit + lifecycleRejection option" where
  "rejectionForLifecycleEvent event =
     (let ty = field event ''event_type''; sc = field event ''access_scope'' in
      if ty = jstr ''evidence_deleted'' \<and> field event ''deletion_evidence_ref'' = JUndef then
        Inr (Some Deletion_event_missing_deletion_evidence)
      else if ty = jstr ''evidence_accessed'' \<and> sc = JUndef then Inr (Some Access_event_missing_scope)
      else if ty = jstr ''evidence_accessed'' \<and> sc = JNull then Inl ()
      else if ty = jstr ''evidence_accessed'' \<and> \<not> strict_eq (field sc ''review_scope'') (field event ''review_id'') then
        Inr (Some Access_event_scope_mismatch)
      else if one_of LIFECYCLE_CLASS_BEARING_EVENT_TYPES ty \<and> field event ''source_derived_class'' = JUndef then
        Inr (Some Evidence_event_missing_source_derived_class)
      else Inr None)"

definition retention_companion ::
  "('a control_env_scheme) \<Rightarrow> jsval \<Rightarrow> jsval \<Rightarrow> unit + lifecycleRejection option" where
  "retention_companion E event context =
     (if field event ''event_type'' = jstr ''retention_status_changed''
         \<and> field event ''source_derived_class'' = jstr ''customer_opt_in_retained_source'' then
        (if field event ''retention_record_ref'' = JUndef then Inr (Some Retention_event_missing_retention_record)
         else
          (case filter (\<lambda>r. is_record r \<and> schema_valid E ''urn:codeattest:protocol:v0:retention-opt-in-record'' r
                   \<and> strict_eq (field r ''retention_record_id'') (field event ''retention_record_ref''))
                 (the_array (field context ''retention_opt_in_records'')) of
             [r] \<Rightarrow>
               if field r ''source_derived_class'' \<noteq> jstr ''customer_opt_in_retained_source'' then
                 Inr (Some Retention_event_record_unresolved)
               else if \<not> is_array (field event ''artifact_refs'') then Inl ()
               else if \<not> list_all (js_includes (the_array (field r ''retained_artifact_refs'')))
                          (the_array (field event ''artifact_refs'')) then
                 Inr (Some Retention_event_record_unresolved)
               else
                 (case (parseUtcTimestampNs (field (field r ''retention_period'') ''start_timestamp''),
                        parseUtcTimestampNs (field (field r ''retention_period'') ''end_timestamp''),
                        parseUtcTimestampNs (field event ''event_timestamp'')) of
                    (Some start, Some end_ts, Some at) \<Rightarrow>
                      if at < start \<or> at > end_ts then Inr (Some Retention_event_record_unresolved) else Inr None
                  | _ \<Rightarrow> Inr (Some Retention_event_record_unresolved))
           | _ \<Rightarrow> Inr (Some Retention_event_record_unresolved)))
      else Inr None)"

definition deletion_companion ::
  "('a control_env_scheme) \<Rightarrow> jsval \<Rightarrow> jsval \<Rightarrow> unit + lifecycleRejection option" where
  "deletion_companion E event context =
     (if field event ''event_type'' = jstr ''evidence_deleted'' \<and> field event ''deletion_evidence_ref'' \<noteq> JUndef then
        (case filter (\<lambda>d. is_record d \<and> schema_valid E ''urn:codeattest:protocol:v0:deletion-evidence'' d
                 \<and> strict_eq (field d ''deletion_evidence_id'') (field event ''deletion_evidence_ref''))
               (the_array (field context ''deletion_evidence'')) of
           [d] \<Rightarrow>
             if field d ''verification_status'' \<noteq> jstr ''verified'' then
               Inr (Some Deletion_event_deletion_evidence_unresolved)
             else sbind (stableEquals E (field d ''actor'') (field event ''actor'')) (\<lambda>same.
               if \<not> same then Inr (Some Deletion_event_deletion_evidence_unresolved)
               else (case (parseUtcTimestampNs (field d ''deletion_timestamp''), parseUtcTimestampNs (field event ''event_timestamp'')) of
                   (Some x, Some y) \<Rightarrow> if x \<noteq> y then Inr (Some Deletion_event_deletion_evidence_unresolved) else Inr None
                 | _ \<Rightarrow> Inr (Some Deletion_event_deletion_evidence_unresolved)))
         | _ \<Rightarrow> Inr (Some Deletion_event_deletion_evidence_unresolved))
      else Inr None)"

definition rejectionForLifecycleEventCompanions ::
  "('a control_env_scheme) \<Rightarrow> jsval \<Rightarrow> jsval \<Rightarrow> unit + lifecycleRejection option" where
  "rejectionForLifecycleEventCompanions E event context =
     sbind (retention_companion E event context) (\<lambda>r.
     (case r of Some reason \<Rightarrow> Inr (Some reason) | None \<Rightarrow> deletion_companion E event context))"

record history_acc =
  h_ids :: "jsval list"
  h_keys :: "jsval list"
  h_sequence :: int
  h_reviewId :: jsval

fun history_loop ::
  "('a control_env_scheme) \<Rightarrow> jsval list \<Rightarrow> history_acc \<Rightarrow> unit + lifecycleRejection option" where
  "history_loop E [] h = Inr None"
| "history_loop E (event # events) h =
     (if \<not> is_record event \<or> \<not> schema_valid E lifecycle_schema event then Inr (Some Evidence_event_schema_invalid)
      else sbind (rejectionForLifecycleEvent event) (\<lambda>r. case r of
          Some reason \<Rightarrow> Inr (Some reason)
        | None \<Rightarrow>
            if \<not> is_sequence_number (field event ''sequence_number'')
               \<or> the_int (field event ''sequence_number'') \<le> h_sequence h then Inr (Some Evidence_event_not_append_only)
            else if js_includes (h_ids h) (field event ''event_id'')
               \<or> js_includes (h_keys h) (field event ''idempotency_key'') then Inr (Some Evidence_event_not_append_only)
            else if field event ''supersedes_event_id'' \<noteq> JUndef
               \<and> (strict_eq (field event ''supersedes_event_id'') (field event ''event_id'')
                  \<or> \<not> js_includes (h_ids h) (field event ''supersedes_event_id''))
              then Inr (Some Evidence_event_not_append_only)
            else if h_reviewId h \<noteq> JUndef \<and> \<not> strict_eq (field event ''review_id'') (h_reviewId h) then
              Inr (Some Evidence_event_review_id_mismatch)
            else history_loop E events
              \<lparr>h_ids = h_ids h @ [field event ''event_id''], h_keys = h_keys h @ [field event ''idempotency_key''],
               h_sequence = the_int (field event ''sequence_number''),
               h_reviewId = (if h_reviewId h = JUndef then field event ''review_id'' else h_reviewId h)\<rparr>))"

definition evidenceLifecycleHistoryRejection ::
  "('a control_env_scheme) \<Rightarrow> jsval list \<Rightarrow> unit + lifecycleRejection option" where
  "evidenceLifecycleHistoryRejection E events =
     history_loop E events \<lparr>h_ids = [], h_keys = [], h_sequence = - 1, h_reviewId = JUndef\<rparr>"

definition appendEvidenceLifecycleEvent ::
  "('a control_env_scheme) \<Rightarrow> jsval \<Rightarrow> jsval \<Rightarrow> jsval \<Rightarrow> unit + lifecycleResult" where
  "appendEvidenceLifecycleEvent E eventsInput event context =
     (if \<not> is_array eventsInput \<or> cloneJson eventsInput = None then
        Inr (LC_rejected Evidence_event_schema_invalid [])
      else
        (let events = the_array eventsInput in
         sbind (evidenceLifecycleHistoryRejection E events) (\<lambda>hist. case hist of
           Some reason \<Rightarrow> Inr (LC_rejected reason events)
         | None \<Rightarrow>
           if \<not> is_record event then Inr (LC_rejected Evidence_event_schema_invalid events)
           else if events \<noteq> [] \<and> field (hd events) ''review_id'' \<noteq> JUndef
                   \<and> \<not> strict_eq (field event ''review_id'') (field (hd events) ''review_id'') then
             Inr (LC_rejected Evidence_event_review_id_mismatch events)
           else
             (case find_first (\<lambda>x. strict_eq (field x ''idempotency_key'') (field event ''idempotency_key'')) events of
                Some sameKey \<Rightarrow>
                  sbind (stableEquals E sameKey event) (\<lambda>same.
                  if \<not> same then Inr (LC_rejected Evidence_event_not_append_only events)
                  else sbind (rejectionForLifecycleEventCompanions E event context) (\<lambda>r.
                    Inr (case r of Some reason \<Rightarrow> LC_rejected reason events | None \<Rightarrow> LC_noop events)))
              | None \<Rightarrow>
                  if list_ex (\<lambda>x. strict_eq (field x ''event_id'') (field event ''event_id'')) events then
                    Inr (LC_rejected Evidence_event_not_append_only events)
                  else if \<not> is_sequence_number (field event ''sequence_number'') then
                    Inr (LC_rejected Evidence_event_schema_invalid events)
                  else if list_ex (\<lambda>x. the_int (field x ''sequence_number'') \<ge> the_int (field event ''sequence_number'')) events then
                    Inr (LC_rejected Evidence_event_not_append_only events)
                  else if field event ''supersedes_event_id'' \<noteq> JUndef
                     \<and> (strict_eq (field event ''supersedes_event_id'') (field event ''event_id'')
                        \<or> \<not> list_ex (\<lambda>x. strict_eq (field x ''event_id'') (field event ''supersedes_event_id'')) events) then
                    Inr (LC_rejected Evidence_event_not_append_only events)
                  else sbind (rejectionForLifecycleEvent event) (\<lambda>g. case g of
                      Some reason \<Rightarrow> Inr (LC_rejected reason events)
                    | None \<Rightarrow>
                        if \<not> schema_valid E lifecycle_schema event then Inr (LC_rejected Evidence_event_schema_invalid events)
                        else sbind (rejectionForLifecycleEventCompanions E event context) (\<lambda>c. case c of
                            Some reason \<Rightarrow> Inr (LC_rejected reason events)
                          | None \<Rightarrow> (case cloneJson event of
                                None \<Rightarrow> Inr (LC_rejected Evidence_event_schema_invalid events)
                              | Some appended \<Rightarrow> Inr (LC_appended (events @ [appended])))))))))"

section \<open>Opt-in retention\<close>

datatype retentionOptInRejection = RO_schema_invalid | RO_not_allowed | RO_period_invalid

datatype retentionOptInResult = RO_recorded jsval | RO_rejected retentionOptInRejection

definition recordOptInRetention :: "('a control_env_scheme) \<Rightarrow> jsval \<Rightarrow> jsval \<Rightarrow> retentionOptInResult" where
  "recordOptInRetention E r environmentProfile =
     (if \<not> is_record r then RO_rejected RO_schema_invalid
      else if \<not> strict_eq environmentProfile REAL_SNIPPET_READY_PROFILE then RO_rejected RO_not_allowed
      else
        (let period = field r ''retention_period'' in
         if \<not> (is_record period \<or> is_array period) \<or> \<not> is_string (field period ''start_timestamp'')
            \<or> \<not> is_string (field period ''end_timestamp'') then RO_rejected RO_schema_invalid
         else
           (case (parseUtcTimestampNs (field period ''start_timestamp''), parseUtcTimestampNs (field period ''end_timestamp'')) of
              (Some start, Some end_ts) \<Rightarrow>
                if end_ts \<le> start then RO_rejected RO_period_invalid
                else if \<not> schema_valid E ''urn:codeattest:protocol:v0:retention-opt-in-record'' r then
                  RO_rejected RO_schema_invalid
                else (case cloneJson r of None \<Rightarrow> RO_rejected RO_schema_invalid | Some c \<Rightarrow> RO_recorded c)
            | _ \<Rightarrow> RO_rejected RO_period_invalid)))"

section \<open>Scoped access\<close>

datatype accessDenial =
    Access_request_invalid | Access_denied_out_of_scope | Access_denied_role_not_permitted | Access_event_not_appendable

datatype accessResult = Access_allowed jsval "jsval list" | Access_denied accessDenial "jsval list"

fun nextSequenceNumber_loop :: "jsval list \<Rightarrow> int \<Rightarrow> unit + int" where
  "nextSequenceNumber_loop [] highest = Inr highest"
| "nextSequenceNumber_loop (event # events) highest =
     (if \<not> is_sequence_number (field event ''sequence_number'') then Inl ()
      else nextSequenceNumber_loop events (max highest (the_int (field event ''sequence_number''))))"

definition nextSequenceNumber :: "jsval list \<Rightarrow> unit + int" where
  "nextSequenceNumber events =
     sbind (nextSequenceNumber_loop events (- 1)) (\<lambda>highest.
     if highest = MAX_SAFE_INTEGER then Inl () else Inr (highest + 1))"

definition access_event :: "jsval \<Rightarrow> jsval \<Rightarrow> jsval" where
  "access_event request seq_no =
     JObj ([(lit ''protocol_version'', jstr ''codeattest.v0''),
            (lit ''event_id'', field request ''event_id''),
            (lit ''review_id'', field request ''review_scope''),
            (lit ''sequence_number'', seq_no),
            (lit ''idempotency_key'', field request ''idempotency_key''),
            (lit ''event_type'', jstr ''evidence_accessed''),
            (lit ''actor'', field request ''actor''),
            (lit ''event_timestamp'', field request ''event_timestamp''),
            (lit ''artifact_refs'', JArr [field (field request ''artifact'') ''artifact_ref'']),
            (lit ''source_derived_class'', field (field request ''artifact'') ''source_derived_class''),
            (lit ''access_scope'', JObj [(lit ''tenant_id'', field request ''tenant_id''),
               (lit ''review_scope'', field request ''review_scope'')])]
           @ (if field request ''purpose'' = JUndef then [] else [(lit ''purpose'', field request ''purpose'')]))"

definition enforceScopedAccess :: "('a control_env_scheme) \<Rightarrow> jsval \<Rightarrow> jsval \<Rightarrow> unit + accessResult" where
  "enforceScopedAccess E eventsInput request =
     (if \<not> is_array eventsInput \<or> \<not> list_all is_record (the_array eventsInput) \<or> cloneJson eventsInput = None then
        Inr (Access_denied Access_request_invalid [])
      else
        (let events = the_array eventsInput; artifact = field request ''artifact'' in
         if \<not> is_record request \<or> \<not> is_record artifact \<or> \<not> is_record (field request ''actor'') then
           Inr (Access_denied Access_request_invalid events)
         else if \<not> one_of EVIDENCE_ACCESS_ROLES (field request ''role'') then
           Inr (Access_denied Access_denied_role_not_permitted events)
         else if \<not> is_non_empty_string (field request ''tenant_id'') \<or> \<not> is_non_empty_string (field request ''review_scope'') then
           Inr (Access_denied Access_request_invalid events)
         else if \<not> strict_eq (field artifact ''tenant_id'') (field request ''tenant_id'')
                 \<or> \<not> strict_eq (field artifact ''review_scope'') (field request ''review_scope'') then
           Inr (Access_denied Access_denied_out_of_scope events)
         else if field request ''role'' = jstr ''evidence_consumer_static''
                 \<and> one_of SENSITIVE_SOURCE_CLASSES (field artifact ''source_derived_class'') then
           Inr (Access_denied Access_denied_role_not_permitted events)
         else
           (case (case find_first (\<lambda>x. strict_eq (field x ''idempotency_key'') (field request ''idempotency_key'')) events of
                    None \<Rightarrow> map_sum id jint (nextSequenceNumber events)
                  | Some recorded \<Rightarrow> Inr (field recorded ''sequence_number'')) of
              Inl _ \<Rightarrow> Inr (Access_denied Access_event_not_appendable events)
            | Inr seq_no \<Rightarrow>
                sbind (appendEvidenceLifecycleEvent E (JArr events) (access_event request seq_no) (JObj [])) (\<lambda>appended.
                Inr (case appended of
                    LC_rejected _ _ \<Rightarrow> Access_denied Access_event_not_appendable events
                  | LC_appended events' \<Rightarrow>
                      (case cloneJson (access_event request seq_no) of
                         None \<Rightarrow> Access_denied Access_request_invalid events
                       | Some emitted \<Rightarrow> Access_allowed emitted events')
                  | LC_noop events' \<Rightarrow>
                      (case cloneJson (access_event request seq_no) of
                         None \<Rightarrow> Access_denied Access_request_invalid events
                       | Some emitted \<Rightarrow> Access_allowed emitted events'))))))"

section \<open>The minimization projection\<close>

datatype minimizationRejection =
    MP_schema_invalid | MP_category_class_mismatch | MP_deleted_without_evidence
  | MP_deletion_evidence_unresolved | MP_artifact_category_conflict

definition MINIMIZATION_CATEGORY_SOURCE_CLASS :: "(jsval \<times> jsval) list" where
  "MINIMIZATION_CATEGORY_SOURCE_CLASS =
     [(jstr ''retained_finding'', jstr ''retained_review_artifact''),
      (jstr ''retained_metadata'', jstr ''retained_review_artifact''),
      (jstr ''retained_attestation'', jstr ''retained_review_artifact''),
      (jstr ''retained_customer_opt_in_snippet'', jstr ''customer_opt_in_retained_source''),
      (jstr ''deleted_transient'', jstr ''transient_source_derived''),
      (jstr ''never_collected'', jstr ''never_collected'')]"

text \<open>Lookup in a \<^verbatim>\<open>Map\<close> whose keys come from unchecked input.\<close>

definition js_map_get :: "(jsval \<times> jsval) list \<Rightarrow> jsval \<Rightarrow> jsval option" where
  "js_map_get m k = map_option snd (find_first (\<lambda>p. strict_eq (fst p) k) m)"

definition everyDeletionEvidenceItemIsSchemaValid :: "('a control_env_scheme) \<Rightarrow> jsval list \<Rightarrow> bool" where
  "everyDeletionEvidenceItemIsSchemaValid E items =
     list_all (\<lambda>i. is_record i \<and> schema_valid E ''urn:codeattest:protocol:v0:deletion-evidence'' i) items"

fun minimization_loop :: "jsval list \<Rightarrow> jsval list \<Rightarrow> (jsval \<times> jsval) list \<Rightarrow> minimizationRejection option" where
  "minimization_loop known [] cats = None"
| "minimization_loop known (entry # entries) cats =
     (if \<not> (is_record entry \<or> is_array entry) then Some MP_schema_invalid
      else
        (let category = field entry ''minimization_category''; ref = field entry ''artifact_ref'' in
         if (case js_map_get MINIMIZATION_CATEGORY_SOURCE_CLASS category of
               None \<Rightarrow> True | Some cls \<Rightarrow> field entry ''source_derived_class'' \<noteq> cls) then Some MP_category_class_mismatch
         else if (case js_map_get cats ref of None \<Rightarrow> False | Some prior \<Rightarrow> prior \<noteq> category) then
           Some MP_artifact_category_conflict
         else if category = jstr ''deleted_transient'' \<and> field entry ''deletion_evidence_ref'' = JUndef then
           Some MP_deleted_without_evidence
         else if category = jstr ''deleted_transient'' \<and> \<not> js_includes known (field entry ''deletion_evidence_ref'') then
           Some MP_deletion_evidence_unresolved
         else minimization_loop known entries (cats @ [(ref, category)])))"

definition buildEvidenceMinimizationProjection ::
  "('a control_env_scheme) \<Rightarrow> jsval \<Rightarrow> jsval \<Rightarrow> minimizationRejection + jsval" where
  "buildEvidenceMinimizationProjection E input deletionEvidence =
     (if \<not> is_record input \<or> \<not> is_array (field input ''entries'') then Inl MP_schema_invalid
      else if \<not> is_array deletionEvidence
              \<or> \<not> everyDeletionEvidenceItemIsSchemaValid E (the_array deletionEvidence) then Inl MP_schema_invalid
      else
        (case minimization_loop (map (\<lambda>e. field e ''deletion_evidence_id'') (the_array deletionEvidence))
                (the_array (field input ''entries'')) [] of
           Some reason \<Rightarrow> Inl reason
         | None \<Rightarrow>
             (let projection = JObj [(lit ''protocol_version'', field input ''protocol_version''),
                    (lit ''review_id'', field input ''review_id''), (lit ''entries'', field input ''entries'')] in
              case cloneJson projection of
                None \<Rightarrow> Inl MP_schema_invalid
              | Some cloned \<Rightarrow>
                  if \<not> schema_valid E ''urn:codeattest:protocol:v0:evidence-minimization-projection'' projection then
                    Inl MP_schema_invalid
                  else Inr cloned)))"

section \<open>Validated histories\<close>

definition history_add :: "history_acc \<Rightarrow> jsval \<Rightarrow> history_acc" where
  "history_add h event =
     \<lparr>h_ids = h_ids h @ [field event ''event_id''], h_keys = h_keys h @ [field event ''idempotency_key''],
      h_sequence = the_int (field event ''sequence_number''),
      h_reviewId = (if h_reviewId h = JUndef then field event ''review_id'' else h_reviewId h)\<rparr>"

definition history_start :: history_acc where
  "history_start = \<lparr>h_ids = [], h_keys = [], h_sequence = - 1, h_reviewId = JUndef\<rparr>"

text \<open>What the validation of one more event requires, given the accumulator of those before it.\<close>

definition history_admits :: "('a control_env_scheme) \<Rightarrow> history_acc \<Rightarrow> jsval \<Rightarrow> bool" where
  "history_admits E h event \<longleftrightarrow> is_record event \<and> schema_valid E lifecycle_schema event \<and>
     rejectionForLifecycleEvent event = Inr None \<and> is_sequence_number (field event ''sequence_number'') \<and>
     h_sequence h < the_int (field event ''sequence_number'') \<and>
     \<not> js_includes (h_ids h) (field event ''event_id'') \<and> \<not> js_includes (h_keys h) (field event ''idempotency_key'') \<and>
     (field event ''supersedes_event_id'' = JUndef \<or>
      (\<not> strict_eq (field event ''supersedes_event_id'') (field event ''event_id'') \<and>
       js_includes (h_ids h) (field event ''supersedes_event_id''))) \<and>
     (h_reviewId h = JUndef \<or> strict_eq (field event ''review_id'') (h_reviewId h))"

text \<open>A chain of guards answers ``no rejection'' exactly when every guard is passed; the lemmas keep
  such a chain a conjunction instead of splitting it into one case per guard.\<close>

lemma guard_passed:
  "(if c then Inr (Some r) else x) = Inr None \<longleftrightarrow> \<not> c \<and> x = Inr None"
  by simp

lemma guard_call_passed:
  "sbind m (\<lambda>r. case r of Some reason \<Rightarrow> Inr (Some reason) | None \<Rightarrow> x) = Inr None \<longleftrightarrow> m = Inr None \<and> x = Inr None"
  by (cases m) (auto split: option.splits)

lemmas guards = guard_passed guard_call_passed

lemma history_loop_Cons:
  "history_loop E (e # es) h = Inr None \<longleftrightarrow> history_admits E h e \<and> history_loop E es (history_add h e) = Inr None"
  by (simp only: history_loop.simps guards history_admits_def history_add_def not_less de_Morgan_disj de_Morgan_conj
        not_not not_le conj_assoc)

declare history_loop.simps(2) [simp del]

lemma history_loop_append:
  "history_loop E (es @ [e]) h = Inr None \<longleftrightarrow>
   history_loop E es h = Inr None \<and> history_admits E (foldl history_add h es) e"
  by (induction es arbitrary: h) (auto simp: history_loop_Cons)

lemma history_foldl:
  "h_ids (foldl history_add h es) = h_ids h @ map (\<lambda>e. field e ''event_id'') es"
  "h_keys (foldl history_add h es) = h_keys h @ map (\<lambda>e. field e ''idempotency_key'') es"
  "h_sequence (foldl history_add h es) = (if es = [] then h_sequence h else the_int (field (last es) ''sequence_number''))"
  by (induction es arbitrary: h) (auto simp: history_add_def)

definition lifecycle_history :: "('a control_env_scheme) \<Rightarrow> jsval list \<Rightarrow> bool" where
  "lifecycle_history E es \<longleftrightarrow> evidenceLifecycleHistoryRejection E es = Inr None"

lemma lifecycle_history_Nil [simp]: "lifecycle_history E []"
  by (simp add: lifecycle_history_def evidenceLifecycleHistoryRejection_def)

lemma lifecycle_history_snoc:
  "lifecycle_history E (es @ [e]) \<longleftrightarrow> lifecycle_history E es \<and> history_admits E (foldl history_add history_start es) e"
  by (simp add: lifecycle_history_def evidenceLifecycleHistoryRejection_def history_loop_append history_start_def)

lemma lifecycle_historyD:
  assumes "lifecycle_history E es" "e \<in> set es"
  shows "is_record e \<and> schema_valid E lifecycle_schema e \<and> is_sequence_number (field e ''sequence_number'')"
  using assms by (induction es rule: rev_induct) (auto simp: lifecycle_history_snoc history_admits_def)

lemma lifecycle_history_sequences:
  "lifecycle_history E es \<Longrightarrow> sorted_wrt (<) (map (\<lambda>e. the_int (field e ''sequence_number'')) es)"
proof (induction es rule: rev_induct)
  case (snoc e es)
  then have s: "sorted_wrt (<) (map (\<lambda>e. the_int (field e ''sequence_number'')) es)"
    and a: "history_admits E (foldl history_add history_start es) e" by (simp_all add: lifecycle_history_snoc)
  show ?case
  proof (cases es rule: rev_cases)
    case (snoc es' e')
    with a have "the_int (field e' ''sequence_number'') < the_int (field e ''sequence_number'')"
      by (simp add: history_admits_def history_add_def)
    with s snoc show ?thesis by (auto simp: sorted_wrt_append)
  qed simp
qed simp

section \<open>Appending\<close>

text \<open>The schema of lifecycle events requires \<^verbatim>\<open>review_id\<close> to be a string.\<close>

definition review_ids_are_strings :: "('a control_env_scheme) \<Rightarrow> bool" where
  "review_ids_are_strings E \<longleftrightarrow> (\<forall>v. schema_valid E lifecycle_schema v \<longrightarrow> is_string (field v ''review_id''))"

lemma history_reviewId:
  assumes "lifecycle_history E es" "review_ids_are_strings E"
  shows "h_reviewId (foldl history_add history_start es) = (if es = [] then JUndef else field (hd es) ''review_id'')"
  using assms(1)
proof (induction es rule: rev_induct)
  case (snoc e es)
  then have IH: "h_reviewId (foldl history_add history_start es) = (if es = [] then JUndef else field (hd es) ''review_id'')"
    by (simp add: lifecycle_history_snoc)
  have "is_string (field x ''review_id'')" if "x \<in> set es" for x
    using that snoc.prems assms(2) lifecycle_historyD [of E es x] by (simp add: lifecycle_history_snoc review_ids_are_strings_def)
  then have "es \<noteq> [] \<Longrightarrow> is_string (field (hd es) ''review_id'')" by simp
  then have "es \<noteq> [] \<Longrightarrow> field (hd es) ''review_id'' \<noteq> JUndef" by auto
  with IH have "h_reviewId (foldl history_add history_start es) = JUndef \<longleftrightarrow> es = []" by simp
  with IH show ?case by (simp add: history_add_def [of "foldl history_add history_start es"])
qed (simp add: history_start_def)

definition append_admits :: "('a control_env_scheme) \<Rightarrow> jsval list \<Rightarrow> jsval \<Rightarrow> bool" where
  "append_admits E es e \<longleftrightarrow> is_record e \<and> schema_valid E lifecycle_schema e \<and> rejectionForLifecycleEvent e = Inr None \<and>
     is_sequence_number (field e ''sequence_number'') \<and>
     (\<forall>x \<in> set es. the_int (field x ''sequence_number'') < the_int (field e ''sequence_number'') \<and>
        \<not> strict_eq (field x ''event_id'') (field e ''event_id'') \<and>
        \<not> strict_eq (field x ''idempotency_key'') (field e ''idempotency_key'')) \<and>
     (field e ''supersedes_event_id'' = JUndef \<or>
      (\<not> strict_eq (field e ''supersedes_event_id'') (field e ''event_id'') \<and>
       (\<exists>x \<in> set es. strict_eq (field x ''event_id'') (field e ''supersedes_event_id'')))) \<and>
     (es = [] \<or> field (hd es) ''review_id'' = JUndef \<or> strict_eq (field e ''review_id'') (field (hd es) ''review_id''))"

lemma append_admits_history:
  assumes h: "lifecycle_history E es" and st: "review_ids_are_strings E" and a: "append_admits E es e"
  shows "lifecycle_history E (es @ [e])"
proof -
  let ?h = "foldl history_add history_start es"
  have ids: "h_ids ?h = map (\<lambda>e. field e ''event_id'') es" "h_keys ?h = map (\<lambda>e. field e ''idempotency_key'') es"
    by (simp_all add: history_foldl history_start_def)
  have "h_sequence ?h < the_int (field e ''sequence_number'')"
    using a by (cases "es = []") (auto simp: history_foldl history_start_def append_admits_def is_sequence_number_def)
  moreover have "h_reviewId ?h = JUndef \<or> strict_eq (field e ''review_id'') (h_reviewId ?h)"
    using a history_reviewId [OF h st] by (auto simp: append_admits_def)
  ultimately have "history_admits E ?h e"
    using a strict_eq_sym by (auto simp: history_admits_def append_admits_def ids js_includes_def list_ex_iff)
  with h show ?thesis by (simp add: lifecycle_history_snoc)
qed

text \<open>The three ways an append that does not throw can end.\<close>

lemma appended_guards:
  "(if c then Inr (LC_rejected r es) else x) = Inr (LC_appended out) \<longleftrightarrow> \<not> c \<and> x = Inr (LC_appended out)"
  "sbind m (\<lambda>r. case r of Some reason \<Rightarrow> Inr (LC_rejected reason es) | None \<Rightarrow> x) = Inr (LC_appended out) \<longleftrightarrow>
   m = Inr None \<and> x = Inr (LC_appended out)"
  "(case q of Some k \<Rightarrow> sbind (n k) (\<lambda>same. if \<not> same then Inr (LC_rejected r es)
      else sbind m (\<lambda>r. Inr (case r of Some reason \<Rightarrow> LC_rejected reason es | None \<Rightarrow> LC_noop es))) | None \<Rightarrow> x)
    = Inr (LC_appended out) \<longleftrightarrow> q = None \<and> x = Inr (LC_appended out)"
  "(case cl of None \<Rightarrow> Inr (LC_rejected r es) | Some a \<Rightarrow> Inr (LC_appended (es @ [a]))) = Inr (LC_appended out) \<longleftrightarrow>
   (\<exists>a. cl = Some a \<and> out = es @ [a])"
  by (auto split: option.splits if_splits)

lemma append_appendedD:
  assumes "appendEvidenceLifecycleEvent E ev e c = Inr (LC_appended out)"
  shows "is_array ev \<and> out = the_array ev @ [e] \<and> lifecycle_history E (the_array ev) \<and>
    append_admits E (the_array ev) e \<and> rejectionForLifecycleEventCompanions E e c = Inr None \<and> cloneable e"
proof -
  note f = assms [unfolded appendEvidenceLifecycleEvent_def Let_def appended_guards, folded lifecycle_history_def]
  from f have out: "out = the_array ev @ [e]" and cl: "cloneable e"
    by (auto simp: cloneJson_def split: if_splits)
  from f have "append_admits E (the_array ev) e"
    unfolding append_admits_def find_first_None list_ex_iff not_le [symmetric] by blast
  with f out cl show ?thesis by blast
qed

lemma appended_iff:
  "appendEvidenceLifecycleEvent E (JArr es) e c = Inr (LC_appended out) \<longleftrightarrow>
   cloneable (JArr es) \<and> out = es @ [e] \<and> lifecycle_history E es \<and> append_admits E es e \<and>
   rejectionForLifecycleEventCompanions E e c = Inr None \<and> cloneable e"
proof
  assume a: "appendEvidenceLifecycleEvent E (JArr es) e c = Inr (LC_appended out)"
  then have "cloneable (JArr es)" by (auto simp: appendEvidenceLifecycleEvent_def cloneJson_def split: if_splits)
  with append_appendedD [OF a] show "cloneable (JArr es) \<and> out = es @ [e] \<and> lifecycle_history E es \<and> append_admits E es e \<and>
     rejectionForLifecycleEventCompanions E e c = Inr None \<and> cloneable e" by simp
next
  assume a: "cloneable (JArr es) \<and> out = es @ [e] \<and> lifecycle_history E es \<and> append_admits E es e \<and>
     rejectionForLifecycleEventCompanions E e c = Inr None \<and> cloneable e"
  then show "appendEvidenceLifecycleEvent E (JArr es) e c = Inr (LC_appended out)"
    unfolding appendEvidenceLifecycleEvent_def Let_def appended_guards lifecycle_history_def append_admits_def
      find_first_None list_ex_iff not_le [symmetric] the_array.simps cloneJson_def by auto
qed

fun lifecycle_log_of :: "lifecycleResult \<Rightarrow> jsval list" where
  "lifecycle_log_of (LC_appended es) = es"
| "lifecycle_log_of (LC_noop es) = es"
| "lifecycle_log_of (LC_rejected r es) = es"

lemma append_unchanged:
  assumes "appendEvidenceLifecycleEvent E (JArr es) e c = Inr res" "cloneable (JArr es)"
  shows "res = LC_appended (es @ [e]) \<or> res = LC_noop es \<or> (\<exists>r. res = LC_rejected r es)"
proof (cases res)
  case (LC_appended out)
  with assms show ?thesis by (simp add: appended_iff)
next
  case (LC_noop out)
  with assms show ?thesis
    by (auto simp: appendEvidenceLifecycleEvent_def Let_def split: if_splits option.splits)
next
  case (LC_rejected r out)
  with assms show ?thesis
    by (auto simp: appendEvidenceLifecycleEvent_def Let_def cloneJson_def split: if_splits option.splits)
qed

section \<open>Reachable logs\<close>

text \<open>The logs a caller can hold that starts with none and keeps the log each call returns.\<close>

inductive lifecycle_reachable :: "('a control_env_scheme) \<Rightarrow> jsval list \<Rightarrow> bool" for E where
  start: "lifecycle_reachable E []"
| step: "lifecycle_reachable E es \<Longrightarrow> appendEvidenceLifecycleEvent E (JArr es) e c = Inr res \<Longrightarrow>
    lifecycle_reachable E (lifecycle_log_of res)"

inductive_cases lifecycle_reachableE: "lifecycle_reachable E es"

lemma lifecycle_reachable_inv:
  assumes "lifecycle_reachable E es" "review_ids_are_strings E"
  shows "lifecycle_history E es \<and> cloneable (JArr es)"
  using assms(1)
proof induction
  case (step es e c res)
  from append_unchanged [OF step.hyps(2)] step.IH
  consider "res = LC_appended (es @ [e])" | "res = LC_noop es" | r where "res = LC_rejected r es" by blast
  then show ?case
  proof cases
    case 1
    with step.hyps(2) have "append_admits E es e" "cloneable e" by (simp_all add: appended_iff)
    with step.IH assms(2) 1 show ?thesis by (auto intro: append_admits_history)
  qed (use step.IH in auto)
qed simp

lemma lifecycle_history_ids:
  assumes "lifecycle_history E es" "i < j" "j < length es"
  shows "\<not> strict_eq (field (es ! i) ''event_id'') (field (es ! j) ''event_id'') \<and>
    \<not> strict_eq (field (es ! i) ''idempotency_key'') (field (es ! j) ''idempotency_key'')"
  using assms
proof (induction es rule: rev_induct)
  case (snoc e es)
  show ?case
  proof (cases "j < length es")
    case False
    with snoc.prems have j: "j = length es" "es ! i \<in> set es" "(es @ [e]) ! i = es ! i" by (auto simp: nth_append)
    have "\<not> js_includes (map (\<lambda>e. field e ''event_id'') es) (field e ''event_id'')"
      "\<not> js_includes (map (\<lambda>e. field e ''idempotency_key'') es) (field e ''idempotency_key'')"
      using snoc.prems(1) by (simp_all add: lifecycle_history_snoc history_admits_def history_foldl history_start_def)
    with j show ?thesis using strict_eq_sym by (auto simp: js_includes_def list_ex_iff)
  qed (use snoc in \<open>auto simp: nth_append lifecycle_history_snoc\<close>)
qed simp

lemma lifecycle_history_review:
  assumes "lifecycle_history E es" "review_ids_are_strings E" "e \<in> set es"
  shows "field e ''review_id'' = field (hd es) ''review_id''"
  using assms(1,3)
proof (induction es rule: rev_induct)
  case (snoc x es)
  show ?case
  proof (cases "es = []")
    case False
    then have "field x ''review_id'' = field (hd es) ''review_id''"
      using snoc.prems(1) history_reviewId [of E es] assms(2) lifecycle_historyD [of E es "hd es"]
      by (auto simp: lifecycle_history_snoc history_admits_def review_ids_are_strings_def strict_eq_iff)
    with snoc False show ?thesis by (auto simp: lifecycle_history_snoc)
  qed (use snoc in auto)
qed simp

text \<open>C11: every lifecycle log a caller can build is append-only well formed: its sequence numbers
  increase strictly, no two entries share an event identifier or an idempotency key, every entry
  belongs to the review of the first and satisfies the event rules; and each further append leaves
  the log as it was or extends it by exactly the submitted event.\<close>

theorem lifecycle_log_append_only:
  assumes reach: "lifecycle_reachable E es" and strings: "review_ids_are_strings E"
  shows "sorted_wrt (<) (map (\<lambda>e. the_int (field e ''sequence_number'')) es) \<and>
    (\<forall>i j. i < j \<and> j < length es \<longrightarrow>
       \<not> strict_eq (field (es ! i) ''event_id'') (field (es ! j) ''event_id'') \<and>
       \<not> strict_eq (field (es ! i) ''idempotency_key'') (field (es ! j) ''idempotency_key'')) \<and>
    (\<forall>e \<in> set es. field e ''review_id'' = field (hd es) ''review_id'') \<and>
    evidenceLifecycleHistoryRejection E es = Inr None \<and>
    (\<forall>e c res. appendEvidenceLifecycleEvent E (JArr es) e c = Inr res \<longrightarrow>
       res = LC_appended (es @ [e]) \<or> res = LC_noop es \<or> (\<exists>r. res = LC_rejected r es))"
proof -
  from lifecycle_reachable_inv [OF reach strings] have h: "lifecycle_history E es" and c: "cloneable (JArr es)" by blast+
  show ?thesis
    using lifecycle_history_sequences [OF h] lifecycle_history_ids [OF h] lifecycle_history_review [OF h strings]
      append_unchanged [OF _ c] h [unfolded lifecycle_history_def] by blast
qed

definition sample_control :: control_env where
  "sample_control = \<lparr>schema_valid = (\<lambda>i v. i \<noteq> lifecycle_schema \<or> is_string (field v ''review_id'')),
     jcs = (\<lambda>v. case canonicalizeProtocolJson sample_platform v of Inl _ \<Rightarrow> JcsThrow | Inr t \<Rightarrow> JcsText t)\<rparr>"

definition sample_lifecycle_event :: "string \<Rightarrow> int \<Rightarrow> jsval" where
  "sample_lifecycle_event k n =
     JObj [(lit ''event_id'', jstr (''ev_'' @ k)), (lit ''review_id'', jstr ''rev_1''),
           (lit ''sequence_number'', jint n), (lit ''idempotency_key'', jstr k),
           (lit ''event_type'', jstr ''evidence_uploaded'')]"

lemma sample_control_strings: "review_ids_are_strings sample_control"
  by (simp add: review_ids_are_strings_def sample_control_def)

theorem lifecycle_log_append_only_witness:
  "lifecycle_reachable sample_control [sample_lifecycle_event ''a'' 0, sample_lifecycle_event ''b'' 4] \<and>
   evidenceLifecycleHistoryRejection sample_control [sample_lifecycle_event ''a'' 0, sample_lifecycle_event ''b'' 4] = Inr None"
proof -
  let ?a = "sample_lifecycle_event ''a'' 0" and ?b = "sample_lifecycle_event ''b'' 4"
  have "appendEvidenceLifecycleEvent sample_control (JArr []) ?a (JObj []) = Inr (LC_appended [?a])"
    "appendEvidenceLifecycleEvent sample_control (JArr [?a]) ?b (JObj []) = Inr (LC_appended [?a, ?b])" by code_simp+
  with lifecycle_reachable.step [OF lifecycle_reachable.start] lifecycle_reachable.step
  have "lifecycle_reachable sample_control [?a, ?b]" by (metis lifecycle_log_of.simps(1))
  then show ?thesis using lifecycle_log_append_only [OF _ sample_control_strings] by blast
qed

section \<open>Replay\<close>

text \<open>Replaying an appended event with the same companions is a no-op that reports success and
  leaves the log with one copy of it.\<close>

theorem lifecycle_replay_noop:
  assumes app: "appendEvidenceLifecycleEvent E (JArr es) e c = Inr (LC_appended out)"
    and strings: "review_ids_are_strings E"
    and key: "is_string (field e ''idempotency_key'')" and enc: "jcs E e = JcsText t"
  shows "appendEvidenceLifecycleEvent E (JArr out) e c = Inr (LC_noop (es @ [e]))"
proof -
  from app have a: "cloneable (JArr (es @ [e]))" "out = es @ [e]" "append_admits E es e" "lifecycle_history E es"
    "rejectionForLifecycleEventCompanions E e c = Inr None" by (auto simp: appended_iff)
  have h: "lifecycle_history E (es @ [e])" using a(3,4) strings by (rule append_admits_history [rotated 2])
  have rec: "is_record e" using a(3) by (simp add: append_admits_def)
  have "find_first (\<lambda>x. strict_eq (field x ''idempotency_key'') (field e ''idempotency_key'')) es = None"
    using a(3) by (simp add: append_admits_def find_first_None)
  then have ff: "find_first (\<lambda>x. strict_eq (field x ''idempotency_key'') (field e ''idempotency_key'')) (es @ [e]) = Some e"
    using key by (auto simp: find_first_append is_string_iff)
  have rv: "\<not> (es @ [e] \<noteq> [] \<and> field (hd (es @ [e])) ''review_id'' \<noteq> JUndef
      \<and> \<not> strict_eq (field e ''review_id'') (field (hd (es @ [e])) ''review_id''))"
  proof -
    have "field e ''review_id'' = field (hd (es @ [e])) ''review_id''" using lifecycle_history_review [OF h strings, of e] by simp
    moreover have "is_string (field e ''review_id'')"
      using lifecycle_historyD [OF h, of e] strings by (simp add: review_ids_are_strings_def)
    ultimately show ?thesis by (auto simp: strict_eq_iff is_string_iff)
  qed
  show ?thesis
    using a h rec ff rv enc
    by (simp add: appendEvidenceLifecycleEvent_def cloneJson_def lifecycle_history_def stableEquals_def Let_def)
qed

theorem lifecycle_replay_noop_witness:
  "appendEvidenceLifecycleEvent sample_control (JArr [sample_lifecycle_event ''a'' 0, sample_lifecycle_event ''b'' 4])
     (sample_lifecycle_event ''b'' 4) (JObj []) =
   Inr (LC_noop [sample_lifecycle_event ''a'' 0, sample_lifecycle_event ''b'' 4])"
proof -
  let ?a = "sample_lifecycle_event ''a'' 0" and ?b = "sample_lifecycle_event ''b'' 4"
  have a: "appendEvidenceLifecycleEvent sample_control (JArr [?a]) ?b (JObj []) = Inr (LC_appended [?a, ?b])"
    and k: "is_string (field ?b ''idempotency_key'')" by code_simp+
  have "canonicalizeProtocolJson sample_platform ?b = Inr (projr (canonicalizeProtocolJson sample_platform ?b))"
    by code_simp
  then have "jcs sample_control ?b = JcsText (projr (canonicalizeProtocolJson sample_platform ?b))"
    by (cases "canonicalizeProtocolJson sample_platform ?b") (simp_all add: sample_control_def)
  from lifecycle_replay_noop [OF a sample_control_strings k this] show ?thesis by simp
qed

section \<open>Sequence numbers\<close>

lemma nextSequenceNumber_loop_Inr:
  "nextSequenceNumber_loop es m = Inr n \<longleftrightarrow>
   (\<forall>e \<in> set es. is_sequence_number (field e ''sequence_number'')) \<and>
   n = fold (\<lambda>e a. max a (the_int (field e ''sequence_number''))) es m"
  by (induction es arbitrary: m) auto

lemma fold_max_bound:
  "(\<forall>e \<in> set es. f e \<le> fold (\<lambda>e a. max a (f e)) es (m :: int)) \<and> m \<le> fold (\<lambda>e a. max a (f e)) es m \<and>
   (fold (\<lambda>e a. max a (f e)) es m = m \<or> (\<exists>e \<in> set es. fold (\<lambda>e a. max a (f e)) es m = f e))"
proof (induction es arbitrary: m)
  case (Cons e es)
  from Cons.IH [of "max m (f e)"] show ?case by (auto simp: max_def split: if_splits)
qed simp

text \<open>The number given to an access event is a safe non-negative integer above every number of
  the log, and one is refused only when the log holds a malformed number or the largest safe
  integer is used up.\<close>

theorem next_sequence_number_bounds:
  "(nextSequenceNumber es = Inr n \<longrightarrow>
     0 \<le> n \<and> n \<le> MAX_SAFE_INTEGER \<and> (\<forall>e \<in> set es. the_int (field e ''sequence_number'') < n)) \<and>
   (nextSequenceNumber es = Inl () \<longleftrightarrow>
     (\<exists>e \<in> set es. \<not> is_sequence_number (field e ''sequence_number'')
        \<or> the_int (field e ''sequence_number'') = MAX_SAFE_INTEGER))"
proof (cases "\<forall>e \<in> set es. is_sequence_number (field e ''sequence_number'')")
  case False
  then obtain e where e: "e \<in> set es" "\<not> is_sequence_number (field e ''sequence_number'')" by blast
  then have "\<nexists>m. nextSequenceNumber_loop es (- 1) = Inr m" by (auto simp: nextSequenceNumber_loop_Inr)
  then have "nextSequenceNumber es = Inl ()"
    by (cases "nextSequenceNumber_loop es (- 1)") (auto simp: nextSequenceNumber_def)
  with e show ?thesis by auto
next
  case True
  let ?f = "\<lambda>e. the_int (field e ''sequence_number'')"
  let ?m = "fold (\<lambda>e a. max a (?f e)) es (- 1)"
  have l: "nextSequenceNumber_loop es (- 1) = Inr ?m" using True by (simp add: nextSequenceNumber_loop_Inr)
  have b: "\<forall>e \<in> set es. ?f e \<le> ?m" "- 1 \<le> ?m" "?m = - 1 \<or> (\<exists>e \<in> set es. ?m = ?f e)"
    using fold_max_bound [of es ?f "- 1"] by blast+
  have safe: "0 \<le> ?f e \<and> ?f e \<le> MAX_SAFE_INTEGER" if "e \<in> set es" for e
    using True that by (cases "field e ''sequence_number''" rule: is_safe_integer.cases) (auto simp: is_sequence_number_def)
  then have m: "?m \<le> MAX_SAFE_INTEGER" using b(3) by auto
  have "?m = MAX_SAFE_INTEGER \<longleftrightarrow> (\<exists>e \<in> set es. ?f e = MAX_SAFE_INTEGER)"
    using b m safe by fastforce
  moreover have "\<forall>e \<in> set es. ?f e < ?m + 1" using b(1) by auto
  ultimately show ?thesis using True b(2) m l by (auto simp: nextSequenceNumber_def)
qed

theorem next_sequence_number_bounds_witness:
  "nextSequenceNumber [sample_lifecycle_event ''a'' 0, sample_lifecycle_event ''b'' 4] = Inr 5 \<and> (5 :: int) \<le> MAX_SAFE_INTEGER"
proof -
  have n: "nextSequenceNumber [sample_lifecycle_event ''a'' 0, sample_lifecycle_event ''b'' 4] = Inr 5" by code_simp
  with next_sequence_number_bounds [of "[sample_lifecycle_event ''a'' 0, sample_lifecycle_event ''b'' 4]" 5]
  show ?thesis by blast
qed

section \<open>Access\<close>

lemma stableEquals_True: "stableEquals E l r = Inr True \<Longrightarrow> jcs E l = jcs E r"
  by (auto simp: stableEquals_def split: jcs_result.splits)

lemma noop_guards:
  "(if c then Inr (LC_rejected r es) else x) = Inr (LC_noop out) \<longleftrightarrow> \<not> c \<and> x = Inr (LC_noop out)"
  "sbind m (\<lambda>r. case r of Some reason \<Rightarrow> Inr (LC_rejected reason es) | None \<Rightarrow> x) = Inr (LC_noop out) \<longleftrightarrow>
   m = Inr None \<and> x = Inr (LC_noop out)"
  "(case cl of None \<Rightarrow> Inr (LC_rejected r es) | Some a \<Rightarrow> Inr (LC_appended (es @ [a]))) \<noteq> Inr (LC_noop out)"
  "sbind m (\<lambda>r. Inr (case r of Some reason \<Rightarrow> LC_rejected reason es | None \<Rightarrow> LC_noop es)) = Inr (LC_noop out) \<longleftrightarrow>
   m = Inr None \<and> out = es"
  "sbind n (\<lambda>same. if \<not> same then Inr (LC_rejected r es) else y) = Inr (LC_noop out) \<longleftrightarrow> n = Inr True \<and> y = Inr (LC_noop out)"
  by (auto split: option.splits if_splits)

lemma append_noopD:
  assumes "appendEvidenceLifecycleEvent E (JArr es) e c = Inr (LC_noop out)"
  shows "out = es \<and> (\<exists>x \<in> set es. jcs E x = jcs E e)"
proof (cases "find_first (\<lambda>x. strict_eq (field x ''idempotency_key'') (field e ''idempotency_key'')) es")
  case None
  from assms show ?thesis
    unfolding appendEvidenceLifecycleEvent_def Let_def the_array.simps None option.case noop_guards
    using noop_guards(3) by blast
next
  case (Some k)
  from assms have "out = es" "stableEquals E k e = Inr True"
    unfolding appendEvidenceLifecycleEvent_def Let_def the_array.simps Some option.case noop_guards by blast+
  moreover from find_first_SomeD [OF Some] have "k \<in> set es" by (rule conjunct1)
  ultimately show ?thesis using stableEquals_True [of E k e] by blast
qed

lemma allowed_guards:
  "(if c then Inr (Access_denied r es) else x) = Inr (Access_allowed a b) \<longleftrightarrow> \<not> c \<and> x = Inr (Access_allowed a b)"
  by simp

lemma scoped_access_allowedD:
  assumes "enforceScopedAccess E ev request = Inr (Access_allowed emitted out)"
  shows "is_array ev \<and> is_record request \<and> one_of EVIDENCE_ACCESS_ROLES (field request ''role'') \<and>
    is_non_empty_string (field request ''tenant_id'') \<and> is_non_empty_string (field request ''review_scope'') \<and>
    strict_eq (field (field request ''artifact'') ''tenant_id'') (field request ''tenant_id'') \<and>
    strict_eq (field (field request ''artifact'') ''review_scope'') (field request ''review_scope'') \<and>
    \<not> (field request ''role'' = jstr ''evidence_consumer_static'' \<and>
       one_of SENSITIVE_SOURCE_CLASSES (field (field request ''artifact'') ''source_derived_class''))"
  using assms unfolding enforceScopedAccess_def Let_def allowed_guards by blast

lemma allowed_append:
  assumes "(case n' of Inl _ \<Rightarrow> Inr (Access_denied d es) | Inr n \<Rightarrow>
     sbind (A n) (\<lambda>appended. Inr (case appended of LC_rejected _ _ \<Rightarrow> Access_denied d es
       | LC_appended l \<Rightarrow> (case cloneJson (f n) of None \<Rightarrow> Access_denied d' es | Some em \<Rightarrow> Access_allowed em l)
       | LC_noop l \<Rightarrow> (case cloneJson (f n) of None \<Rightarrow> Access_denied d' es | Some em \<Rightarrow> Access_allowed em l))))
     = Inr (Access_allowed emitted out)"
  shows "\<exists>n res. emitted = f n \<and> out = lifecycle_log_of res \<and> (\<forall>r es. res \<noteq> LC_rejected r es) \<and> A n = Inr res"
proof -
  from assms obtain n res where n: "n' = Inr n" "A n = Inr res" by (cases n') auto
  with assms show ?thesis by (cases res) (auto simp: cloneJson_def split: if_splits)
qed

lemma scoped_access_recorded:
  assumes "enforceScopedAccess E ev request = Inr (Access_allowed emitted out)"
  shows "\<exists>n res. emitted = access_event request n \<and> out = lifecycle_log_of res \<and> (\<forall>r es. res \<noteq> LC_rejected r es) \<and>
    appendEvidenceLifecycleEvent E (JArr (the_array ev)) emitted (JObj []) = Inr res"
proof -
  note f = assms [unfolded enforceScopedAccess_def Let_def allowed_guards]
  then show ?thesis by (elim conjE) (drule allowed_append, blast)
qed

lemma access_event_fields [simp]:
  "field (access_event request n) ''event_type'' = jstr ''evidence_accessed''"
  "field (access_event request n) ''review_id'' = field request ''review_scope''"
  "field (access_event request n) ''actor'' = field request ''actor''"
  "field (access_event request n) ''artifact_refs'' = JArr [field (field request ''artifact'') ''artifact_ref'']"
  by (simp_all add: access_event_def)

text \<open>C15: access to an artifact is granted only to a known role inside the artifact's own tenant and
  review, never to the static consumer for sensitive source classes, and never unrecorded: the
  returned log ends with the access event that names the actor and the artifact, or already held an
  event with the same canonical text.\<close>

theorem scoped_access_sound:
  assumes "enforceScopedAccess E ev request = Inr (Access_allowed emitted out)"
  shows "one_of EVIDENCE_ACCESS_ROLES (field request ''role'') \<and>
    field (field request ''artifact'') ''tenant_id'' = field request ''tenant_id'' \<and>
    field (field request ''artifact'') ''review_scope'' = field request ''review_scope'' \<and>
    is_non_empty_string (field request ''tenant_id'') \<and> is_non_empty_string (field request ''review_scope'') \<and>
    \<not> (field request ''role'' = jstr ''evidence_consumer_static'' \<and>
       one_of SENSITIVE_SOURCE_CLASSES (field (field request ''artifact'') ''source_derived_class'')) \<and>
    field emitted ''event_type'' = jstr ''evidence_accessed'' \<and> field emitted ''actor'' = field request ''actor'' \<and>
    field emitted ''review_id'' = field request ''review_scope'' \<and>
    field emitted ''artifact_refs'' = JArr [field (field request ''artifact'') ''artifact_ref''] \<and>
    (out = the_array ev @ [emitted] \<or> out = the_array ev \<and> (\<exists>x \<in> set out. jcs E x = jcs E emitted))"
proof -
  from scoped_access_recorded [OF assms] obtain n res where e: "emitted = access_event request n"
    and o: "out = lifecycle_log_of res" and nr: "\<forall>r es. res \<noteq> LC_rejected r es"
    and ap: "appendEvidenceLifecycleEvent E (JArr (the_array ev)) emitted (JObj []) = Inr res" by blast
  have "out = the_array ev @ [emitted] \<or> out = the_array ev \<and> (\<exists>x \<in> set out. jcs E x = jcs E emitted)"
  proof (cases res)
    case (LC_appended l)
    with ap o show ?thesis by (simp add: appended_iff)
  next
    case (LC_noop l)
    with append_noopD [of E "the_array ev" emitted "JObj []" l] ap o show ?thesis by simp
  qed (use nr in blast)
  with scoped_access_allowedD [OF assms] strict_eq_imp_eq e show ?thesis by auto
qed

definition sample_access_request :: jsval where
  "sample_access_request =
     JObj [(lit ''role'', jstr ''customer_viewer''), (lit ''tenant_id'', jstr ''t1''), (lit ''review_scope'', jstr ''rev_1''),
           (lit ''actor'', JObj [(lit ''actor_id'', jstr ''u'')]), (lit ''event_id'', jstr ''ev_x''),
           (lit ''idempotency_key'', jstr ''x''), (lit ''event_timestamp'', jstr ''2024-01-01T00:00:00Z''),
           (lit ''artifact'', JObj [(lit ''artifact_ref'', jstr ''art_1''), (lit ''tenant_id'', jstr ''t1''),
              (lit ''review_scope'', jstr ''rev_1''), (lit ''source_derived_class'', jstr ''retained_review_artifact'')])]"

theorem scoped_access_sound_witness:
  "\<exists>emitted. enforceScopedAccess sample_control (JArr [sample_lifecycle_event ''a'' 0]) sample_access_request =
     Inr (Access_allowed emitted [sample_lifecycle_event ''a'' 0, emitted]) \<and>
   field emitted ''review_id'' = jstr ''rev_1''"
proof -
  let ?e = "access_event sample_access_request (jint 1)"
  have a: "enforceScopedAccess sample_control (JArr [sample_lifecycle_event ''a'' 0]) sample_access_request =
     Inr (Access_allowed ?e [sample_lifecycle_event ''a'' 0, ?e])" by code_simp
  moreover have "field sample_access_request ''review_scope'' = jstr ''rev_1''" by code_simp
  ultimately show ?thesis using scoped_access_sound [OF a] by metis
qed

text \<open>The append does not always answer with one of its typed outcomes: an access event whose
  \<^verbatim>\<open>access_scope\<close> is \<^verbatim>\<open>null\<close> makes it throw before the schema could refuse the event, although
  its result type has a rejection for a missing scope.\<close>

theorem null_access_scope_throws:
  assumes "is_record e" "is_sequence_number (field e ''sequence_number'')" "field e ''supersedes_event_id'' = JUndef"
    "field e ''event_type'' = jstr ''evidence_accessed''" "field e ''access_scope'' = JNull"
  shows "appendEvidenceLifecycleEvent E (JArr []) e c = Inl ()"
  using assms by (simp add: appendEvidenceLifecycleEvent_def evidenceLifecycleHistoryRejection_def cloneJson_def
      rejectionForLifecycleEvent_def)

theorem null_access_scope_throws_witness:
  "appendEvidenceLifecycleEvent sample_control (JArr [])
     (JObj [(lit ''sequence_number'', jint 1), (lit ''event_type'', jstr ''evidence_accessed''), (lit ''access_scope'', JNull)])
     (JObj []) = Inl ()"
  by (rule null_access_scope_throws) code_simp+

section \<open>Companions\<close>

lemma retention_companion_passed:
  assumes "retention_companion E e c = Inr None" "field e ''event_type'' = jstr ''retention_status_changed''"
    "field e ''source_derived_class'' = jstr ''customer_opt_in_retained_source''"
  shows "\<exists>r \<in> set (the_array (field c ''retention_opt_in_records'')).
    schema_valid E ''urn:codeattest:protocol:v0:retention-opt-in-record'' r \<and>
    field r ''retention_record_id'' = field e ''retention_record_ref'' \<and>
    list_all (js_includes (the_array (field r ''retained_artifact_refs''))) (the_array (field e ''artifact_refs'')) \<and>
    (\<exists>from_ns to_ns at_ns. parseUtcTimestampNs (field (field r ''retention_period'') ''start_timestamp'') = Some from_ns \<and>
       parseUtcTimestampNs (field (field r ''retention_period'') ''end_timestamp'') = Some to_ns \<and>
       parseUtcTimestampNs (field e ''event_timestamp'') = Some at_ns \<and> from_ns \<le> at_ns \<and> at_ns \<le> to_ns)"
proof -
  let ?P = "\<lambda>r. is_record r \<and> schema_valid E ''urn:codeattest:protocol:v0:retention-opt-in-record'' r
                   \<and> strict_eq (field r ''retention_record_id'') (field e ''retention_record_ref'')"
  obtain r where r: "filter ?P (the_array (field c ''retention_opt_in_records'')) = [r]"
    using assms by (auto simp: retention_companion_def split: list.splits if_splits)
  then have "r \<in> set (filter ?P (the_array (field c ''retention_opt_in_records'')))" by simp
  then have m: "r \<in> set (the_array (field c ''retention_opt_in_records''))" "?P r" by auto
  have refs: "list_all (js_includes (the_array (field r ''retained_artifact_refs''))) (the_array (field e ''artifact_refs''))"
    using assms r by (auto simp: retention_companion_def split: if_splits)
  obtain s t u where "parseUtcTimestampNs (field (field r ''retention_period'') ''start_timestamp'') = Some s"
     "parseUtcTimestampNs (field (field r ''retention_period'') ''end_timestamp'') = Some t"
     "parseUtcTimestampNs (field e ''event_timestamp'') = Some u" "\<not> (u < s \<or> u > t)"
    using assms r by (auto simp: retention_companion_def split: if_splits option.splits)
  with m refs show ?thesis using strict_eq_imp_eq by (intro bexI [of _ r]) auto
qed

lemma deletion_companion_passed:
  assumes "deletion_companion E e c = Inr None" "field e ''event_type'' = jstr ''evidence_deleted''"
    "field e ''deletion_evidence_ref'' \<noteq> JUndef"
  shows "\<exists>d \<in> set (the_array (field c ''deletion_evidence'')).
    schema_valid E ''urn:codeattest:protocol:v0:deletion-evidence'' d \<and>
    field d ''deletion_evidence_id'' = field e ''deletion_evidence_ref'' \<and>
    field d ''verification_status'' = jstr ''verified'' \<and> jcs E (field d ''actor'') = jcs E (field e ''actor'') \<and>
    (\<exists>at_ns. parseUtcTimestampNs (field d ''deletion_timestamp'') = Some at_ns \<and>
       parseUtcTimestampNs (field e ''event_timestamp'') = Some at_ns)"
proof -
  let ?P = "\<lambda>d. is_record d \<and> schema_valid E ''urn:codeattest:protocol:v0:deletion-evidence'' d
                 \<and> strict_eq (field d ''deletion_evidence_id'') (field e ''deletion_evidence_ref'')"
  obtain d where d: "filter ?P (the_array (field c ''deletion_evidence'')) = [d]"
    using assms by (auto simp: deletion_companion_def split: list.splits if_splits)
  then have "d \<in> set (filter ?P (the_array (field c ''deletion_evidence'')))" by simp
  then have m: "d \<in> set (the_array (field c ''deletion_evidence''))" "?P d" by auto
  have v: "field d ''verification_status'' = jstr ''verified''" "stableEquals E (field d ''actor'') (field e ''actor'') = Inr True"
    using assms d by (auto simp: deletion_companion_def split: if_splits)
  obtain x where "parseUtcTimestampNs (field d ''deletion_timestamp'') = Some x"
     "parseUtcTimestampNs (field e ''event_timestamp'') = Some x"
    using assms d v by (auto simp: deletion_companion_def split: if_splits option.splits)
  with m v stableEquals_True show ?thesis using strict_eq_imp_eq by (intro bexI [of _ d]) auto
qed

text \<open>C30: no deletion and no opt-in retention change enters the log unproved: a deletion event is
  appended only beside a verified deletion record by the same actor at the same instant, and a
  change of customer-retained source only inside the period of a retention record that covers
  every artifact the event names.\<close>

theorem lifecycle_companions_resolved:
  assumes "appendEvidenceLifecycleEvent E (JArr es) e c = Inr (LC_appended out)"
  shows "(field e ''event_type'' = jstr ''evidence_deleted'' \<longrightarrow>
     (\<exists>d \<in> set (the_array (field c ''deletion_evidence'')).
        field d ''deletion_evidence_id'' = field e ''deletion_evidence_ref'' \<and>
        field d ''verification_status'' = jstr ''verified'' \<and> jcs E (field d ''actor'') = jcs E (field e ''actor'') \<and>
        (\<exists>at_ns. parseUtcTimestampNs (field d ''deletion_timestamp'') = Some at_ns \<and>
           parseUtcTimestampNs (field e ''event_timestamp'') = Some at_ns))) \<and>
    (field e ''event_type'' = jstr ''retention_status_changed'' \<and>
     field e ''source_derived_class'' = jstr ''customer_opt_in_retained_source'' \<longrightarrow>
     (\<exists>r \<in> set (the_array (field c ''retention_opt_in_records'')).
        field r ''retention_record_id'' = field e ''retention_record_ref'' \<and>
        list_all (js_includes (the_array (field r ''retained_artifact_refs''))) (the_array (field e ''artifact_refs'')) \<and>
        (\<exists>from_ns to_ns at_ns. parseUtcTimestampNs (field (field r ''retention_period'') ''start_timestamp'') = Some from_ns \<and>
           parseUtcTimestampNs (field (field r ''retention_period'') ''end_timestamp'') = Some to_ns \<and>
           parseUtcTimestampNs (field e ''event_timestamp'') = Some at_ns \<and> from_ns \<le> at_ns \<and> at_ns \<le> to_ns)))"
proof -
  from assms have a: "append_admits E es e" "rejectionForLifecycleEventCompanions E e c = Inr None"
    by (simp_all add: appended_iff)
  have r: "retention_companion E e c = Inr None" and d: "deletion_companion E e c = Inr None"
    using a(2) unfolding rejectionForLifecycleEventCompanions_def guards by blast+
  have "field e ''deletion_evidence_ref'' \<noteq> JUndef" if "field e ''event_type'' = jstr ''evidence_deleted''"
    using a(1) that by (auto simp: append_admits_def rejectionForLifecycleEvent_def Let_def)
  with deletion_companion_passed [OF d] retention_companion_passed [OF r] show ?thesis by blast
qed

definition sample_deletion_event :: jsval where
  "sample_deletion_event =
     JObj [(lit ''event_id'', jstr ''ev_d''), (lit ''review_id'', jstr ''rev_1''), (lit ''sequence_number'', jint 9),
           (lit ''idempotency_key'', jstr ''d''), (lit ''event_type'', jstr ''evidence_deleted''),
           (lit ''actor'', jstr ''ops''), (lit ''event_timestamp'', jstr ''2024-02-29T10:00:00Z''),
           (lit ''source_derived_class'', jstr ''transient_source_derived''),
           (lit ''deletion_evidence_ref'', jstr ''de_1'')]"

definition sample_deletion_context :: jsval where
  "sample_deletion_context =
     JObj [(lit ''deletion_evidence'', JArr [JObj [(lit ''deletion_evidence_id'', jstr ''de_1''),
        (lit ''verification_status'', jstr ''verified''), (lit ''actor'', jstr ''ops''),
        (lit ''deletion_timestamp'', jstr ''2024-02-29T10:00:00.000Z'')]])]"

theorem lifecycle_companions_resolved_witness:
  "appendEvidenceLifecycleEvent sample_control (JArr []) sample_deletion_event sample_deletion_context =
     Inr (LC_appended [sample_deletion_event]) \<and>
   (\<exists>d \<in> set (the_array (field sample_deletion_context ''deletion_evidence'')).
      field d ''verification_status'' = jstr ''verified'')"
proof -
  have a: "appendEvidenceLifecycleEvent sample_control (JArr []) sample_deletion_event sample_deletion_context =
     Inr (LC_appended [sample_deletion_event])"
    and t: "field sample_deletion_event ''event_type'' = jstr ''evidence_deleted''" by code_simp+
  from lifecycle_companions_resolved [OF a] t a show ?thesis by blast
qed

end
