(* ===== verification/Reg_Exp.thy ===== *)
theory Reg_Exp
  imports JS_Prelude
begin

text \<open>
  The regular expressions of ECMAScript the sources use, all of them with the \<^verbatim>\<open>u\<close> flag: a
  pattern is text, read by the parser below and matched by backtracking over code points. The
  matcher returns every way to match in the order the language tries them, so its first element is
  the match \<^verbatim>\<open>exec\<close> reports. A pattern is written as in the source with \<^verbatim>\<open>~\<close> for the
  backslash, which a string literal of HOL cannot hold (no pattern of the source contains a tilde).
\<close>

section \<open>Code points\<close>

fun cps :: "ustr \<Rightarrow> nat list" where
  "cps (c # d # s) =
     (if 0xd800 \<le> c \<and> c < 0xdc00 \<and> 0xdc00 \<le> d \<and> d < 0xe000 then (0x10000 + (c - 0xd800) * 1024 + (d - 0xdc00)) # cps s
      else c # cps (d # s))"
| "cps s = s"

definition units_of :: "nat \<Rightarrow> ustr" where
  "units_of c = (if c < 0x10000 then [c] else [0xd800 + (c - 0x10000) div 1024, 0xdc00 + (c - 0x10000) mod 1024])"

definition of_cps :: "nat list \<Rightarrow> ustr" where
  "of_cps cs = concat (map units_of cs)"

section \<open>Patterns\<close>

datatype ritem = IRange nat nat | IWord bool | IDigit bool | ISpace bool

text \<open>\<open>RSet n is\<close> is a character class, negated when \<open>n\<close>; \<open>RRep g p lo hi\<close> a quantifier, greedy when
  \<open>g\<close>; \<open>RAhead\<close> and \<open>RPrev\<close> are lookahead and a one-character lookbehind, positive when the flag
  is set.\<close>

datatype rx =
    RFail | REmpty | RSet bool "ritem list" | RDot | RSeq rx rx | RAlt rx rx | RCap nat rx
  | RRep bool rx nat "nat option" | RBound bool | RStart | REnd | RAhead bool rx | RPrev bool "ritem list"

record rxflags =
  ignoreCase :: bool
  multiline :: bool

definition fl_u :: rxflags where "fl_u = \<lparr>ignoreCase = False, multiline = False\<rparr>"
definition fl_iu :: rxflags where "fl_iu = \<lparr>ignoreCase = True, multiline = False\<rparr>"
definition fl_mu :: rxflags where "fl_mu = \<lparr>ignoreCase = False, multiline = True\<rparr>"

definition is_word :: "nat \<Rightarrow> bool" where
  "is_word c \<longleftrightarrow> 48 \<le> c \<and> c \<le> 57 \<or> 65 \<le> c \<and> c \<le> 90 \<or> c = 95 \<or> 97 \<le> c \<and> c \<le> 122"

definition is_line_end :: "nat \<Rightarrow> bool" where
  "is_line_end c \<longleftrightarrow> c = 10 \<or> c = 13 \<or> c = 0x2028 \<or> c = 0x2029"

text \<open>The characters equal to \<open>c\<close> up to simple case folding, as far as an ASCII pattern can tell.\<close>

definition case_variants :: "rxflags \<Rightarrow> nat \<Rightarrow> nat list" where
  "case_variants fl c =
     (if \<not> ignoreCase fl then [c]
      else if 65 \<le> c \<and> c \<le> 90 then [c, c + 32]
      else if 97 \<le> c \<and> c \<le> 122 then [c, c - 32]
      else if c = 0x17f then [c, 83, 115]
      else if c = 0x212a then [c, 75, 107] else [c])"

fun in_item :: "ritem \<Rightarrow> nat \<Rightarrow> bool" where
  "in_item (IRange l h) c = (l \<le> c \<and> c \<le> h)"
| "in_item (IWord b) c = (is_word c = b)"
| "in_item (IDigit b) c = ((48 \<le> c \<and> c \<le> 57) = b)"
| "in_item (ISpace b) c = (js_space c = b)"

definition in_set :: "rxflags \<Rightarrow> ritem list \<Rightarrow> nat \<Rightarrow> bool" where
  "in_set fl is c \<longleftrightarrow> list_ex (\<lambda>v. list_ex (\<lambda>i. in_item i v) is) (case_variants fl c)"

text \<open>A state of the matcher: the text before the position (last character first), the text after
  it, and the groups captured so far.\<close>

type_synonym rstate = "nat list \<times> nat list \<times> (nat \<times> nat list) list"

definition consumes :: "rstate \<Rightarrow> rstate \<Rightarrow> bool" where
  "consumes s s' \<longleftrightarrow> length (fst (snd s')) < length (fst (snd s))"

text \<open>Up to \<open>k\<close> more iterations are allowed, each of which must consume; first \<open>m\<close> are due.\<close>

fun ropt :: "bool \<Rightarrow> (rstate \<Rightarrow> rstate list) \<Rightarrow> nat \<Rightarrow> rstate \<Rightarrow> rstate list" where
  "ropt g f 0 s = [s]"
| "ropt g f (Suc k) s =
     (let more = concat (map (ropt g f k) (filter (consumes s) (f s))) in if g then more @ [s] else s # more)"

fun rrep :: "bool \<Rightarrow> (rstate \<Rightarrow> rstate list) \<Rightarrow> nat \<Rightarrow> nat \<Rightarrow> rstate \<Rightarrow> rstate list" where
  "rrep g f 0 k s = ropt g f k s"
| "rrep g f (Suc m) k s = concat (map (rrep g f m k) (f s))"

definition at_word :: "rxflags \<Rightarrow> nat list \<Rightarrow> bool" where
  "at_word fl cs \<longleftrightarrow> (case cs of [] \<Rightarrow> False | c # _ \<Rightarrow> in_set fl [IWord True] c)"

fun rmatch :: "rxflags \<Rightarrow> rx \<Rightarrow> rstate \<Rightarrow> rstate list" where
  "rmatch fl RFail s = []"
| "rmatch fl REmpty s = [s]"
| "rmatch fl (RSet n is) (b, a, c) =
     (case a of [] \<Rightarrow> [] | x # a' \<Rightarrow> if in_set fl is x \<noteq> n then [(x # b, a', c)] else [])"
| "rmatch fl RDot (b, a, c) = (case a of [] \<Rightarrow> [] | x # a' \<Rightarrow> if is_line_end x then [] else [(x # b, a', c)])"
| "rmatch fl (RSeq p q) s = concat (map (rmatch fl q) (rmatch fl p s))"
| "rmatch fl (RAlt p q) s = rmatch fl p s @ rmatch fl q s"
| "rmatch fl (RCap n p) (b, a, c) =
     map (\<lambda>(b', a', c'). (b', a', (n, rev (take (length b' - length b) b')) # c')) (rmatch fl p (b, a, c))"
| "rmatch fl (RRep g p lo hi) s =
     rrep g (rmatch fl p) lo (case hi of None \<Rightarrow> length (fst (snd s)) | Some h \<Rightarrow> h - lo) s"
| "rmatch fl (RBound n) (b, a, c) = (if (at_word fl b \<noteq> at_word fl a) = n then [(b, a, c)] else [])"
| "rmatch fl RStart (b, a, c) = (if b = [] \<or> multiline fl \<and> is_line_end (hd b) then [(b, a, c)] else [])"
| "rmatch fl REnd (b, a, c) = (if a = [] \<or> multiline fl \<and> is_line_end (hd a) then [(b, a, c)] else [])"
| "rmatch fl (RAhead pos p) (b, a, c) = (if (rmatch fl p (b, a, c) \<noteq> []) = pos then [(b, a, c)] else [])"
| "rmatch fl (RPrev pos is) (b, a, c) = (if (b \<noteq> [] \<and> in_set fl is (hd b)) = pos then [(b, a, c)] else [])"

section \<open>Reading a pattern\<close>

definition esc :: nat where "esc = 126"

fun read_num :: "nat \<Rightarrow> nat list \<Rightarrow> nat \<times> nat list" where
  "read_num acc [] = (acc, [])"
| "read_num acc (c # s) = (if 48 \<le> c \<and> c \<le> 57 then read_num (acc * 10 + (c - 48)) s else (acc, c # s))"

fun read_hex :: "nat \<Rightarrow> nat list \<Rightarrow> nat \<times> nat list" where
  "read_hex acc [] = (acc, [])"
| "read_hex acc (c # s) =
     (if 48 \<le> c \<and> c \<le> 57 then read_hex (acc * 16 + (c - 48)) s
      else if 97 \<le> c \<and> c \<le> 102 then read_hex (acc * 16 + (c - 87)) s else (acc, c # s))"

text \<open>The character or character set an escape (after the backslash) denotes.\<close>

definition read_escape :: "nat list \<Rightarrow> (ritem \<times> nat list) option" where
  "read_escape s = (case s of [] \<Rightarrow> None | c # s' \<Rightarrow>
     if c = 119 then Some (IWord True, s') else if c = 87 then Some (IWord False, s')
     else if c = 100 then Some (IDigit True, s') else if c = 68 then Some (IDigit False, s')
     else if c = 115 then Some (ISpace True, s') else if c = 83 then Some (ISpace False, s')
     else if c = 110 then Some (IRange 10 10, s') else if c = 116 then Some (IRange 9 9, s')
     else if c = 117 then
       (case s' of [] \<Rightarrow> None | _ # h \<Rightarrow> (case read_hex 0 h of (n, r) \<Rightarrow> Some (IRange n n, drop 1 r)))
     else Some (IRange c c, s'))"

fun read_class :: "nat \<Rightarrow> nat list \<Rightarrow> (ritem list \<times> nat list) option" where
  "read_class 0 s = None"
| "read_class (Suc n) cs = (case cs of [] \<Rightarrow> None | c # s \<Rightarrow>
      if c = 93 then Some ([], s)
      else
        (case (if c = esc then read_escape s else Some (IRange c c, s)) of
           None \<Rightarrow> None
         | Some (i, r) \<Rightarrow>
             (case (i, r) of
                (IRange l _, d # e # r') \<Rightarrow>
                  if d = 45 \<and> e \<noteq> 93 then
                    (case (if e = esc then read_escape r' else Some (IRange e e, r')) of
                       Some (IRange h _, r'') \<Rightarrow> map_option (\<lambda>(is, t). (IRange l h # is, t)) (read_class n r'')
                     | _ \<Rightarrow> None)
                  else map_option (\<lambda>(is, t). (i # is, t)) (read_class n r)
              | _ \<Rightarrow> map_option (\<lambda>(is, t). (i # is, t)) (read_class n r))))"

definition read_set :: "nat list \<Rightarrow> (rx \<times> nat list) option" where
  "read_set s =
     (case s of
        c # s' \<Rightarrow> if c = 94 then map_option (\<lambda>(is, t). (RSet True is, t)) (read_class (length s) s')
                 else map_option (\<lambda>(is, t). (RSet False is, t)) (read_class (Suc (length s)) s)
      | [] \<Rightarrow> None)"

definition lazy_mark :: "rx \<Rightarrow> nat \<Rightarrow> nat option \<Rightarrow> nat list \<Rightarrow> rx \<times> nat list" where
  "lazy_mark p lo hi s = (case s of c # s' \<Rightarrow> if c = 63 then (RRep False p lo hi, s') else (RRep True p lo hi, s)
     | [] \<Rightarrow> (RRep True p lo hi, s))"

definition read_quant :: "rx \<Rightarrow> nat list \<Rightarrow> rx \<times> nat list" where
  "read_quant p s = (case s of [] \<Rightarrow> (p, s) | c # s' \<Rightarrow>
     if c = 42 then lazy_mark p 0 None s'
     else if c = 43 then lazy_mark p 1 None s'
     else if c = 63 then lazy_mark p 0 (Some 1) s'
     else if c = 123 then
       (case read_num 0 s' of
          (lo, d # r) \<Rightarrow>
            if d = 125 then lazy_mark p lo (Some lo) r
            else (case r of
                e # r' \<Rightarrow> if e = 125 then lazy_mark p lo None r'
                         else (case read_num 0 r of (hi, r'') \<Rightarrow> lazy_mark p lo (Some hi) (drop 1 r''))
              | [] \<Rightarrow> (RFail, []))
        | _ \<Rightarrow> (RFail, []))
     else (p, s))"

definition rseq :: "rx \<Rightarrow> rx \<Rightarrow> rx" where
  "rseq p q = (if q = REmpty then p else RSeq p q)"

text \<open>Recursive descent; the number of groups opened so far is threaded through. The first argument
  bounds the depth, and three steps per character are enough.\<close>

fun read_alt :: "nat \<Rightarrow> nat \<Rightarrow> nat list \<Rightarrow> (rx \<times> nat \<times> nat list) option"
and read_terms :: "nat \<Rightarrow> nat \<Rightarrow> nat list \<Rightarrow> (rx \<times> nat \<times> nat list) option"
and read_atom :: "nat \<Rightarrow> nat \<Rightarrow> nat list \<Rightarrow> (rx \<times> nat \<times> nat list) option" where
  "read_alt 0 k s = None"
| "read_alt (Suc n) k s =
     (case read_terms n k s of
        Some (p, k', c # s') \<Rightarrow>
          if c = 124 then map_option (\<lambda>(q, k'', t). (RAlt p q, k'', t)) (read_alt n k' s') else Some (p, k', c # s')
      | x \<Rightarrow> x)"
| "read_terms 0 k s = None"
| "read_terms (Suc n) k cs = (case cs of [] \<Rightarrow> Some (REmpty, k, []) | c # s \<Rightarrow>
      if c = 124 \<or> c = 41 then Some (REmpty, k, c # s)
      else
        (case read_atom n k (c # s) of
           None \<Rightarrow> None
         | Some (p, k', r) \<Rightarrow>
             (case read_quant p r of
                (p', r') \<Rightarrow> map_option (\<lambda>(q, k'', t). (rseq p' q, k'', t)) (read_terms n k' r'))))"
| "read_atom 0 k s = None"
| "read_atom (Suc n) k cs = (case cs of [] \<Rightarrow> None | c # s \<Rightarrow>
      if c = 40 then
        (case s of
           d # e # g # s' \<Rightarrow>
             if d = 63 \<and> e = 58 then
               (case read_alt n k (g # s') of Some (p, k', t) \<Rightarrow> Some (p, k', drop 1 t) | None \<Rightarrow> None)
             else if d = 63 \<and> (e = 61 \<or> e = 33) then
               (case read_alt n k (g # s') of Some (p, k', t) \<Rightarrow> Some (RAhead (e = 61) p, k', drop 1 t) | None \<Rightarrow> None)
             else if d = 63 \<and> e = 60 \<and> (g = 61 \<or> g = 33) then
               (case read_alt n k s' of
                  Some (RSet False is, k', t) \<Rightarrow> Some (RPrev (g = 61) is, k', drop 1 t) | _ \<Rightarrow> None)
             else (case read_alt n (Suc k) s of Some (p, k', t) \<Rightarrow> Some (RCap (Suc k) p, k', drop 1 t) | None \<Rightarrow> None)
         | _ \<Rightarrow> (case read_alt n (Suc k) s of Some (p, k', t) \<Rightarrow> Some (RCap (Suc k) p, k', drop 1 t) | None \<Rightarrow> None))
      else if c = 91 then map_option (\<lambda>(p, t). (p, k, t)) (read_set s)
      else if c = 46 then Some (RDot, k, s)
      else if c = 94 then Some (RStart, k, s)
      else if c = 36 then Some (REnd, k, s)
      else if c = esc then
        (case s of
           d # s' \<Rightarrow>
             if d = 98 then Some (RBound True, k, s') else if d = 66 then Some (RBound False, k, s')
             else map_option (\<lambda>(i, t). (RSet False [i], k, t)) (read_escape s)
         | [] \<Rightarrow> None)
      else Some (RSet False [IRange c c], k, s))"

definition read_rx :: "string \<Rightarrow> rx option" where
  "read_rx p =
     (case read_alt (3 * length p + 3) 0 (lit p) of Some (r, _, []) \<Rightarrow> Some r | _ \<Rightarrow> None)"

definition re :: "string \<Rightarrow> rx" where
  "re p = (case read_rx p of Some r \<Rightarrow> r | None \<Rightarrow> RFail)"

section \<open>Searching\<close>

text \<open>\<^verbatim>\<open>exec\<close> from a position on: the text before the match and the state after it.\<close>

fun rx_find :: "rxflags \<Rightarrow> rx \<Rightarrow> nat list \<Rightarrow> nat list \<Rightarrow> (nat list \<times> rstate) option" where
  "rx_find fl r b [] = (case rmatch fl r (b, [], []) of s # _ \<Rightarrow> Some (b, s) | [] \<Rightarrow> None)"
| "rx_find fl r b (x # a) =
     (case rmatch fl r (b, x # a, []) of s # _ \<Rightarrow> Some (b, s) | [] \<Rightarrow> rx_find fl r (x # b) a)"

definition rx_test :: "rxflags \<Rightarrow> rx \<Rightarrow> ustr \<Rightarrow> bool" where
  "rx_test fl r s \<longleftrightarrow> rx_find fl r [] (cps s) \<noteq> None"

text \<open>The groups of the first match.\<close>

definition rx_groups :: "rxflags \<Rightarrow> rx \<Rightarrow> ustr \<Rightarrow> (nat \<Rightarrow> ustr) option" where
  "rx_groups fl r s =
     (case rx_find fl r [] (cps s) of
        None \<Rightarrow> None
      | Some (b, b', a', c) \<Rightarrow>
          Some (\<lambda>n. if n = 0 then of_cps (rev (take (length b' - length b) b'))
                   else (case map_of c n of Some t \<Rightarrow> of_cps t | None \<Rightarrow> [])))"

text \<open>Every match in turn, for the \<^verbatim>\<open>g\<close> flag: the text before it, the match, its groups and the
  text after it. The first argument bounds their number; a text has at most one more than it has
  characters.\<close>

fun rx_all :: "nat \<Rightarrow> rxflags \<Rightarrow> rx \<Rightarrow> nat list \<Rightarrow> nat list
    \<Rightarrow> (nat list \<times> nat list \<times> (nat \<times> nat list) list \<times> nat list) list" where
  "rx_all 0 fl r b a = []"
| "rx_all (Suc n) fl r b a =
     (case rx_find fl r b a of
        None \<Rightarrow> []
      | Some (b0, b', a', c) \<Rightarrow>
          (b0, rev (take (length b' - length b0) b'), c, a') #
          (if length b' = length b0 then (case a' of [] \<Rightarrow> [] | x # a'' \<Rightarrow> rx_all n fl r (x # b') a'')
           else rx_all n fl r b' a'))"

definition rx_matches :: "rxflags \<Rightarrow> rx \<Rightarrow> nat list \<Rightarrow> (nat list \<times> nat list \<times> (nat \<times> nat list) list \<times> nat list) list" where
  "rx_matches fl r a = rx_all (Suc (length a)) fl r [] a"

text \<open>\<^verbatim>\<open>replace\<close> with the \<^verbatim>\<open>g\<close> flag: the text up to each match, then what \<open>f\<close> makes of its groups.\<close>

fun splice :: "(((nat \<times> nat list) list) \<Rightarrow> nat list) \<Rightarrow> nat
    \<Rightarrow> (nat list \<times> nat list \<times> (nat \<times> nat list) list \<times> nat list) list \<Rightarrow> nat list \<Rightarrow> nat list" where
  "splice f from [] all = drop from all"
| "splice f from ((b, t, c, _) # ms) all =
     slice from (length b) all @ f c @ splice f (length b + length t) ms all"

definition group :: "(nat \<times> nat list) list \<Rightarrow> nat \<Rightarrow> nat list" where
  "group c n = (case map_of c n of Some t \<Rightarrow> t | None \<Rightarrow> [])"

definition replace_rx :: "rxflags \<Rightarrow> rx \<Rightarrow> (((nat \<times> nat list) list) \<Rightarrow> nat list) \<Rightarrow> ustr \<Rightarrow> ustr" where
  "replace_rx fl r f s = of_cps (splice f 0 (rx_matches fl r (cps s)) (cps s))"

text \<open>\<^verbatim>\<open>split\<close> on a pattern that never matches the empty text.\<close>

fun pieces :: "nat \<Rightarrow> (nat list \<times> nat list \<times> (nat \<times> nat list) list \<times> nat list) list \<Rightarrow> nat list \<Rightarrow> nat list list" where
  "pieces from [] all = [drop from all]"
| "pieces from ((b, t, _) # ms) all = slice from (length b) all # pieces (length b + length t) ms all"

definition split_rx :: "rxflags \<Rightarrow> rx \<Rightarrow> ustr \<Rightarrow> ustr list" where
  "split_rx fl r s = map of_cps (pieces 0 (rx_matches fl r (cps s)) (cps s))"

end
