(* ===== verification/Claim_Safety.thy ===== *)
theory Claim_Safety
  imports Reg_Exp
begin

text \<open>
  The claim-safety rules for customer-visible text
  (\<^verbatim>\<open>packages/protocol-ts/src/claim-safety.ts\<close> with the phrase lists of
  \<^verbatim>\<open>generated/claim-safety-policy.ts\<close>): normalization, forbidden phrases, personal data,
  assurance families with their negations, closure claims and source-like text. Unicode
  normalization and lower-casing are the two tables of the platform the rules read.
\<close>

record text_platform =
  nfkc :: "ustr \<Rightarrow> ustr"
  toLowerCase :: "ustr \<Rightarrow> ustr"

section \<open>The policy\<close>

definition CLAIM_SAFE_FORBIDDEN_PHRASES :: "string list" where
  "CLAIM_SAFE_FORBIDDEN_PHRASES =
     [''received_with_receipt'', ''review complete'', ''codeattest reviewed'', ''vendor receipt'', ''auditor acceptance'',
      ''auditor accepted'', ''auditor approved'', ''regulator acceptance'', ''regulator accepted'', ''independent assurance'',
      ''no vulnerabilities'', ''absence of vulnerabilities'', ''verification accepted'', ''remediation complete'',
      ''control accepted'', ''control is satisfied'', ''control satisfied'', ''soc 2 acceptance'', ''soc 2 accepted'',
      ''soc 2 certified'', ''soc 2 certification'', ''soc 2 compliant'', ''soc2 acceptance'', ''soc2 accepted'',
      ''soc2 certified'', ''soc2 certification'', ''soc2 compliant'', ''regulator approval'', ''regulator approved'',
      ''regulatory approval'', ''regulatory accepted'', ''control effectiveness proven'', ''controls are effective'',
      ''security guaranteed'', ''secure by codeattest'', ''certification granted'', ''granted certification'',
      ''deployment certified'', ''is certified'']"

definition CLAIM_SAFE_POSITIVE_CLOSURE_PHRASES :: "string list" where
  "CLAIM_SAFE_POSITIVE_CLOSURE_PHRASES =
     [''fresh full review'', ''complete fresh review'', ''full secure-code review'', ''fixed'', ''verified'', ''remediated'',
      ''resolved'', ''verification complete'', ''regulator approved'', ''auditor accepted'', ''certified'',
      ''control satisfied'', ''independent assurance'', ''no vulnerabilities'']"

definition CLAIM_SAFE_TYPED_REFERENCE_NAMESPACES :: "string list" where
  "CLAIM_SAFE_TYPED_REFERENCE_NAMESPACES =
     [''accepted_risk'', ''artifact_ref'', ''attestation_finalization'', ''mapping_entry'', ''pilot_feedback'', ''pilot_metric'',
      ''portal_document'', ''static_bundle'', ''static_portal_projection'', ''supporting_evidence_mapping'',
      ''candidate_finding'', ''classification_record'', ''customer'', ''customer_facing_finding'', ''customer_selection'',
      ''customer_status'', ''false_positive'', ''remediation_guidance'', ''review'', ''review_finding_draft'',
      ''validation_path'', ''validation_script'', ''verification_pass'']"

definition CLAIM_SAFE_TEXT_MAX_LENGTH :: nat where "CLAIM_SAFE_TEXT_MAX_LENGTH = 65536"

definition PII_EMAIL_ADDRESS_PATTERN_SOURCE :: string where
  "PII_EMAIL_ADDRESS_PATTERN_SOURCE = ''~b[a-z0-9][a-z0-9._%+-]{0,63}@([a-z0-9.-]{1,253}~.[a-z]{2,63})~b''"

definition SOURCE_TEXT_FORBIDDEN_PHRASES :: "string list" where
  "SOURCE_TEXT_FORBIDDEN_PHRASES =
     [''eval('1 + 1')'', ''raw scanner output'', ''scanner stdout'', ''scanner stderr'', ''secret='', ''secret:'',
      ''password='', ''password:'', ''api_key='', ''api_key:'', ''api-key='', ''api-key:'', ''token='', ''token:'',
      ''authorization: bearer'']"

definition TEXT_TOO_LONG_REASON :: ustr where "TEXT_TOO_LONG_REASON = lit ''text_too_long''"

definition CUSTOMER_VISIBLE_ASSURANCE_FAMILY_PATTERNS :: "(string \<times> string) list" where
  "CUSTOMER_VISIBLE_ASSURANCE_FAMILY_PATTERNS =
     [(''certifies_code_claim'',
       ''~bcertif(?:y|ies|ied|ication)~b[^.!?]{0,60}~b(?:code|application|package|product|deployment|system|software)~b''),
      (''audit_ready_claim'', ''~baudit[- ]?(?:safe|ready|readiness|accepted|acceptance)~b''),
      (''soc2_readiness_claim'',
       ''~bsoc 2~b[^.!?]{0,30}~b(?:read(?:y|iness)|accept(?:ed|ance)|certif(?:y|ies|ied|ication)|complian(?:t|ce))~b''),
      (''secure_conclusion_claim'', ''~b(?:confirms?|proves?|guarantees?|ensures?)~b[^.!?]{0,60}~b(?:is~s+)?secure~b''),
      (''compliance_guarantee_claim'', ''~bguarantees?~b[^.!?]{0,60}~bcomplian(?:t|ce)~b''),
      (''zero_vulnerability_claim'',
       ''~b(?:zero|no|without~s+any|free~s+of|absence~s+of)~b[^.!?]{0,40}~bvulnerab(?:le|ilit(?:y|ies))~b''),
      (''vulnerability_free_claim'', ''~bvulnerab(?:le|ility|ilities)[- ]free~b'')]"

definition PII_FAMILY_PATTERNS :: "(string \<times> string) list" where
  "PII_FAMILY_PATTERNS =
     [(''email_address'', PII_EMAIL_ADDRESS_PATTERN_SOURCE),
      (''phone_number'', ''~b(?:phone|telephone|mobile|cell|fax|contact)~s*(?:number)?~s*[:=]~s*~+?[~d~s().-]{7,}~d~b''),
      (''unlabeled_phone_number'', ''~b(?:~(~d{3}~)~s?~d{3}-~d{4}|~d{3}-~d{3}-~d{4})~b''),
      (''customer_identifier_field'', ''~b(?:user|uid|customer|device|account|session)[_-]?id~s*[:=]''),
      (''ip_address'', ''~b(?:(?:25[0-5]|2[0-4]~d|1?~d?~d)~.){3}(?:25[0-5]|2[0-4]~d|1?~d?~d)~b''),
      (''street_address'',
       ''~b~d{1,5}~s+[a-z](?:[a-z.']*~s+){0,3}(?:street|st|avenue|ave|road|rd|boulevard|blvd|lane|ln|drive|dr|way|court|ct)~b''),
      (''credential_variant'', ''~b(?:access_token|refresh_token|client_secret|private_key|secret_key)~s*[:=]''),
      (''cloud_credential'', ''~bakia[0-9a-z]{16}~b''),
      (''ssn'', ''~b~d{3}-~d{2}-~d{4}~b'')]"

definition HIDDEN_CONTROL_CODEPOINT_RANGES :: "(nat \<times> nat) list" where
  "HIDDEN_CONTROL_CODEPOINT_RANGES =
     [(0x00ad, 0x00ad), (0x200b, 0x200f), (0x2060, 0x2064), (0x2066, 0x2069), (0x202a, 0x202e), (0xfeff, 0xfeff)]"

definition FAMILY_NEGATION_CUE_PATTERN :: string where
  "FAMILY_NEGATION_CUE_PATTERN =
     ''~b(?:not|no|never|without|does not|do not|cannot|is not|are not|was not|were not|has not been|have not been)~b''"

definition NEGATION_GUARD_PATTERN :: string where
  "NEGATION_GUARD_PATTERN =
     ''(?:~bnot|~bno|~bnever|~bwithout|~bdoes not|~bdo not|~bcannot|~bis not|~bwas not|~bhas not been)(?:~s+[^,;.!?]{0,40})?$''"

definition FRESH_REVIEW_CLOSURE_PATTERN :: string where
  "FRESH_REVIEW_CLOSURE_PATTERN = ''~b(?:complete~s+fresh|fresh~s+full|complete~s+full)(?:~s+secure-code)?~s+review~b''"

section \<open>Normalization\<close>

definition containsHiddenControlCharacter :: "ustr \<Rightarrow> bool" where
  "containsHiddenControlCharacter value \<longleftrightarrow>
     list_ex (\<lambda>c. list_ex (\<lambda>(s, e). s \<le> c \<and> c \<le> e) HIDDEN_CONTROL_CODEPOINT_RANGES) (cps value)"

text \<open>The dashes and the invisible characters of the first two classes are given by number.\<close>

definition normalizeForbiddenText :: "text_platform \<Rightarrow> ustr \<Rightarrow> ustr" where
  "normalizeForbiddenText T value =
     (let v = nfkc T value;
          v = replace_rx fl_u (re ''[~u{2010}~u{2011}~u{2012}~u{2013}~u{2014}~u{2015}~u{2212}~u{fe63}~u{ff0d}]'') (\<lambda>_. lit ''-'') v;
          v = replace_rx fl_u (re ''[~u{ad}~u{200b}-~u{200f}~u{2060}~u{feff}]'') (\<lambda>_. []) v;
          v = replace_rx fl_u (re ''~s+'') (\<lambda>_. lit '' '') v;
          v = toLowerCase T (trim v);
          v = replace_rx fl_u (re ''~bsoc~s*-~s*2~b'') (\<lambda>_. lit ''soc 2'') v;
          v = replace_rx fl_u (re ''~bsoc2~b'') (\<lambda>_. lit ''soc 2'') v;
          v = replace_rx fl_u (re ''~s*([:=])~s*'') (\<lambda>g. group g 1) v;
          v = replace_rx fl_u (re ''~bs~s+e~s+c~s+r~s+e~s+t([=:])'') (\<lambda>g. lit ''secret'' @ group g 1) v;
          v = replace_rx fl_u (re ''~bp~s+a~s+s~s+s~s+w~s+o~s+r~s+d([=:])'') (\<lambda>g. lit ''password'' @ group g 1) v;
          v = replace_rx fl_u (re ''~bt~s+o~s+k~s+e~s+n([=:])'') (\<lambda>g. lit ''token'' @ group g 1) v;
          v = replace_rx fl_u (re ''~ba[~s_-]*p[~s_-]*i[~s_-]*k[~s_-]*e[~s_-]*y([=:])'') (\<lambda>g. lit ''api_key'' @ group g 1) v;
          v = replace_rx fl_u (re ''~bapi[~s_-]*key~b'') (\<lambda>_. lit ''api_key'') v;
          v = replace_rx fl_u (re ''~bauthorization~s*[:=]?~s*bearer~b'') (\<lambda>_. lit ''authorization:bearer'') v
      in replace_rx fl_u (re ''~b(secret|password|api_key|api-key|token)([=:])~s+'') (\<lambda>g. group g 1 @ group g 2) v)"

section \<open>Forbidden phrases\<close>

definition alnum_lower :: "nat \<Rightarrow> bool" where
  "alnum_lower c \<longleftrightarrow> 97 \<le> c \<and> c \<le> 122 \<or> 48 \<le> c \<and> c \<le> 57"

definition alnum_items :: "ritem list" where "alnum_items = [IRange 97 122, IRange 48 57]"

text \<open>The pattern built from an escaped phrase: its characters, with each space standing for a run of
  separators when the text has spaces.\<close>

definition rx_phrase :: "bool \<Rightarrow> ustr \<Rightarrow> rx" where
  "rx_phrase tolerates phrase =
     foldr (\<lambda>c r. RSeq (if tolerates \<and> c = 32 then RRep True (RSet False [ISpace True, IRange 95 95, IRange 45 45]) 1 None
                        else RSet False [IRange c c]) r) (cps phrase) REmpty"

definition bounded_start :: "ustr \<Rightarrow> bool" where
  "bounded_start phrase \<longleftrightarrow> rx_test fl_u (re ''^[a-z0-9]'') phrase"

definition bounded_end :: "ustr \<Rightarrow> bool" where
  "bounded_end phrase \<longleftrightarrow> rx_test fl_u (re ''[a-z0-9]$'') phrase"

definition phrase_pattern :: "bool \<Rightarrow> ustr \<Rightarrow> rx" where
  "phrase_pattern tolerates phrase =
     RSeq (if bounded_start phrase then RAlt RStart (RSet True alnum_items) else REmpty)
       (RSeq (rx_phrase tolerates phrase)
         (if bounded_end phrase then RAlt REnd (RSet True alnum_items) else REmpty))"

definition firstForbiddenPhrase :: "text_platform \<Rightarrow> jsval \<Rightarrow> string list \<Rightarrow> ustr option" where
  "firstForbiddenPhrase T value phrases =
     (case value of
        JStr s \<Rightarrow>
          if length s > CLAIM_SAFE_TEXT_MAX_LENGTH then Some TEXT_TOO_LONG_REASON
          else if containsHiddenControlCharacter s then Some (lit ''hidden_control_character'')
          else
            (let normalized = normalizeForbiddenText T s; toleratesSeparators = str_includes (lit '' '') normalized in
             map_option lit (find_first (\<lambda>phrase.
               rx_test fl_u (phrase_pattern toleratesSeparators (normalizeForbiddenText T (lit phrase))) normalized) phrases))
      | _ \<Rightarrow> None)"

definition claimSafeForbiddenPhrase :: "text_platform \<Rightarrow> jsval \<Rightarrow> ustr option" where
  "claimSafeForbiddenPhrase T value = firstForbiddenPhrase T value CLAIM_SAFE_FORBIDDEN_PHRASES"

definition sourceTextForbiddenPhrase :: "text_platform \<Rightarrow> jsval \<Rightarrow> ustr option" where
  "sourceTextForbiddenPhrase T value = firstForbiddenPhrase T value SOURCE_TEXT_FORBIDDEN_PHRASES"

section \<open>Personal data and assurance families\<close>

definition isTypedIdentityNamespace :: "ustr \<Rightarrow> bool" where
  "isTypedIdentityNamespace value \<longleftrightarrow> value \<in> set (map lit CLAIM_SAFE_TYPED_REFERENCE_NAMESPACES)"

definition isTypedIdentityReference :: "ustr \<Rightarrow> bool" where
  "isTypedIdentityReference value =
     (case rx_groups fl_u (re ''^([a-z_]+):([a-z0-9][a-z0-9_-]{2,63})$'') (trim value) of
        None \<Rightarrow> False | Some g \<Rightarrow> isTypedIdentityNamespace (g 1))"

definition piiTextForbidden :: "text_platform \<Rightarrow> jsval \<Rightarrow> ustr option" where
  "piiTextForbidden T value =
     (case value of
        JStr s \<Rightarrow>
          if length s > CLAIM_SAFE_TEXT_MAX_LENGTH then Some TEXT_TOO_LONG_REASON
          else if isTypedIdentityReference (normalizeForbiddenText T s) then None
          else map_option (\<lambda>(i, p). lit i) (find_first (\<lambda>(i, p). rx_test fl_u (re p) (normalizeForbiddenText T s)) PII_FAMILY_PATTERNS)
      | _ \<Rightarrow> None)"

definition splitNormalizedClauses :: "ustr \<Rightarrow> ustr list" where
  "splitNormalizedClauses value = filter (\<lambda>c. c \<noteq> []) (map trim (split_rx fl_u (re ''[.;!?]+'') value))"

text \<open>Where the clause segment of a match that starts at \<open>at\<close> begins: after the last conjunction
  that starts before it.\<close>

definition segment_start :: "nat list \<Rightarrow> nat \<Rightarrow> nat" where
  "segment_start clause at =
     (case takeWhile (\<lambda>(b, _). length b < at)
         (rx_matches fl_u (re ''~band~b|~bbut~b|~bhowever~b|~bthough~b|~byet~b'') clause) of
        [] \<Rightarrow> 0
      | ms \<Rightarrow> (case last ms of (b, t, _) \<Rightarrow> length b + length t))"

definition familyClaimAppearsPositively :: "ustr \<Rightarrow> string \<Rightarrow> bool" where
  "familyClaimAppearsPositively clause pattern \<longleftrightarrow>
     list_ex (\<lambda>(b, _). \<not> rx_test fl_u (re FAMILY_NEGATION_CUE_PATTERN)
         (of_cps (slice (segment_start (cps clause) (length b)) (length b) (cps clause))))
       (rx_matches fl_u (re pattern) (cps clause))"

definition customerVisibleTextForbidden :: "text_platform \<Rightarrow> jsval \<Rightarrow> ustr option" where
  "customerVisibleTextForbidden T value =
     (case claimSafeForbiddenPhrase T value of
        Some p \<Rightarrow> Some p
      | None \<Rightarrow>
          (case value of
             JStr s \<Rightarrow>
               if containsHiddenControlCharacter s then Some (lit ''hidden_control_character'')
               else (case piiTextForbidden T value of
                   Some p \<Rightarrow> Some p
                 | None \<Rightarrow>
                     map_option (\<lambda>(i, p). lit i)
                       (find_first (\<lambda>_. True) (List.map_filter (\<lambda>clause.
                          find_first (\<lambda>(i, p). familyClaimAppearsPositively clause p) CUSTOMER_VISIBLE_ASSURANCE_FAMILY_PATTERNS)
                          (splitNormalizedClauses (normalizeForbiddenText T s)))))
           | _ \<Rightarrow> None))"

definition attestationClaimUnsafePhrase :: "text_platform \<Rightarrow> jsval \<Rightarrow> ustr option" where
  "attestationClaimUnsafePhrase T value = customerVisibleTextForbidden T value"

section \<open>Source-like text\<close>

definition DYNAMIC_EXECUTION_PATTERN :: string where
  "DYNAMIC_EXECUTION_PATTERN = ''~b(?:eval|exec|new~s+Function)~s*~(''"

definition CODE_FENCE_OR_SHEBANG_PATTERN :: string where
  "CODE_FENCE_OR_SHEBANG_PATTERN = ''```|^#!''"

definition FILE_LINE_REFERENCE_PATTERN :: string where
  "FILE_LINE_REFERENCE_PATTERN =
     ''~b[~w./-]+~.(?:ts|tsx|js|jsx|mjs|cjs|py|rb|go|java|kt|c|cc|cpp|h|hpp|cs|php|rs|sh)~s*:~s*~d+~b''"

definition CODE_SYNTAX_PATTERN :: string where
  "CODE_SYNTAX_PATTERN =
     ''~b(?:if|for|while|switch|function)~s*~(|~bclass~s+[A-Za-z_$][~w$]*|~b(?:const|let|var)~s+[A-Za-z_$][~w$]*~s*=|=>|[^=!<>]=[^=]|~b[a-zA-Z_$][~w.$]*~([^()]*~)''"

definition AUTHORIZATION_CONDITIONAL_PATTERN :: string where
  "AUTHORIZATION_CONDITIONAL_PATTERN = ''~bif~s*~([^{}]{0,200}?~)~s*~{''"

definition AUTHORIZATION_KEYWORD_PATTERN :: string where
  "AUTHORIZATION_KEYWORD_PATTERN =
     ''~b(?:admin|authorize[ds]?|authorizing|authorization|permission|role|is[_-]?admin|is[_-]?authorized|access[_-]?control)~b''"

definition sourceCodeLikeTextReason :: "jsval \<Rightarrow> ustr option" where
  "sourceCodeLikeTextReason value =
     (case value of
        JStr s \<Rightarrow>
          if length s > CLAIM_SAFE_TEXT_MAX_LENGTH then Some TEXT_TOO_LONG_REASON
          else if rx_test fl_mu (re CODE_FENCE_OR_SHEBANG_PATTERN) s then Some (lit ''code_fence_or_shebang'')
          else if rx_test fl_u (re DYNAMIC_EXECUTION_PATTERN) s then Some (lit ''dynamic_execution_call'')
          else if rx_test fl_u (re AUTHORIZATION_CONDITIONAL_PATTERN) s \<and> rx_test fl_iu (re AUTHORIZATION_KEYWORD_PATTERN) s
            then Some (lit ''authorization_conditional_with_executable_syntax'')
          else if rx_test fl_iu (re FILE_LINE_REFERENCE_PATTERN) s \<and> rx_test fl_u (re CODE_SYNTAX_PATTERN) s
            then Some (lit ''source_location_with_code_syntax'')
          else None
      | _ \<Rightarrow> None)"

definition isAttestationClaimSafe :: "text_platform \<Rightarrow> jsval \<Rightarrow> bool" where
  "isAttestationClaimSafe T value \<longleftrightarrow>
     attestationClaimUnsafePhrase T value = None \<and> sourceTextForbiddenPhrase T value = None"

section \<open>Closure claims\<close>

text \<open>One match of a closure pattern: the text before it, its boundary group when there is one, and
  whether an explicit negation right before it disarms it.\<close>

definition match_negated :: "bool \<Rightarrow> nat list \<times> nat list \<times> (nat \<times> nat list) list \<times> nat list \<Rightarrow> bool" where
  "match_negated hasCaptureGroupBoundary = (\<lambda>(b, _, g, _).
     (let before = of_cps (rev b) @ (if hasCaptureGroupBoundary then of_cps (group g 1) else []);
          leadingWindow = trim_end (drop (length before - 64) before) in
      leadingWindow \<noteq> [] \<and>
      rx_test fl_u (re NEGATION_GUARD_PATTERN)
        (trim (last (split_rx fl_u (re '',|;|:|(?<!~w)-(?!~w)|~band~b|~bbut~b|~bhowever~b|~bthough~b|~byet~b'') leadingWindow)))))"

definition regexAppearsPositively :: "ustr \<Rightarrow> rx \<Rightarrow> bool \<Rightarrow> bool" where
  "regexAppearsPositively clause r hasCaptureGroupBoundary \<longleftrightarrow>
     list_ex (\<lambda>mt. \<not> match_negated hasCaptureGroupBoundary mt) (rx_matches fl_u r (cps clause))"

definition phraseAppearsPositively :: "ustr \<Rightarrow> ustr \<Rightarrow> bool" where
  "phraseAppearsPositively clause phrase =
     regexAppearsPositively clause
       (RSeq (if bounded_start phrase then RCap 1 (RAlt RStart (RSet True alnum_items)) else REmpty)
         (RSeq (rx_phrase False phrase) (if bounded_end phrase then RAlt REnd (RSet True alnum_items) else REmpty)))
       (bounded_start phrase)"

fun closure_in_clauses :: "text_platform \<Rightarrow> ustr list \<Rightarrow> ustr option" where
  "closure_in_clauses T [] = None"
| "closure_in_clauses T (clause # clauses) =
     (case find_first (\<lambda>phrase. phraseAppearsPositively clause (normalizeForbiddenText T (lit phrase)))
         CLAIM_SAFE_POSITIVE_CLOSURE_PHRASES of
        Some phrase \<Rightarrow> Some (lit phrase)
      | None \<Rightarrow>
          if regexAppearsPositively clause (re FRESH_REVIEW_CLOSURE_PATTERN) False then
            Some (lit ''complete fresh secure-code review'')
          else closure_in_clauses T clauses)"

definition claimSafePositiveClosurePhrase :: "text_platform \<Rightarrow> jsval \<Rightarrow> ustr option" where
  "claimSafePositiveClosurePhrase T value =
     (case value of
        JStr s \<Rightarrow>
          if length s > CLAIM_SAFE_TEXT_MAX_LENGTH then Some TEXT_TOO_LONG_REASON
          else if isTypedIdentityReference (normalizeForbiddenText T s) then None
          else closure_in_clauses T (splitNormalizedClauses (normalizeForbiddenText T s))
      | _ \<Rightarrow> None)"

section \<open>Actors and values\<close>

definition opaquePilotActorIdIsValid :: "jsval \<Rightarrow> jsval \<Rightarrow> bool" where
  "opaquePilotActorIdIsValid actorType actorId =
     (case (actorType, actorId) of
        (JStr ty, JStr i) \<Rightarrow> rx_test fl_u (RSeq RStart (RSeq (rx_phrase False ty) (re '':[a-z0-9][a-z0-9_-]{2,63}$''))) i
      | _ \<Rightarrow> False)"

fun containsPiiValue :: "text_platform \<Rightarrow> jsval \<Rightarrow> bool" where
  "containsPiiValue T (JArr vs) = list_ex (containsPiiValue T) vs"
| "containsPiiValue T (JObj kvs) = list_ex (\<lambda>p. containsPiiValue T (snd p)) kvs"
| "containsPiiValue T v = (piiTextForbidden T v \<noteq> None)"

section \<open>What a phrase search finds\<close>

text \<open>Every pattern of the rules is read; none falls back to the pattern that matches nothing.\<close>

lemma assurance_patterns_read: "list_all (\<lambda>p. read_rx (snd p) \<noteq> None) CUSTOMER_VISIBLE_ASSURANCE_FAMILY_PATTERNS"
  by code_simp

lemma pii_patterns_read: "list_all (\<lambda>p. read_rx (snd p) \<noteq> None) PII_FAMILY_PATTERNS"
  by code_simp

lemma negation_patterns_read:
  "list_all (\<lambda>p. read_rx p \<noteq> None) [FAMILY_NEGATION_CUE_PATTERN, NEGATION_GUARD_PATTERN, FRESH_REVIEW_CLOSURE_PATTERN]"
  by code_simp

lemma source_patterns_read:
  "list_all (\<lambda>p. read_rx p \<noteq> None)
     [DYNAMIC_EXECUTION_PATTERN, CODE_FENCE_OR_SHEBANG_PATTERN, FILE_LINE_REFERENCE_PATTERN, CODE_SYNTAX_PATTERN,
      AUTHORIZATION_CONDITIONAL_PATTERN, AUTHORIZATION_KEYWORD_PATTERN]"
  by code_simp

lemma rx_find_iff:
  "rx_find fl r b a \<noteq> None \<longleftrightarrow> (\<exists>u w. a = u @ w \<and> rmatch fl r (rev u @ b, w, []) \<noteq> [])"
proof (induction a arbitrary: b)
  case (Cons x a)
  have "(\<exists>u w. x # a = u @ w \<and> rmatch fl r (rev u @ b, w, []) \<noteq> []) \<longleftrightarrow>
      rmatch fl r (b, x # a, []) \<noteq> [] \<or> (\<exists>u w. a = u @ w \<and> rmatch fl r (rev u @ x # b, w, []) \<noteq> [])"
    (is "?L \<longleftrightarrow> ?R")
  proof
    assume ?L
    then obtain u w where uw: "x # a = u @ w" "rmatch fl r (rev u @ b, w, []) \<noteq> []" by blast
    then show ?R by (cases u) auto
  next
    assume ?R
    then show ?L
    proof
      assume "rmatch fl r (b, x # a, []) \<noteq> []"
      then show ?L by (intro exI [of _ "[]"] exI [of _ "x # a"]) simp
    next
      assume "\<exists>u w. a = u @ w \<and> rmatch fl r (rev u @ x # b, w, []) \<noteq> []"
      then obtain u w where "a = u @ w" "rmatch fl r (rev u @ x # b, w, []) \<noteq> []" by blast
      then show ?L by (intro exI [of _ "x # u"] exI [of _ w]) simp
    qed
  qed
  then show ?case using Cons.IH [of "x # b"] by (auto split: list.splits)
qed (auto split: list.splits)

lemma rmatch_RSet: "s' \<in> set (rmatch fl (RSet n is) (b, a, c)) \<longleftrightarrow>
    (\<exists>x a'. a = x # a' \<and> in_set fl is x \<noteq> n \<and> s' = (x # b, a', c))"
  by (auto split: list.splits)

lemma ropt_RSet:
  "s' \<in> set (ropt True (rmatch fl (RSet False is)) k (b, a, c)) \<longleftrightarrow>
   (\<exists>y a'. a = y @ a' \<and> list_all (in_set fl is) y \<and> length y \<le> k \<and> s' = (rev y @ b, a', c))"
proof (induction k arbitrary: b a)
  case (Suc k)
  have "s' \<in> set (ropt True (rmatch fl (RSet False is)) (Suc k) (b, a, c)) \<longleftrightarrow>
      s' = (b, a, c) \<or> (\<exists>x a1. a = x # a1 \<and> in_set fl is x \<and> s' \<in> set (ropt True (rmatch fl (RSet False is)) k (x # b, a1, c)))"
    by (cases a) (auto simp: Let_def consumes_def)
  also have "\<dots> \<longleftrightarrow> s' = (b, a, c) \<or> (\<exists>x a1. a = x # a1 \<and> in_set fl is x \<and>
      (\<exists>y a'. a1 = y @ a' \<and> list_all (in_set fl is) y \<and> length y \<le> k \<and> s' = (rev y @ x # b, a', c)))"
    using Suc.IH by simp
  also have "\<dots> \<longleftrightarrow> (\<exists>y a'. a = y @ a' \<and> list_all (in_set fl is) y \<and> length y \<le> Suc k \<and> s' = (rev y @ b, a', c))"
    (is "?L \<longleftrightarrow> ?R")
  proof
    assume ?L
    then show ?R
    proof
      assume "s' = (b, a, c)" then show ?R by (intro exI [of _ "[]"] exI [of _ a]) simp
    next
      assume "\<exists>x a1. a = x # a1 \<and> in_set fl is x \<and>
        (\<exists>y a'. a1 = y @ a' \<and> list_all (in_set fl is) y \<and> length y \<le> k \<and> s' = (rev y @ x # b, a', c))"
      then obtain x y a' where "a = x # y @ a'" "in_set fl is x" "list_all (in_set fl is) y" "length y \<le> k"
        "s' = (rev y @ x # b, a', c)" by blast
      then show ?R by (intro exI [of _ "x # y"] exI [of _ a']) simp
    qed
  next
    assume ?R
    then obtain y a' where y: "a = y @ a'" "list_all (in_set fl is) y" "length y \<le> Suc k" "s' = (rev y @ b, a', c)" by blast
    then show ?L by (cases y) auto
  qed
  finally show ?case .
qed simp

lemma rmatch_run:
  "s' \<in> set (rmatch fl (RRep True (RSet False is) 1 None) (b, a, c)) \<longleftrightarrow>
   (\<exists>y a'. a = y @ a' \<and> y \<noteq> [] \<and> list_all (in_set fl is) y \<and> s' = (rev y @ b, a', c))" (is "?L \<longleftrightarrow> ?R")
proof -
  have "?L \<longleftrightarrow> (\<exists>x a1. a = x # a1 \<and> in_set fl is x \<and> s' \<in> set (ropt True (rmatch fl (RSet False is)) (length a) (x # b, a1, c)))"
    by (cases a) (auto simp del: ropt.simps)
  also have "\<dots> \<longleftrightarrow> ?R"
  proof
    assume "\<exists>x a1. a = x # a1 \<and> in_set fl is x \<and> s' \<in> set (ropt True (rmatch fl (RSet False is)) (length a) (x # b, a1, c))"
    then obtain x y a' where "a = x # y @ a'" "in_set fl is x" "list_all (in_set fl is) y" "s' = (rev y @ x # b, a', c)"
      by (auto simp: ropt_RSet simp del: ropt.simps)
    then show ?R by (intro exI [of _ "x # y"] exI [of _ a']) simp
  next
    assume ?R
    then obtain y a' where y: "a = y @ a'" "y \<noteq> []" "list_all (in_set fl is) y" "s' = (rev y @ b, a', c)" by blast
    then obtain x z where "y = x # z" by (cases y) auto
    with y show "\<exists>x a1. a = x # a1 \<and> in_set fl is x \<and> s' \<in> set (ropt True (rmatch fl (RSet False is)) (length a) (x # b, a1, c))"
      by (intro exI [of _ x] exI [of _ "z @ a'"]) (simp add: ropt_RSet del: ropt.simps)
  qed
  finally show ?thesis .
qed

text \<open>The texts that spell a phrase: its characters in order, where a space stands for any run of
  white space, hyphens and underscores when separators are tolerated.\<close>

definition is_separator :: "nat \<Rightarrow> bool" where
  "is_separator c \<longleftrightarrow> js_space c \<or> c = 95 \<or> c = 45"

fun spells :: "bool \<Rightarrow> nat list \<Rightarrow> nat list \<Rightarrow> bool" where
  "spells tol [] x = (x = [])"
| "spells tol (p # ps) x =
     (if tol \<and> p = 32 then \<exists>y z. x = y @ z \<and> y \<noteq> [] \<and> list_all is_separator y \<and> spells tol ps z
      else \<exists>z. x = p # z \<and> spells tol ps z)"

lemma in_set_single [simp]: "in_set fl_u [IRange c c] x \<longleftrightarrow> x = c"
  by (auto simp: in_set_def case_variants_def fl_u_def)

lemma in_set_separators: "in_set fl_u [ISpace True, IRange 95 95, IRange 45 45] = is_separator"
  by (intro ext) (auto simp: in_set_def case_variants_def fl_u_def is_separator_def)

lemma not_multiline [simp]: "\<not> multiline fl_u"
  by (simp add: fl_u_def)

lemma in_set_alnum: "in_set fl_u alnum_items = alnum_lower"
  by (intro ext) (auto simp: in_set_def case_variants_def fl_u_def alnum_lower_def alnum_items_def)

lemma rx_phrase_match:
  "s' \<in> set (rmatch fl_u (rx_phrase tol ph) (b, a, c)) \<longleftrightarrow>
   (\<exists>x a'. a = x @ a' \<and> spells tol (cps ph) x \<and> s' = (rev x @ b, a', c))"
proof -
  define f where "f = (\<lambda>c r. RSeq (if tol \<and> c = 32 then RRep True (RSet False [ISpace True, IRange 95 95, IRange 45 45]) 1 None
                        else RSet False [IRange c c]) r)"
  have "s' \<in> set (rmatch fl_u (foldr f ps REmpty) (b, a, c)) \<longleftrightarrow>
      (\<exists>x a'. a = x @ a' \<and> spells tol ps x \<and> s' = (rev x @ b, a', c))" for ps
  proof (induction ps arbitrary: b a)
    case (Cons p ps)
    have step: "s' \<in> set (rmatch fl_u (RSeq q (foldr f ps REmpty)) (b, a, c)) \<longleftrightarrow>
        (\<exists>s1 \<in> set (rmatch fl_u q (b, a, c)). s' \<in> set (rmatch fl_u (foldr f ps REmpty) s1))" for q by simp
    show ?case
    proof (cases "tol \<and> p = 32")
      case True
      then have e: "foldr f (p # ps) REmpty = RSeq (RRep True (RSet False [ISpace True, IRange 95 95, IRange 45 45]) 1 None) (foldr f ps REmpty)"
        by (simp add: f_def)
      have "s' \<in> set (rmatch fl_u (foldr f (p # ps) REmpty) (b, a, c)) \<longleftrightarrow>
          (\<exists>y a1. a = y @ a1 \<and> y \<noteq> [] \<and> list_all is_separator y \<and> s' \<in> set (rmatch fl_u (foldr f ps REmpty) (rev y @ b, a1, c)))"
        unfolding e step Bex_def rmatch_run in_set_separators by blast
      also have "\<dots> \<longleftrightarrow> (\<exists>x a'. a = x @ a' \<and> spells tol (p # ps) x \<and> s' = (rev x @ b, a', c))"
      proof
        assume "\<exists>y a1. a = y @ a1 \<and> y \<noteq> [] \<and> list_all is_separator y \<and> s' \<in> set (rmatch fl_u (foldr f ps REmpty) (rev y @ b, a1, c))"
        then obtain y z a' where "a = y @ z @ a'" "y \<noteq> []" "list_all is_separator y" "spells tol ps z"
          "s' = (rev z @ rev y @ b, a', c)" unfolding Cons.IH by blast
        moreover from this True have "spells tol (p # ps) (y @ z)" by auto
        ultimately show "\<exists>x a'. a = x @ a' \<and> spells tol (p # ps) x \<and> s' = (rev x @ b, a', c)" by (metis append.assoc rev_append)
      next
        assume "\<exists>x a'. a = x @ a' \<and> spells tol (p # ps) x \<and> s' = (rev x @ b, a', c)"
        then obtain y z a' where "a = (y @ z) @ a'" "y \<noteq> []" "list_all is_separator y" "spells tol ps z"
          "s' = (rev (y @ z) @ b, a', c)" using True by auto
        then have "a = y @ (z @ a') \<and> y \<noteq> [] \<and> list_all is_separator y \<and>
            (\<exists>x a''. z @ a' = x @ a'' \<and> spells tol ps x \<and> s' = (rev x @ rev y @ b, a'', c))" by auto
        then show "\<exists>y a1. a = y @ a1 \<and> y \<noteq> [] \<and> list_all is_separator y \<and> s' \<in> set (rmatch fl_u (foldr f ps REmpty) (rev y @ b, a1, c))"
          unfolding Cons.IH by blast
      qed
      finally show ?thesis .
    next
      case False
      then have "foldr f (p # ps) REmpty = RSeq (RSet False [IRange p p]) (foldr f ps REmpty)" by (simp add: f_def)
      then have "s' \<in> set (rmatch fl_u (foldr f (p # ps) REmpty) (b, a, c)) \<longleftrightarrow>
          (\<exists>a1. a = p # a1 \<and> s' \<in> set (rmatch fl_u (foldr f ps REmpty) (p # b, a1, c)))"
        unfolding step Bex_def rmatch_RSet by auto
      also have "\<dots> \<longleftrightarrow> (\<exists>x a'. a = x @ a' \<and> spells tol (p # ps) x \<and> s' = (rev x @ b, a', c))"
      proof -
        have "spells tol (p # ps) x \<longleftrightarrow> (\<exists>z. x = p # z \<and> spells tol ps z)" for x
          by (simp only: spells.simps False if_False)
        then show ?thesis unfolding Cons.IH by (auto simp del: spells.simps)
      qed
      finally show ?thesis .
    qed
  qed simp
  then show ?thesis by (simp add: rx_phrase_def f_def)
qed

text \<open>A phrase occurs in a text when some part of the text spells it and is not the middle of a longer
  word.\<close>

definition phrase_occurs :: "bool \<Rightarrow> ustr \<Rightarrow> ustr \<Rightarrow> bool" where
  "phrase_occurs tol ph s \<longleftrightarrow>
     (\<exists>u x w. cps s = u @ x @ w \<and> spells tol (cps ph) x \<and>
        (bounded_start ph \<longrightarrow> u = [] \<or> \<not> alnum_lower (last u)) \<and> (bounded_end ph \<longrightarrow> w = [] \<or> \<not> alnum_lower (hd w)))"

lemma phrase_start:
  "s1 \<in> set (rmatch fl_u (if c then RAlt RStart (RSet True alnum_items) else REmpty) (b, a, [])) \<longleftrightarrow>
   s1 = (b, a, []) \<and> (c \<longrightarrow> b = []) \<or>
   c \<and> (\<exists>x a'. a = x # a' \<and> \<not> alnum_lower x \<and> s1 = (x # b, a', []))"
  by (cases a) (auto simp: in_set_alnum)

lemma phrase_end:
  "rmatch fl_u (if c then RAlt REnd (RSet True alnum_items) else REmpty) (b, a, g) \<noteq> [] \<longleftrightarrow>
   (c \<longrightarrow> a = [] \<or> \<not> alnum_lower (hd a))"
  by (cases a) (auto simp: in_set_alnum)

lemma phrase_rest:
  "(\<exists>s2 \<in> set (rmatch fl_u (rx_phrase tol ph) (b, a, [])).
      rmatch fl_u (if e then RAlt REnd (RSet True alnum_items) else REmpty) s2 \<noteq> []) \<longleftrightarrow>
   (\<exists>x w. a = x @ w \<and> spells tol (cps ph) x \<and> (e \<longrightarrow> w = [] \<or> \<not> alnum_lower (hd w)))"
  unfolding Bex_def rx_phrase_match using phrase_end by metis

lemma phrase_pattern_matches:
  "rmatch fl_u (phrase_pattern tol ph) (b, a, []) \<noteq> [] \<longleftrightarrow>
   (\<exists>v x w. a = v @ x @ w \<and> spells tol (cps ph) x \<and> (bounded_end ph \<longrightarrow> w = [] \<or> \<not> alnum_lower (hd w)) \<and>
      (v = [] \<and> (bounded_start ph \<longrightarrow> b = []) \<or> bounded_start ph \<and> (\<exists>z. v = [z] \<and> \<not> alnum_lower z)))" (is "?L \<longleftrightarrow> ?R")
proof -
  let ?P = "\<lambda>a. \<exists>x w. a = x @ w \<and> spells tol (cps ph) x \<and> (bounded_end ph \<longrightarrow> w = [] \<or> \<not> alnum_lower (hd w))"
  have ne: "concat (map f xs) \<noteq> [] \<longleftrightarrow> (\<exists>x \<in> set xs. f x \<noteq> [])" for f :: "rstate \<Rightarrow> rstate list" and xs by auto
  have "?L \<longleftrightarrow> (\<exists>s1 \<in> set (rmatch fl_u (if bounded_start ph then RAlt RStart (RSet True alnum_items) else REmpty) (b, a, [])).
      \<exists>s2 \<in> set (rmatch fl_u (rx_phrase tol ph) s1).
      rmatch fl_u (if bounded_end ph then RAlt REnd (RSet True alnum_items) else REmpty) s2 \<noteq> [])"
    unfolding phrase_pattern_def rmatch.simps(5) ne by simp
  also have "\<dots> \<longleftrightarrow> (bounded_start ph \<longrightarrow> b = []) \<and> ?P a \<or>
      bounded_start ph \<and> (\<exists>z a'. a = z # a' \<and> \<not> alnum_lower z \<and> ?P a')"
  proof -
    define Q where "Q s1 = (\<exists>s2 \<in> set (rmatch fl_u (rx_phrase tol ph) s1).
      rmatch fl_u (if bounded_end ph then RAlt REnd (RSet True alnum_items) else REmpty) s2 \<noteq> [])" for s1
    have Q: "Q (b', a', []) \<longleftrightarrow> ?P a'" for b' a' unfolding Q_def by (rule phrase_rest)
    have "(\<exists>s1 \<in> set (rmatch fl_u (if bounded_start ph then RAlt RStart (RSet True alnum_items) else REmpty) (b, a, [])). Q s1)
      \<longleftrightarrow> (bounded_start ph \<longrightarrow> b = []) \<and> Q (b, a, []) \<or>
      bounded_start ph \<and> (\<exists>z a'. a = z # a' \<and> \<not> alnum_lower z \<and> Q (z # b, a', []))"
      unfolding Bex_def phrase_start by blast
    then show ?thesis unfolding Q by (simp only: Q_def)
  qed
  also have "\<dots> \<longleftrightarrow> ?R"
  proof
    assume "(bounded_start ph \<longrightarrow> b = []) \<and> ?P a \<or> bounded_start ph \<and> (\<exists>z a'. a = z # a' \<and> \<not> alnum_lower z \<and> ?P a')"
    then show ?R
    proof
      assume "(bounded_start ph \<longrightarrow> b = []) \<and> ?P a"
      then have "(bounded_start ph \<longrightarrow> b = []) \<and> ?P ([] @ a)" by simp
      then show ?R by (simp only: append_Nil) blast
    next
      assume "bounded_start ph \<and> (\<exists>z a'. a = z # a' \<and> \<not> alnum_lower z \<and> ?P a')"
      then obtain z x w where "a = z # x @ w" "\<not> alnum_lower z" "spells tol (cps ph) x" "bounded_start ph"
        "bounded_end ph \<longrightarrow> w = [] \<or> \<not> alnum_lower (hd w)" by blast
      then show ?R by (rule_tac exI [of _ "[z]"], rule_tac exI [of _ x], rule_tac exI [of _ w]) simp
    qed
  next
    assume ?R
    then obtain v x w where r: "a = v @ x @ w" "spells tol (cps ph) x" "bounded_end ph \<longrightarrow> w = [] \<or> \<not> alnum_lower (hd w)"
      "v = [] \<and> (bounded_start ph \<longrightarrow> b = []) \<or> bounded_start ph \<and> (\<exists>z. v = [z] \<and> \<not> alnum_lower z)" by blast
    then have P: "?P (x @ w)" by blast
    from r(4) show "(bounded_start ph \<longrightarrow> b = []) \<and> ?P a \<or> bounded_start ph \<and> (\<exists>z a'. a = z # a' \<and> \<not> alnum_lower z \<and> ?P a')"
    proof
      assume "v = [] \<and> (bounded_start ph \<longrightarrow> b = [])"
      with P r(1) show ?thesis by simp
    next
      assume "bounded_start ph \<and> (\<exists>z. v = [z] \<and> \<not> alnum_lower z)"
      then obtain z where "bounded_start ph" "v = [z]" "\<not> alnum_lower z" by blast
      with P r(1) have "a = z # (x @ w) \<and> \<not> alnum_lower z \<and> ?P (x @ w)" by simp
      with \<open>bounded_start ph\<close> show ?thesis by blast
    qed
  qed
  finally show ?thesis .
qed

lemma phrase_test_iff: "rx_test fl_u (phrase_pattern tol ph) s \<longleftrightarrow> phrase_occurs tol ph s"
proof
  assume "rx_test fl_u (phrase_pattern tol ph) s"
  then obtain u a v x w where d: "cps s = u @ a" "a = v @ x @ w" "spells tol (cps ph) x"
      "bounded_end ph \<longrightarrow> w = [] \<or> \<not> alnum_lower (hd w)"
      "v = [] \<and> (bounded_start ph \<longrightarrow> rev u = []) \<or> bounded_start ph \<and> (\<exists>z. v = [z] \<and> \<not> alnum_lower z)"
    unfolding rx_test_def rx_find_iff phrase_pattern_matches append_Nil2 by blast
  then have "cps s = (u @ v) @ x @ w \<and> spells tol (cps ph) x \<and>
      (bounded_start ph \<longrightarrow> u @ v = [] \<or> \<not> alnum_lower (last (u @ v))) \<and> (bounded_end ph \<longrightarrow> w = [] \<or> \<not> alnum_lower (hd w))"
    by auto
  then show "phrase_occurs tol ph s" unfolding phrase_occurs_def by blast
next
  assume "phrase_occurs tol ph s"
  then obtain u x w where d: "cps s = u @ x @ w" "spells tol (cps ph) x"
      "bounded_start ph \<longrightarrow> u = [] \<or> \<not> alnum_lower (last u)" "bounded_end ph \<longrightarrow> w = [] \<or> \<not> alnum_lower (hd w)"
    unfolding phrase_occurs_def by blast
  have found: "rx_test fl_u (phrase_pattern tol ph) s" if "cps s = u' @ v @ x @ w"
      "v = [] \<and> (bounded_start ph \<longrightarrow> rev u' = []) \<or> bounded_start ph \<and> (\<exists>z. v = [z] \<and> \<not> alnum_lower z)" for u' v
  proof -
    from that(2) d have "rmatch fl_u (phrase_pattern tol ph) (rev u', v @ x @ w, []) \<noteq> []"
      unfolding phrase_pattern_matches by blast
    with that(1) show "rx_test fl_u (phrase_pattern tol ph) s" unfolding rx_test_def rx_find_iff append_Nil2 by blast
  qed
  show "rx_test fl_u (phrase_pattern tol ph) s"
  proof (cases "bounded_start ph \<and> u \<noteq> []")
    case True
    then obtain u' z where u: "u = u' @ [z]" by (cases u rule: rev_cases) auto
    show ?thesis by (rule found [of u' "[z]"]) (use d True u in auto)
  next
    case False
    show ?thesis by (rule found [of u "[]"]) (use d False in auto)
  qed
qed

text \<open>C32: a text passes the forbidden-phrase check exactly when it is short enough to be scanned, hides
  no control character, and its normalized form nowhere spells a forbidden phrase as words of its
  own, whatever separators stand between the words when the text has spaces.\<close>

theorem forbidden_phrase_check_exact:
  "claimSafeForbiddenPhrase T (JStr s) = None \<longleftrightarrow>
   length s \<le> CLAIM_SAFE_TEXT_MAX_LENGTH \<and> \<not> containsHiddenControlCharacter s \<and>
   (\<forall>p \<in> set CLAIM_SAFE_FORBIDDEN_PHRASES.
      \<not> phrase_occurs (str_includes (lit '' '') (normalizeForbiddenText T s))
          (normalizeForbiddenText T (lit p)) (normalizeForbiddenText T s))"
  by (simp add: claimSafeForbiddenPhrase_def firstForbiddenPhrase_def Let_def find_first_None phrase_test_iff not_less)

definition sample_text :: text_platform where
  "sample_text = \<lparr>nfkc = id, toLowerCase = map (\<lambda>c. if 65 \<le> c \<and> c \<le> 90 then c + 32 else c)\<rparr>"

theorem forbidden_phrase_check_exact_witness:
  "claimSafeForbiddenPhrase sample_text (jstr ''Status : received_with_receipt'') \<noteq> None"
proof -
  let ?s = "lit ''Status : received_with_receipt''" and ?p = "''received_with_receipt''"
  have n: "normalizeForbiddenText sample_text ?s = lit ''status:received_with_receipt''"
    "normalizeForbiddenText sample_text (lit ?p) = lit ?p" by code_simp+
  have c: "cps (lit ''status:received_with_receipt'') = lit ''status:'' @ lit ?p @ []" "cps (lit ?p) = lit ?p"
    "\<not> str_includes (lit '' '') (lit ''status:received_with_receipt'')" "\<not> alnum_lower (last (lit ''status:''))"
    "?p \<in> set CLAIM_SAFE_FORBIDDEN_PHRASES" by code_simp+
  have "spells False ps ps" for ps by (induction ps) auto
  with c have "phrase_occurs False (lit ?p) (lit ''status:received_with_receipt'')"
    unfolding phrase_occurs_def by (metis)
  with c n show ?thesis using forbidden_phrase_check_exact [of sample_text ?s] by auto
qed

end
