(* ===== verification/Event_Identity.thy ===== *)
theory Event_Identity
  imports Lifecycle_Log Claim_Safety "HOL-Library.Product_Lexorder"
begin

text \<open>
  Identities of review events (\<^verbatim>\<open>apps/control-plane/src/index.ts\<close>): what an idempotency key
  says about the record behind an event, the typed artifact reference it must carry, and which
  event is the current head of a version family.
\<close>

text \<open>The environment with the platform and the text tables.\<close>

record review_env = control_env +
  plat :: platform
  tx :: text_platform

section \<open>Coercion to a string\<close>

text \<open>\<^verbatim>\<open>String(v)\<close> of a cloned value, as \<^verbatim>\<open>exec\<close> and template literals apply it.\<close>

fun js_string :: "platform \<Rightarrow> jsval \<Rightarrow> ustr" where
  "js_string P (JStr s) = s"
| "js_string P JNull = lit ''null''"
| "js_string P JUndef = lit ''undefined''"
| "js_string P (JBool b) = (if b then lit ''true'' else lit ''false'')"
| "js_string P (JNum n) = number_text P n"
| "js_string P (JArr vs) = join_with (lit '','') (map (\<lambda>v. if v = JNull \<or> v = JUndef then [] else js_string P v) vs)"
| "js_string P (JObj _) = lit ''[object Object]''"
| "js_string P JOther = []"

lemma js_string_JStr_iff: "is_string v \<Longrightarrow> js_string P v = the_str v"
  by (auto simp: is_string_iff)

section \<open>Versions\<close>

text \<open>\<^verbatim>\<open>Number(decimal)\<close> of a decimal without leading zeros is exact below the safe bound, and
  reaches the bound only from a decimal that does: the three tests accept exactly the decimals of
  the safe positive integers.\<close>

definition parseCanonicalSafePositiveInteger :: "ustr \<Rightarrow> int option" where
  "parseCanonicalSafePositiveInteger decimal =
     (let parsed = num_of decimal in
      if decimal = [] \<or> \<not> list_all (\<lambda>c. 48 \<le> c \<and> c \<le> 57) decimal \<or> parsed > MAX_SAFE_INTEGER \<or> parsed < 1
         \<or> int_text parsed \<noteq> decimal then None
      else Some parsed)"

section \<open>Identities in keys\<close>

record epic5EventIdentity_t =
  eventType :: jsval
  reviewId :: ustr
  familyId :: ustr
  artifactId :: ustr
  version :: int
  recordId :: "ustr option"
  generatedManifestId :: "ustr option"

definition EPIC5_VERSIONED_EVENT_TYPES :: "string list" where
  "EPIC5_VERSIONED_EVENT_TYPES = [''attestation_generated'', ''static_bundle_generated'', ''attestation_package_finalized'',
     ''attestation_package_exported'', ''pilot_metric_recorded'', ''pilot_feedback_recorded'']"

abbreviation event_type :: "jsval \<Rightarrow> jsval" where
  "event_type event \<equiv> field event ''event_type''"

definition key_groups :: "platform \<Rightarrow> string \<Rightarrow> jsval \<Rightarrow> (nat \<Rightarrow> ustr) option" where
  "key_groups P pattern event = rx_groups fl_u (re pattern) (js_string P (field event ''idempotency_key''))"

definition epic5EventIdentity :: "platform \<Rightarrow> jsval \<Rightarrow> epic5EventIdentity_t option" where
  "epic5EventIdentity P event =
     (let ty = event_type event in
      if ty = jstr ''attestation_generated'' then
        (case key_groups P ''^attestation:(review:[a-z0-9][a-z0-9_-]{2,63}):attestation:([a-f0-9]{64}):attestation_version:([1-9][0-9]*)$'' event of
           None \<Rightarrow> None
         | Some g \<Rightarrow> map_option (\<lambda>v. \<lparr>eventType = ty, reviewId = g 1, familyId = g 1, artifactId = g 2, version = v,
               recordId = None, generatedManifestId = None\<rparr>) (parseCanonicalSafePositiveInteger (g 3)))
      else if ty = jstr ''static_bundle_generated'' then
        (case key_groups P ''^static_bundle:(review:[a-z0-9][a-z0-9_-]{2,63}):(static_bundle:[a-z0-9][a-z0-9_-]{2,63}):manifest_version:([1-9][0-9]*):manifest_id:([a-f0-9]{64})$'' event of
           None \<Rightarrow> None
         | Some g \<Rightarrow> map_option (\<lambda>v. \<lparr>eventType = ty, reviewId = g 1, familyId = g 2, artifactId = g 4, version = v,
               recordId = None, generatedManifestId = None\<rparr>) (parseCanonicalSafePositiveInteger (g 3)))
      else if ty = jstr ''attestation_package_finalized'' \<or> ty = jstr ''attestation_package_exported'' then
        (case key_groups P ((if ty = jstr ''attestation_package_finalized'' then ''^attestation_package_finalized'' else ''^attestation_package_exported'')
             @ '':(review:[a-z0-9][a-z0-9_-]{2,63}):(static_bundle:[a-z0-9][a-z0-9_-]{2,63}):finalization_version:([1-9][0-9]*):record_id:([a-f0-9]{64}):generated_manifest_id:([a-f0-9]{64}):manifest_id:([a-f0-9]{64})$'') event of
           None \<Rightarrow> None
         | Some g \<Rightarrow> map_option (\<lambda>v. \<lparr>eventType = ty, reviewId = g 1, familyId = g 2, artifactId = g 6, version = v,
               recordId = Some (g 4), generatedManifestId = Some (g 5)\<rparr>) (parseCanonicalSafePositiveInteger (g 3)))
      else if ty = jstr ''pilot_metric_recorded'' \<or> ty = jstr ''pilot_feedback_recorded'' then
        (let family = (if ty = jstr ''pilot_metric_recorded'' then ''pilot_metric'' else ''pilot_feedback'') in
         case key_groups P (''^'' @ family @ '':(review:[a-z0-9][a-z0-9_-]{2,63}):'' @ family
             @ '':([a-z0-9][a-z0-9_-]{2,63}):record_version:([1-9][0-9]*):content_id:([a-f0-9]{64})$'') event of
           None \<Rightarrow> None
         | Some g \<Rightarrow> map_option (\<lambda>v. \<lparr>eventType = ty, reviewId = g 1, familyId = lit family @ lit '':'' @ g 2, artifactId = g 4,
               version = v, recordId = None, generatedManifestId = None\<rparr>) (parseCanonicalSafePositiveInteger (g 3)))
      else None)"

definition latestEpic5FamilyEvent :: "platform \<Rightarrow> jsval list \<Rightarrow> epic5EventIdentity_t \<Rightarrow> jsval option" where
  "latestEpic5FamilyEvent P events identity =
     (case sort_key (\<lambda>e. - version (the (epic5EventIdentity P e)))
         (filter (\<lambda>e. case epic5EventIdentity P e of None \<Rightarrow> False
            | Some i \<Rightarrow> eventType i = eventType identity \<and> reviewId i = reviewId identity \<and> familyId i = familyId identity) events) of
        [] \<Rightarrow> None | e # _ \<Rightarrow> Some e)"

record verificationScopeEventIdentity =
  vs_reviewId :: ustr
  verificationPassId :: ustr
  scopeVersion :: int

definition verificationScopeIdentityFromEvent :: "jsval \<Rightarrow> verificationScopeEventIdentity option" where
  "verificationScopeIdentityFromEvent event =
     (case field event ''idempotency_key'' of
        JStr key \<Rightarrow>
          (case rx_groups fl_u (re ''^verification_scope:(review:[a-z0-9][a-z0-9_-]{2,63}):verification_pass:([a-z0-9][a-z0-9_-]{2,63}):scope_version:([1-9][0-9]*)$'') key of
             None \<Rightarrow> None
           | Some g \<Rightarrow> map_option (\<lambda>v. \<lparr>vs_reviewId = g 1, verificationPassId = g 2, scopeVersion = v\<rparr>)
               (parseCanonicalSafePositiveInteger (g 3)))
      | _ \<Rightarrow> None)"

definition verificationScopeCorrectionVersionIsValid :: "jsval \<Rightarrow> jsval option \<Rightarrow> jsval option \<Rightarrow> bool" where
  "verificationScopeCorrectionVersionIsValid event superseded active_event =
     (case (verificationScopeIdentityFromEvent event, Option.bind superseded verificationScopeIdentityFromEvent,
            Option.bind active_event verificationScopeIdentityFromEvent) of
        (Some current, Some prior, Some active) \<Rightarrow>
          vs_reviewId current = vs_reviewId prior \<and> verificationPassId current = verificationPassId prior \<and>
          vs_reviewId current = vs_reviewId active \<and> verificationPassId current = verificationPassId active \<and>
          scopeVersion current > scopeVersion prior \<and> scopeVersion current > scopeVersion active
      | _ \<Rightarrow> False)"

definition latestVerificationScopeEvent :: "jsval list \<Rightarrow> jsval \<Rightarrow> jsval option" where
  "latestVerificationScopeEvent events event =
     (case verificationScopeIdentityFromEvent event of
        None \<Rightarrow> None
      | Some identity \<Rightarrow>
          (case sort_key (\<lambda>e. (scopeVersion (the (verificationScopeIdentityFromEvent e)), the_int (field e ''sequence_number'')))
              (filter (\<lambda>e. case verificationScopeIdentityFromEvent e of None \<Rightarrow> False
                 | Some i \<Rightarrow> vs_reviewId i = vs_reviewId identity \<and> verificationPassId i = verificationPassId identity)
                (filter (\<lambda>e. event_type e = jstr ''verification_scope_recorded'') events)) of
             [] \<Rightarrow> None | es \<Rightarrow> Some (last es)))"

record versionedVerificationEventIdentity =
  vv_reviewId :: ustr
  vv_recordId :: ustr
  recordVersion :: int

definition versionedVerificationIdentityFromEvent :: "jsval \<Rightarrow> string \<Rightarrow> versionedVerificationEventIdentity option" where
  "versionedVerificationIdentityFromEvent event ty =
     (case field event ''idempotency_key'' of
        JStr key \<Rightarrow>
          (let family = (if ty = ''verification_evidence_recorded'' then ''verification_evidence'' else ''verification_record'');
               recordNamespace = (if ty = ''verification_evidence_recorded'' then ''verification_evidence'' else ''verification_record'') in
           case rx_groups fl_u (re (''^'' @ family @ '':(review:[a-z0-9][a-z0-9_-]{2,63}):'' @ recordNamespace
               @ '':([a-z0-9][a-z0-9_-]{2,63}):record_version:([1-9][0-9]*)$'')) key of
             None \<Rightarrow> None
           | Some g \<Rightarrow> map_option (\<lambda>v. \<lparr>vv_reviewId = g 1, vv_recordId = g 2, recordVersion = v\<rparr>)
               (parseCanonicalSafePositiveInteger (g 3)))
      | _ \<Rightarrow> None)"

definition latest_versioned :: "jsval list \<Rightarrow> string \<Rightarrow> ustr \<Rightarrow> ustr \<Rightarrow> jsval option" where
  "latest_versioned events ty rid rec =
     (case sort_key (\<lambda>e. (recordVersion (the (versionedVerificationIdentityFromEvent e ty)), the_int (field e ''sequence_number'')))
         (filter (\<lambda>e. case versionedVerificationIdentityFromEvent e ty of None \<Rightarrow> False
            | Some i \<Rightarrow> vv_reviewId i = rid \<and> vv_recordId i = rec) events) of
        [] \<Rightarrow> None | es \<Rightarrow> Some (last es))"

definition activeVersionedVerificationEventForRecord :: "jsval list \<Rightarrow> string \<Rightarrow> ustr \<Rightarrow> ustr \<Rightarrow> jsval option" where
  "activeVersionedVerificationEventForRecord events ty rid rec =
     latest_versioned (filter (\<lambda>e. event_type e = jstr ty \<and> field e ''review_id'' = JStr rid
         \<and> the_array (field e ''artifact_refs'') = [JStr (lit ''artifact_ref:'' @ rec)]) events) ty rid rec"

definition latestVersionedVerificationEvent :: "jsval list \<Rightarrow> jsval \<Rightarrow> string \<Rightarrow> jsval option" where
  "latestVersionedVerificationEvent events event ty =
     (case versionedVerificationIdentityFromEvent event ty of
        None \<Rightarrow> None
      | Some identity \<Rightarrow>
          if field event ''review_id'' \<noteq> JStr (vv_reviewId identity) then None
          else latest_versioned (filter (\<lambda>e. event_type e = jstr ty) events) ty (vv_reviewId identity) (vv_recordId identity))"

definition versionedVerificationCorrectionIsValid :: "jsval \<Rightarrow> jsval option \<Rightarrow> jsval option \<Rightarrow> string \<Rightarrow> bool" where
  "versionedVerificationCorrectionIsValid event superseded active_event ty =
     (case (versionedVerificationIdentityFromEvent event ty, Option.bind superseded (\<lambda>e. versionedVerificationIdentityFromEvent e ty),
            Option.bind active_event (\<lambda>e. versionedVerificationIdentityFromEvent e ty)) of
        (Some current, Some prior, Some active) \<Rightarrow>
          vv_reviewId current = vv_reviewId prior \<and> vv_recordId current = vv_recordId prior \<and>
          vv_reviewId current = vv_reviewId active \<and> vv_recordId current = vv_recordId active \<and>
          recordVersion current > recordVersion prior \<and> recordVersion current > recordVersion active
      | _ \<Rightarrow> False)"

section \<open>Typed artifact references\<close>

text \<open>\<open>key_ref pattern event\<close>: the key matches, names the event's review, and the only artifact
  reference is the one of the record the key names.\<close>

definition artifact_ref_of :: "ustr \<Rightarrow> jsval" where
  "artifact_ref_of i = JStr (lit ''artifact_ref:'' @ i)"

definition key_ref :: "string \<Rightarrow> jsval \<Rightarrow> jsval \<Rightarrow> bool option" where
  "key_ref pattern event artifactRef =
     map_option (\<lambda>g. JStr (g 1) = field event ''review_id'' \<and> artifactRef = artifact_ref_of (g 2))
       (rx_groups fl_u (re pattern) (the_str (field event ''idempotency_key'')))"

definition typedReviewEventArtifactRefsMatch :: "platform \<Rightarrow> jsval \<Rightarrow> bool" where
  "typedReviewEventArtifactRefsMatch P event =
     (case the_array (field event ''artifact_refs'') of
        [artifactRef] \<Rightarrow>
          if \<not> is_array (field event ''artifact_refs'') \<or> \<not> is_string (field event ''idempotency_key'') then False
          else if event_type event = jstr ''classification_recorded'' then
            key_ref ''^classification:(review:[a-z0-9][a-z0-9_-]{2,63}):classification_record:([a-z0-9][a-z0-9_-]{2,63})$'' event artifactRef = Some True
          else if event_type event = jstr ''remediation_guidance_recorded'' then
            key_ref ''^remediation_guidance:(review:[a-z0-9][a-z0-9_-]{2,63}):remediation_guidance:([a-z0-9][a-z0-9_-]{2,63})$'' event artifactRef = Some True
          else if event_type event = jstr ''customer_remediation_recorded'' then
            key_ref ''^customer_remediation:(review:[a-z0-9][a-z0-9_-]{2,63}):customer_status:([a-z0-9][a-z0-9_-]{2,63})$'' event artifactRef = Some True
          else if event_type event = jstr ''validation_recorded'' then
            (case key_ref ''^validation_path:(review:[a-z0-9][a-z0-9_-]{2,63}):validation_path:([a-z0-9][a-z0-9_-]{2,63})$'' event artifactRef of
               Some ok \<Rightarrow> ok
             | None \<Rightarrow>
                 key_ref ''^validation_script:(review:[a-z0-9][a-z0-9_-]{2,63}):validation_script:([a-z0-9][a-z0-9_-]{2,63})$'' event artifactRef = Some True)
          else if event_type event = jstr ''verification_scope_recorded'' then
            (case verificationScopeIdentityFromEvent event of None \<Rightarrow> False
             | Some i \<Rightarrow> JStr (vs_reviewId i) = field event ''review_id'' \<and> artifactRef = artifact_ref_of (verificationPassId i))
          else if event_type event = jstr ''verification_evidence_recorded'' then
            (case versionedVerificationIdentityFromEvent event ''verification_evidence_recorded'' of None \<Rightarrow> False
             | Some i \<Rightarrow> JStr (vv_reviewId i) = field event ''review_id'' \<and> artifactRef = artifact_ref_of (vv_recordId i))
          else if event_type event = jstr ''verification_recorded'' then
            (case versionedVerificationIdentityFromEvent event ''verification_recorded'' of None \<Rightarrow> False
             | Some i \<Rightarrow> JStr (vv_reviewId i) = field event ''review_id'' \<and> artifactRef = artifact_ref_of (vv_recordId i))
          else if event_type event = jstr ''false_positive_recorded'' then
            key_ref ''^false_positive:(review:[a-z0-9][a-z0-9_-]{2,63}):false_positive:([a-z0-9][a-z0-9_-]{2,63})$'' event artifactRef = Some True
          else if event_type event = jstr ''customer_accepted_risk_recorded'' then
            key_ref ''^accepted_risk:(review:[a-z0-9][a-z0-9_-]{2,63}):accepted_risk:([a-z0-9][a-z0-9_-]{2,63})$'' event artifactRef = Some True
          else if \<not> one_of EPIC5_VERSIONED_EVENT_TYPES (event_type event) then True
          else
            (case epic5EventIdentity P event of None \<Rightarrow> False
             | Some i \<Rightarrow>
                 JStr (reviewId i) = field event ''review_id'' \<and>
                 (if event_type event = jstr ''attestation_generated'' then artifactRef = artifact_ref_of (artifactId i)
                  else artifactRef = JStr (lit ''sha256:'' @ artifactId i)))
      | _ \<Rightarrow> False)"

end
