(* ===== verification/Review_Event_Log.thy ===== *)
theory Review_Event_Log
  imports Event_Identity
begin

text \<open>
  The review event log of the control plane (\<^verbatim>\<open>apps/control-plane/src/index.ts\<close>, lines 52 to
  701): content-addressed events, the append with its version families, supersession chains and
  authority rules, replay validation of a stored log and the projection customers see.
\<close>

section \<open>Outcomes\<close>

datatype reviewRejection =
    Review_event_schema_invalid | Review_event_identity_excludes_invalid | Review_event_identity_mismatch
  | Review_event_internal_note_requires_internal_only | Review_event_reason_raw_source_text_forbidden
  | Review_event_reason_claim_unsafe_text_forbidden | Review_event_classification_reviewer_actor_required
  | Review_event_remediation_guidance_reviewer_actor_required | Review_event_customer_remediation_actor_required
  | Review_event_validation_reviewer_actor_required | Review_event_false_positive_reviewer_actor_required
  | Review_event_accepted_risk_customer_evidence_required | Review_event_verification_scope_actor_required
  | Review_event_verification_scope_customer_backing_required
  | Review_event_verification_scope_reason_claim_unsafe_text_forbidden
  | Review_event_verification_evidence_actor_required | Review_event_verification_evidence_customer_backing_required
  | Review_event_verification_evidence_reason_claim_unsafe_text_forbidden
  | Review_event_verification_evidence_supersedes_family_mismatch
  | Review_event_verification_evidence_version_invalid | Review_event_verification_record_reviewer_actor_required
  | Review_event_verification_record_reason_claim_unsafe_text_forbidden
  | Review_event_verification_record_supersedes_family_mismatch | Review_event_verification_record_version_invalid
  | Review_event_epic5_authority_invalid | Review_event_pilot_pii_forbidden | Review_event_epic5_version_invalid
  | Review_event_epic5_supersedes_family_mismatch | Review_event_outcome_supersedes_family_mismatch
  | Review_event_verification_scope_supersedes_family_mismatch | Review_event_verification_scope_version_invalid
  | Review_event_validation_script_included_cap_exceeded | Review_event_missing_source_derived_class
  | Review_event_sequence_number_invalid | Review_event_log_protocol_version_mismatch
  | Review_event_log_review_id_mismatch | Review_event_log_duplicate_event_id
  | Review_event_log_idempotency_key_conflict | Review_event_log_sequence_not_monotonic
  | Review_event_log_supersedes_unknown_event | Customer_event_cannot_supersede_classification
  | Customer_event_cannot_supersede_expert_record

datatype reviewAppendResult =
    RA_appended jsval | RA_noop jsval | RA_rejected reviewRejection jsval

abbreviation review_event_schema :: string where
  "review_event_schema \<equiv> ''urn:codeattest:protocol:v0:review-event''"

definition RETENTION_STATE_EVENT_TYPES :: "string list" where
  "RETENTION_STATE_EVENT_TYPES = [''evidence_deleted'', ''retention_status_changed'']"

definition CUSTOMER_CORRECTION_EVENT_TYPES :: "string list" where
  "CUSTOMER_CORRECTION_EVENT_TYPES = [''customer_remediation_recorded'', ''customer_accepted_risk_recorded'']"

text \<open>The first rejection of a sequence of checks.\<close>

fun first_of :: "'r option list \<Rightarrow> 'r option" where
  "first_of [] = None"
| "first_of (r # rs) = (case r of Some x \<Rightarrow> Some x | None \<Rightarrow> first_of rs)"

lemma first_of_None [simp]: "first_of rs = None \<longleftrightarrow> (\<forall>r \<in> set rs. r = None)"
  by (induction rs) (auto split: option.splits)

declare first_of.simps [simp del]

abbreviation reject_if :: "bool \<Rightarrow> 'r \<Rightarrow> 'r option" where
  "reject_if c r \<equiv> (if c then Some r else None)"

section \<open>Event identity\<close>

definition without_field :: "string \<Rightarrow> jsval \<Rightarrow> jsval" where
  "without_field k v = (case v of JObj kvs \<Rightarrow> JObj (filter (\<lambda>p. fst p \<noteq> lit k) kvs) | _ \<Rightarrow> JObj [])"

text \<open>\<open>Inl ()\<close> when the content has no canonical text.\<close>

definition computeReviewEventId :: "('a review_env_scheme) \<Rightarrow> jsval \<Rightarrow> unit + ustr" where
  "computeReviewEventId E event =
     (case jcs E (without_field ''event_id'' event) of
        JcsText t \<Rightarrow> Inr (sha256ProtocolText (plat E) t)
      | _ \<Rightarrow> Inl ())"

definition content_addressed :: "('a review_env_scheme) \<Rightarrow> jsval \<Rightarrow> bool" where
  "content_addressed E event \<longleftrightarrow>
     (case computeReviewEventId E event of Inr i \<Rightarrow> field event ''event_id'' = JStr i | Inl _ \<Rightarrow> False)"

section \<open>Text and actor rules\<close>

definition isCustomerActor :: "jsval \<Rightarrow> bool" where
  "isCustomerActor actor \<longleftrightarrow> is_record actor \<and> field actor ''actor_type'' = jstr ''customer_user''"

definition textHasForbiddenClassificationContent :: "text_platform \<Rightarrow> jsval \<Rightarrow> bool" where
  "textHasForbiddenClassificationContent T value \<longleftrightarrow>
     sourceTextForbiddenPhrase T value \<noteq> None \<or> customerVisibleTextForbidden T value \<noteq> None"

fun verificationScopeTextHasForbiddenContent :: "text_platform \<Rightarrow> jsval \<Rightarrow> bool" where
  "verificationScopeTextHasForbiddenContent T (JArr vs) = list_ex (verificationScopeTextHasForbiddenContent T) vs"
| "verificationScopeTextHasForbiddenContent T v =
     (textHasForbiddenClassificationContent T v \<or> claimSafePositiveClosurePhrase T v \<noteq> None)"

fun verificationArtifactTextHasForbiddenContent :: "text_platform \<Rightarrow> jsval \<Rightarrow> bool" where
  "verificationArtifactTextHasForbiddenContent T (JArr vs) = list_ex (verificationArtifactTextHasForbiddenContent T) vs"
| "verificationArtifactTextHasForbiddenContent T v =
     (textHasForbiddenClassificationContent T v \<or> claimSafePositiveClosurePhrase T v \<noteq> None)"

definition epic5NarrativeTextForbidden :: "text_platform \<Rightarrow> jsval \<Rightarrow> bool" where
  "epic5NarrativeTextForbidden T value \<longleftrightarrow>
     sourceTextForbiddenPhrase T value \<noteq> None \<or> customerVisibleTextForbidden T value \<noteq> None"

definition piiTextLikely :: "text_platform \<Rightarrow> jsval \<Rightarrow> bool" where
  "piiTextLikely T value \<longleftrightarrow> piiTextForbidden T value \<noteq> None"

definition customerProseForbidden :: "text_platform \<Rightarrow> jsval \<Rightarrow> bool" where
  "customerProseForbidden T value \<longleftrightarrow>
     epic5NarrativeTextForbidden T value \<or> piiTextLikely T value \<or>
     (case value of
        JStr s \<Rightarrow> rx_test fl_iu (re ''~b(?:pilot[_ -]?(?:metric|feedback|learning)|internal learning|unit economics|private notes|customer[_ -]?id|device[_ -]?id)~b'') s
      | _ \<Rightarrow> False)"

definition verificationScopeActorSegmentIsForbiddenMachine :: "ustr \<Rightarrow> bool" where
  "verificationScopeActorSegmentIsForbiddenMachine segment =
     rx_test fl_u (re ''^(?:local[_-]?runner(?:[_-].+|~d+)?|runner(?:[_-].+|~d+)?|worker(?:pool(?:[_-].+|~d+)?|[_-].+|~d+)?|scanner(?:[_-].+|~d+)?|static[_-]?bundle(?:[_-].+|~d+)?)$'') segment"

text \<open>The rule is asked of actors whose type and identifier are strings.\<close>

definition verificationScopeActorIsForbiddenMachine :: "text_platform \<Rightarrow> jsval \<Rightarrow> bool" where
  "verificationScopeActorIsForbiddenMachine T actor \<longleftrightarrow>
     is_record actor \<and>
     (let actorType = toLowerCase T (the_str (field actor ''actor_type'')); actorId = toLowerCase T (the_str (field actor ''actor_id'')) in
      actorType \<in> set (map lit [''local_runner'', ''local-runner'', ''runner'', ''worker'', ''scanner'', ''static_bundle'', ''static-bundle''])
      \<or> list_ex verificationScopeActorSegmentIsForbiddenMachine (split_on 58 actorId))"

definition verificationScopeEventCarriesCustomerBacking :: "jsval \<Rightarrow> bool" where
  "verificationScopeEventCarriesCustomerBacking event \<longleftrightarrow>
     is_non_empty_string (field event ''customer_actor_ref'') \<or> is_non_empty_string (field event ''customer_selection_evidence_ref'')"

definition acceptedRiskEventReasonCarriesCustomerEvidence :: "jsval \<Rightarrow> bool" where
  "acceptedRiskEventReasonCarriesCustomerEvidence reason =
     (case reason of
        JStr s \<Rightarrow>
          \<not> rx_test fl_iu (re ''Customer (rationale|sign-off):~s*(?:no|none|without|missing|not provided|absent)~b'') (trim s) \<and>
          rx_test fl_iu (re ''^(Accepted risk recorded for [^.]+~. Customer (rationale|sign-off): .{12,})$'') (trim s)
      | _ \<Rightarrow> False)"

definition isValidationScriptEvent :: "jsval \<Rightarrow> bool" where
  "isValidationScriptEvent event \<longleftrightarrow>
     (if event_type event = jstr ''validation_recorded'' \<and> is_string (field event ''idempotency_key'') then
        rx_test fl_u (re ''^validation_script:'') (the_str (field event ''idempotency_key''))
      else False)"

datatype validationScriptPackage = Included_base_package int | Additional_script_candidate_pricing_tbd

definition validationScriptPackageFromReason :: "jsval \<Rightarrow> validationScriptPackage option" where
  "validationScriptPackageFromReason reason =
     (case reason of
        JStr s \<Rightarrow>
          (case rx_groups fl_u (re ''^Validation script package status: included_base_package; included script slot: ([1-3])~.$'') s of
             Some g \<Rightarrow> Some (Included_base_package (num_of (g 1)))
           | None \<Rightarrow>
               if s = lit ''Validation script package status: additional_script_candidate_pricing_tbd; pricing TBD.'' then
                 Some Additional_script_candidate_pricing_tbd
               else None)
      | _ \<Rightarrow> None)"

section \<open>Event-local rules\<close>

definition actor_type :: "jsval \<Rightarrow> jsval" where
  "actor_type event = field (field event ''actor'') ''actor_type''"

definition semantics_shape :: "('a review_env_scheme) \<Rightarrow> jsval \<Rightarrow> reviewRejection option" where
  "semantics_shape E event = first_of
     [reject_if (\<not> is_record (field event ''actor'') \<or> \<not> is_non_empty_string (actor_type event)
         \<or> \<not> is_non_empty_string (field (field event ''actor'') ''actor_id'')) Review_event_schema_invalid,
      reject_if (event_type event = jstr ''customer_remediation_recorded'' \<and> actor_type event \<noteq> jstr ''customer_user'')
        Review_event_customer_remediation_actor_required,
      reject_if (field event ''identity_input_excludes'' \<noteq> JArr [jstr ''event_id'']) Review_event_identity_excludes_invalid,
      reject_if (field event ''internal_note'' \<noteq> JUndef \<and> field event ''visibility'' \<noteq> jstr ''internal_only'')
        Review_event_internal_note_requires_internal_only,
      reject_if (field event ''reason'' \<noteq> JUndef \<and> (sourceTextForbiddenPhrase (tx E) (field event ''reason'') \<noteq> None
          \<or> sourceCodeLikeTextReason (field event ''reason'') \<noteq> None)) Review_event_reason_raw_source_text_forbidden,
      reject_if (field event ''reason'' \<noteq> JUndef \<and> (claimSafeForbiddenPhrase (tx E) (field event ''reason'') \<noteq> None
          \<or> field event ''visibility'' = jstr ''customer_facing'' \<and> customerProseForbidden (tx E) (field event ''reason'')))
        Review_event_reason_claim_unsafe_text_forbidden]"

definition semantics_findings :: "jsval \<Rightarrow> reviewRejection option" where
  "semantics_findings event = first_of
     [reject_if (event_type event = jstr ''classification_recorded'' \<and> actor_type event \<noteq> jstr ''reviewer'')
        Review_event_classification_reviewer_actor_required,
      reject_if (event_type event = jstr ''remediation_guidance_recorded'' \<and> actor_type event \<noteq> jstr ''reviewer'')
        Review_event_remediation_guidance_reviewer_actor_required,
      reject_if (event_type event = jstr ''validation_recorded'' \<and> actor_type event \<noteq> jstr ''reviewer'')
        Review_event_validation_reviewer_actor_required,
      reject_if (event_type event = jstr ''false_positive_recorded'' \<and> actor_type event \<noteq> jstr ''reviewer'')
        Review_event_false_positive_reviewer_actor_required,
      reject_if (event_type event = jstr ''customer_accepted_risk_recorded'' \<and>
          (\<not> one_of [''customer_user'', ''reviewer'', ''vendor_service''] (actor_type event)
           \<or> \<not> acceptedRiskEventReasonCarriesCustomerEvidence (field event ''reason'')))
        Review_event_accepted_risk_customer_evidence_required]"

definition semantics_verification :: "('a review_env_scheme) \<Rightarrow> jsval \<Rightarrow> reviewRejection option" where
  "semantics_verification E event =
     (if event_type event = jstr ''verification_scope_recorded'' then first_of
        [reject_if (\<not> one_of [''customer_user'', ''reviewer'', ''vendor_service''] (actor_type event)
            \<or> verificationScopeActorIsForbiddenMachine (tx E) (field event ''actor'')) Review_event_verification_scope_actor_required,
         reject_if (actor_type event \<noteq> jstr ''customer_user'' \<and> \<not> verificationScopeEventCarriesCustomerBacking event)
           Review_event_verification_scope_customer_backing_required,
         reject_if (verificationScopeTextHasForbiddenContent (tx E) (field event ''reason''))
           Review_event_verification_scope_reason_claim_unsafe_text_forbidden]
      else if event_type event = jstr ''verification_evidence_recorded'' then first_of
        [reject_if (\<not> one_of [''customer_user'', ''vendor_service''] (actor_type event)) Review_event_verification_evidence_actor_required,
         reject_if (actor_type event = jstr ''vendor_service'' \<and> \<not> is_non_empty_string (field event ''customer_actor_ref''))
           Review_event_verification_evidence_customer_backing_required,
         reject_if (verificationArtifactTextHasForbiddenContent (tx E) (field event ''reason''))
           Review_event_verification_evidence_reason_claim_unsafe_text_forbidden]
      else if event_type event = jstr ''verification_recorded'' then first_of
        [reject_if (actor_type event \<noteq> jstr ''reviewer'') Review_event_verification_record_reviewer_actor_required,
         reject_if (verificationArtifactTextHasForbiddenContent (tx E) (field event ''reason''))
           Review_event_verification_record_reason_claim_unsafe_text_forbidden]
      else None)"

definition semantics_epic5 :: "('a review_env_scheme) \<Rightarrow> jsval \<Rightarrow> reviewRejection option" where
  "semantics_epic5 E event =
     (let pilot = one_of [''pilot_metric_recorded'', ''pilot_feedback_recorded''] (event_type event) in
      first_of
       [reject_if (event_type event = jstr ''attestation_generated'' \<and>
           (\<not> one_of [''reviewer'', ''vendor_service''] (actor_type event) \<or> field event ''visibility'' \<noteq> jstr ''customer_facing''))
          Review_event_epic5_authority_invalid,
        reject_if (event_type event = jstr ''static_bundle_generated'' \<and>
           (actor_type event \<noteq> jstr ''vendor_service'' \<or> field event ''visibility'' \<noteq> jstr ''customer_facing''))
          Review_event_epic5_authority_invalid,
        reject_if (one_of [''attestation_package_finalized'', ''attestation_package_exported''] (event_type event) \<and>
           (actor_type event \<noteq> jstr ''customer_user'' \<or> field event ''visibility'' \<noteq> jstr ''customer_facing''))
          Review_event_epic5_authority_invalid,
        reject_if (pilot \<and> (\<not> one_of [''reviewer'', ''vendor_service''] (actor_type event)
           \<or> field event ''visibility'' \<noteq> jstr ''internal_only'' \<or> field event ''reason'' \<noteq> JUndef))
          Review_event_epic5_authority_invalid,
        if pilot then reject_if (\<not> opaquePilotActorIdIsValid (actor_type event) (field (field event ''actor'') ''actor_id''))
          Review_event_pilot_pii_forbidden else None,
        reject_if (one_of [''false_positive_recorded'', ''customer_accepted_risk_recorded''] (event_type event)
           \<and> field event ''supersedes_classification_record_ref'' \<noteq> JUndef) Review_event_outcome_supersedes_family_mismatch,
        reject_if (\<not> typedReviewEventArtifactRefsMatch (plat E) event) Review_event_schema_invalid,
        reject_if (one_of RETENTION_STATE_EVENT_TYPES (event_type event) \<and> field event ''source_derived_class'' = JUndef)
          Review_event_missing_source_derived_class])"

definition rejectionForReviewEventSemantics :: "('a review_env_scheme) \<Rightarrow> jsval \<Rightarrow> reviewRejection option" where
  "rejectionForReviewEventSemantics E event =
     first_of [semantics_shape E event, semantics_findings event, semantics_verification E event, semantics_epic5 E event]"

definition rejectionForEvent :: "('a review_env_scheme) \<Rightarrow> jsval \<Rightarrow> reviewRejection option" where
  "rejectionForEvent E event =
     first_of [rejectionForReviewEventSemantics E event,
       reject_if (\<not> content_addressed E event) Review_event_identity_mismatch]"

section \<open>Supersession chains\<close>

abbreviation events_of :: "jsval \<Rightarrow> jsval list" where
  "events_of log \<equiv> the_array (field log ''events'')"

text \<open>The walk ends because every step visits an event of the log it had not visited before.\<close>

function chain_loop :: "jsval list \<Rightarrow> jsval \<Rightarrow> jsval list \<Rightarrow> jsval list \<Rightarrow> jsval list option" where
  "chain_loop events nextId visited chain =
     (if nextId = JUndef \<or> js_includes visited nextId then Some chain
      else
        (case find_first (\<lambda>e. strict_eq (field e ''event_id'') nextId) events of
           None \<Rightarrow> None
         | Some superseded \<Rightarrow>
             chain_loop events (field superseded ''supersedes_event_id'') (nextId # visited) (chain @ [superseded])))"
  by pat_completeness auto

lemma filter_shrinks:
  assumes "x \<in> set xs" "P x" "\<not> Q x" "\<And>y. Q y \<Longrightarrow> P y"
  shows "length (filter Q xs) < length (filter P xs)"
  using assms(1)
proof (induction xs)
  case (Cons y ys)
  have "length (filter Q ys) \<le> length (filter P ys)"
    by (induction ys) (use assms(4) in auto)
  with Cons assms show ?case by auto
qed simp

termination chain_loop
proof (relation "measure (\<lambda>(events, _, visited, _). length (filter (\<lambda>e. \<not> js_includes visited (field e ''event_id'')) events))")
  fix events nextId visited chain superseded
  assume n: "\<not> (nextId = JUndef \<or> js_includes visited nextId)"
    and f: "find_first (\<lambda>e. strict_eq (field e ''event_id'') nextId) events = Some superseded"
  from find_first_SomeD [OF f] have m: "superseded \<in> set events" and i: "field superseded ''event_id'' = nextId"
      and c: "strict_eq nextId nextId"
    using strict_eq_imp_eq by (blast, blast, metis strict_eq_imp_eq)
  have "length (filter (\<lambda>e. \<not> js_includes (nextId # visited) (field e ''event_id'')) events) <
      length (filter (\<lambda>e. \<not> js_includes visited (field e ''event_id'')) events)"
    by (rule filter_shrinks [OF m]) (use n i c in \<open>auto simp: js_includes_def\<close>)
  then show "((events, field superseded ''supersedes_event_id'', nextId # visited, chain @ [superseded]), events, nextId, visited, chain)
      \<in> measure (\<lambda>(events, _, visited, _). length (filter (\<lambda>e. \<not> js_includes visited (field e ''event_id'')) events))"
    by simp
qed simp

declare chain_loop.simps [simp del]

definition supersedesChain :: "jsval \<Rightarrow> jsval \<Rightarrow> jsval list option" where
  "supersedesChain log firstSupersededId = chain_loop (events_of log) firstSupersededId [] []"

section \<open>Extending a log\<close>

definition some_type :: "string \<Rightarrow> jsval list \<Rightarrow> bool" where
  "some_type ty chain \<longleftrightarrow> list_ex (\<lambda>e. event_type e = jstr ty) chain"

definition other_type :: "string \<Rightarrow> jsval list \<Rightarrow> bool" where
  "other_type ty chain \<longleftrightarrow> list_ex (\<lambda>e. event_type e \<noteq> jstr ty) chain"

definition superseded_event :: "jsval list \<Rightarrow> jsval \<Rightarrow> jsval option" where
  "superseded_event events event =
     (if field event ''supersedes_event_id'' = JUndef then None
      else find_first (\<lambda>e. strict_eq (field e ''event_id'') (field event ''supersedes_event_id'')) events)"

definition scope_head_rule :: "jsval \<Rightarrow> jsval \<Rightarrow> reviewRejection option" where
  "scope_head_rule log event =
     (if event_type event \<noteq> jstr ''verification_scope_recorded'' then None
      else reject_if (verificationScopeIdentityFromEvent event = None \<or>
        (case latestVerificationScopeEvent (events_of log) event of None \<Rightarrow> False
         | Some active \<Rightarrow> \<not> strict_eq (field event ''supersedes_event_id'') (field active ''event_id'')))
        Review_event_verification_scope_version_invalid)"

text \<open>The rule the two versioned verification families share, with the reasons of each.\<close>

definition versioned_head_rule ::
  "string \<Rightarrow> reviewRejection \<Rightarrow> reviewRejection \<Rightarrow> jsval \<Rightarrow> jsval \<Rightarrow> reviewRejection option" where
  "versioned_head_rule ty family_mismatch version_invalid log event =
     (if event_type event \<noteq> jstr ty then None
      else first_of
        [reject_if (case superseded_event (events_of log) event of None \<Rightarrow> False | Some s \<Rightarrow> event_type s \<noteq> jstr ty) family_mismatch,
         reject_if (case latestVersionedVerificationEvent (events_of log) event ty of
             None \<Rightarrow> (case versionedVerificationIdentityFromEvent event ty of None \<Rightarrow> True | Some i \<Rightarrow> recordVersion i \<noteq> 1)
                     \<or> field event ''supersedes_event_id'' \<noteq> JUndef
           | Some active \<Rightarrow> \<not> strict_eq (field event ''supersedes_event_id'') (field active ''event_id'')) version_invalid])"

text \<open>A comparison with an absent timestamp is false.\<close>

definition ns_before :: "int option \<Rightarrow> int option \<Rightarrow> bool" where
  "ns_before a b = (case (a, b) of (Some x, Some y) \<Rightarrow> x < y | _ \<Rightarrow> False)"

definition earlier_event :: "jsval \<Rightarrow> jsval \<Rightarrow> bool" where
  "earlier_event event prior = ns_before (parseUtcTimestampNs (field event ''event_timestamp'')) (parseUtcTimestampNs (field prior ''event_timestamp''))"

definition finalized_rule :: "platform \<Rightarrow> jsval \<Rightarrow> jsval \<Rightarrow> epic5EventIdentity_t \<Rightarrow> reviewRejection option" where
  "finalized_rule P log event identity =
     (if event_type event \<noteq> jstr ''attestation_package_finalized'' then None
      else
        (case find_first (\<lambda>e. event_type e = jstr ''static_bundle_generated'' \<and>
             (case epic5EventIdentity P e of None \<Rightarrow> False
              | Some i \<Rightarrow> reviewId i = reviewId identity \<and> familyId i = familyId identity
                  \<and> Some (artifactId i) = generatedManifestId identity) \<and>
             the_int (field e ''sequence_number'') < the_int (field event ''sequence_number'')) (events_of log) of
           None \<Rightarrow> Some Review_event_epic5_version_invalid
         | Some generatedEvent \<Rightarrow> reject_if (earlier_event event generatedEvent) Review_event_epic5_version_invalid))"

definition exported_rule :: "platform \<Rightarrow> jsval \<Rightarrow> jsval \<Rightarrow> epic5EventIdentity_t \<Rightarrow> reviewRejection option" where
  "exported_rule P log event identity =
     (if event_type event \<noteq> jstr ''attestation_package_exported'' then None
      else
        (case find_first (\<lambda>e. event_type e = jstr ''attestation_package_finalized'' \<and>
             (case epic5EventIdentity P e of None \<Rightarrow> False
              | Some i \<Rightarrow> reviewId i = reviewId identity \<and> familyId i = familyId identity \<and> version i = version identity
                  \<and> recordId i = recordId identity \<and> artifactId i = artifactId identity
                  \<and> generatedManifestId i = generatedManifestId identity) \<and>
             the_int (field e ''sequence_number'') < the_int (field event ''sequence_number'')) (events_of log) of
           None \<Rightarrow> Some Review_event_epic5_version_invalid
         | Some finalizedEvent \<Rightarrow> reject_if (earlier_event event finalizedEvent) Review_event_epic5_version_invalid))"

definition epic5_head_rule :: "platform \<Rightarrow> jsval \<Rightarrow> jsval \<Rightarrow> reviewRejection option" where
  "epic5_head_rule P log event =
     (case epic5EventIdentity P event of
        None \<Rightarrow> reject_if (one_of EPIC5_VERSIONED_EVENT_TYPES (event_type event)) Review_event_epic5_version_invalid
      | Some identity \<Rightarrow> first_of
          [reject_if (case superseded_event (events_of log) event of None \<Rightarrow> False
             | Some s \<Rightarrow> \<not> strict_eq (event_type s) (event_type event)) Review_event_epic5_supersedes_family_mismatch,
           reject_if (case latestEpic5FamilyEvent P (events_of log) identity of
               None \<Rightarrow> version identity \<noteq> 1 \<or> field event ''supersedes_event_id'' \<noteq> JUndef
             | Some head \<Rightarrow> version identity \<le> version (the (epic5EventIdentity P head))
                 \<or> \<not> strict_eq (field event ''supersedes_event_id'') (field head ''event_id'')) Review_event_epic5_version_invalid,
           finalized_rule P log event identity,
           exported_rule P log event identity])"

text \<open>Two event types of a family may only be corrected by, and only correct, their own.\<close>

definition family_rule :: "string \<Rightarrow> jsval \<Rightarrow> jsval list \<Rightarrow> reviewRejection \<Rightarrow> reviewRejection option" where
  "family_rule ty event chain reason =
     reject_if (if event_type event = jstr ty then other_type ty chain else some_type ty chain) reason"

definition chain_rule :: "jsval \<Rightarrow> jsval \<Rightarrow> reviewRejection option" where
  "chain_rule log event =
     (if field event ''supersedes_event_id'' = JUndef then None
      else
        (case supersedesChain log (field event ''supersedes_event_id'') of
           None \<Rightarrow> Some Review_event_log_supersedes_unknown_event
         | Some chain \<Rightarrow>
             (let customer = one_of CUSTOMER_CORRECTION_EVENT_TYPES (event_type event) \<or> isCustomerActor (field event ''actor'');
                  first = (case chain of [] \<Rightarrow> None | e # _ \<Rightarrow> Some e) in
              first_of
               [reject_if (customer \<and> some_type ''classification_recorded'' chain) Customer_event_cannot_supersede_classification,
                reject_if (customer \<and> (some_type ''remediation_guidance_recorded'' chain \<or> some_type ''validation_recorded'' chain
                   \<or> some_type ''false_positive_recorded'' chain)) Customer_event_cannot_supersede_expert_record,
                reject_if (event_type event = jstr ''verification_scope_recorded'' \<and> other_type ''verification_scope_recorded'' chain)
                  Review_event_verification_scope_supersedes_family_mismatch,
                reject_if (event_type event = jstr ''verification_scope_recorded'' \<and>
                   \<not> verificationScopeCorrectionVersionIsValid event first (case latestVerificationScopeEvent (events_of log) event of
                         None \<Rightarrow> first | Some a \<Rightarrow> Some a))
                  Review_event_verification_scope_version_invalid,
                reject_if (event_type event \<noteq> jstr ''verification_scope_recorded'' \<and> some_type ''verification_scope_recorded'' chain)
                  Review_event_verification_scope_supersedes_family_mismatch,
                family_rule ''verification_evidence_recorded'' event chain
                  Review_event_verification_evidence_supersedes_family_mismatch,
                reject_if (event_type event = jstr ''verification_evidence_recorded'' \<and>
                   \<not> versionedVerificationCorrectionIsValid event first
                       (latestVersionedVerificationEvent (events_of log) event ''verification_evidence_recorded'') ''verification_evidence_recorded'')
                  Review_event_verification_evidence_version_invalid,
                family_rule ''verification_recorded'' event chain Review_event_verification_record_supersedes_family_mismatch,
                reject_if (event_type event = jstr ''verification_recorded'' \<and>
                   \<not> versionedVerificationCorrectionIsValid event first
                       (latestVersionedVerificationEvent (events_of log) event ''verification_recorded'') ''verification_recorded'')
                  Review_event_verification_record_version_invalid,
                family_rule ''false_positive_recorded'' event chain Review_event_outcome_supersedes_family_mismatch,
                family_rule ''customer_accepted_risk_recorded'' event chain Review_event_outcome_supersedes_family_mismatch])))"

text \<open>\<^verbatim>\<open>slice\<close> exists on strings and arrays only; on any other value the call throws.\<close>

definition classificationArtifactRefFromRecordRef :: "platform \<Rightarrow> jsval \<Rightarrow> unit + jsval" where
  "classificationArtifactRefFromRecordRef P recordRef =
     (case recordRef of
        JStr s \<Rightarrow> Inr (artifact_ref_of (drop (length ''classification_record:'') s))
      | JArr vs \<Rightarrow> Inr (artifact_ref_of (js_string P (JArr (drop (length ''classification_record:'') vs))))
      | _ \<Rightarrow> Inl ())"

definition classification_ref_rule :: "platform \<Rightarrow> jsval \<Rightarrow> jsval \<Rightarrow> unit + reviewRejection option" where
  "classification_ref_rule P log event =
     (let ref = field event ''supersedes_classification_record_ref'' in
      if ref = JUndef then Inr None
      else if one_of [''false_positive_recorded'', ''customer_accepted_risk_recorded''] (event_type event) then
        Inr (Some Review_event_outcome_supersedes_family_mismatch)
      else if one_of CUSTOMER_CORRECTION_EVENT_TYPES (event_type event) \<or> isCustomerActor (field event ''actor'') then
        Inr (Some Customer_event_cannot_supersede_classification)
      else sbind (classificationArtifactRefFromRecordRef P ref) (\<lambda>expected.
        Inr (reject_if (\<not> list_ex (\<lambda>e. event_type e = jstr ''classification_recorded''
              \<and> js_includes (the_array (field e ''artifact_refs'')) expected) (events_of log))
            Review_event_log_supersedes_unknown_event)))"

definition rejectionForEventVersionAndSupersedesChain ::
  "platform \<Rightarrow> jsval \<Rightarrow> jsval \<Rightarrow> unit + reviewRejection option" where
  "rejectionForEventVersionAndSupersedesChain P log event =
     (case first_of
        [reject_if (list_ex (\<lambda>e. strict_eq (field e ''event_id'') (field event ''event_id'')) (events_of log))
           Review_event_log_duplicate_event_id,
         reject_if (list_ex (\<lambda>e. the_int (field e ''sequence_number'') \<ge> the_int (field event ''sequence_number'')) (events_of log))
           Review_event_log_sequence_not_monotonic,
         scope_head_rule log event,
         versioned_head_rule ''verification_evidence_recorded'' Review_event_verification_evidence_supersedes_family_mismatch
           Review_event_verification_evidence_version_invalid log event,
         versioned_head_rule ''verification_recorded'' Review_event_verification_record_supersedes_family_mismatch
           Review_event_verification_record_version_invalid log event,
         epic5_head_rule P log event,
         chain_rule log event] of
        Some r \<Rightarrow> Inr (Some r)
      | None \<Rightarrow> classification_ref_rule P log event)"

section \<open>The cap on included scripts\<close>

text \<open>The slots of the included scripts already in the log, or \<open>None\<close> when one cannot be read.\<close>

fun included_slots :: "jsval list \<Rightarrow> int list option" where
  "included_slots [] = Some []"
| "included_slots (e # es) =
     (if \<not> isValidationScriptEvent e then included_slots es
      else
        (case validationScriptPackageFromReason (field e ''reason'') of
           None \<Rightarrow> None
         | Some Additional_script_candidate_pricing_tbd \<Rightarrow> included_slots es
         | Some (Included_base_package slot) \<Rightarrow> map_option (Cons slot) (included_slots es)))"

definition rejectionForValidationEventPackageAppend :: "jsval \<Rightarrow> jsval \<Rightarrow> reviewRejection option" where
  "rejectionForValidationEventPackageAppend log event =
     (if \<not> isValidationScriptEvent event then None
      else
        (case validationScriptPackageFromReason (field event ''reason'') of
           None \<Rightarrow> Some Review_event_schema_invalid
         | Some Additional_script_candidate_pricing_tbd \<Rightarrow> None
         | Some (Included_base_package slot) \<Rightarrow>
             (case included_slots (events_of log) of
                None \<Rightarrow> Some Review_event_schema_invalid
              | Some slots \<Rightarrow>
                  reject_if (length slots \<ge> 3 \<or> slot \<in> set slots) Review_event_validation_script_included_cap_exceeded)))"

section \<open>Valid logs\<close>

record log_acc =
  l_ids :: "jsval list"
  l_keys :: "jsval list"
  l_sequence :: int

definition log_start :: log_acc where
  "log_start = \<lparr>l_ids = [], l_keys = [], l_sequence = - 1\<rparr>"

definition log_add :: "log_acc \<Rightarrow> jsval \<Rightarrow> log_acc" where
  "log_add h event = \<lparr>l_ids = l_ids h @ [field event ''event_id''], l_keys = l_keys h @ [field event ''idempotency_key''],
     l_sequence = the_int (field event ''sequence_number'')\<rparr>"

definition log_admits :: "('a review_env_scheme) \<Rightarrow> jsval \<Rightarrow> log_acc \<Rightarrow> jsval \<Rightarrow> bool" where
  "log_admits E log h event \<longleftrightarrow>
     schema_valid E review_event_schema event \<and> strict_eq (field event ''protocol_version'') (field log ''protocol_version'') \<and>
     strict_eq (field event ''review_id'') (field log ''review_id'') \<and> is_safe_integer (field event ''sequence_number'') \<and>
     the_int (field event ''sequence_number'') > l_sequence h \<and>
     \<not> js_includes (l_ids h) (field event ''event_id'') \<and> \<not> js_includes (l_keys h) (field event ''idempotency_key'') \<and>
     is_record (field event ''actor'') \<and> is_non_empty_string (actor_type event) \<and>
     is_non_empty_string (field (field event ''actor'') ''actor_id'') \<and> typedReviewEventArtifactRefsMatch (plat E) event \<and>
     rejectionForReviewEventSemantics E event = None \<and> content_addressed E event \<and>
     (field event ''supersedes_event_id'' = JUndef \<or> js_includes (l_ids h) (field event ''supersedes_event_id''))"

fun log_loop :: "('a review_env_scheme) \<Rightarrow> jsval \<Rightarrow> jsval list \<Rightarrow> log_acc \<Rightarrow> bool" where
  "log_loop E log [] h = True"
| "log_loop E log (event # events) h = (if \<not> log_admits E log h event then False else log_loop E log events (log_add h event))"

definition reviewEventLogIsValid :: "('a review_env_scheme) \<Rightarrow> jsval \<Rightarrow> bool" where
  "reviewEventLogIsValid E log \<longleftrightarrow>
     is_record log \<and> field log ''protocol_version'' = jstr ''codeattest.v0'' \<and> is_non_empty_string (field log ''review_id'') \<and>
     is_array (field log ''events'') \<and> list_all is_record (events_of log) \<and> log_loop E log (events_of log) log_start"

section \<open>Appending\<close>

definition review_log :: "jsval \<Rightarrow> jsval \<Rightarrow> jsval list \<Rightarrow> jsval" where
  "review_log pv rid es = JObj [(lit ''protocol_version'', pv), (lit ''review_id'', rid), (lit ''events'', JArr es)]"

text \<open>Freezing does not change the value; cloning an already cloned log succeeds.\<close>

definition cloneAndFreezeReviewEventLog :: "jsval \<Rightarrow> jsval" where
  "cloneAndFreezeReviewEventLog log = (case cloneJson log of Some c \<Rightarrow> c | None \<Rightarrow> log)"

definition appendReviewEvent :: "('a review_env_scheme) \<Rightarrow> jsval \<Rightarrow> jsval \<Rightarrow> unit + reviewAppendResult" where
  "appendReviewEvent E log event =
     (if cloneJson log = None \<or> cloneJson event = None then Inr (RA_rejected Review_event_schema_invalid log)
      else if \<not> reviewEventLogIsValid E log then Inr (RA_rejected Review_event_schema_invalid log)
      else if \<not> is_record event then Inr (RA_rejected Review_event_schema_invalid log)
      else if \<not> strict_eq (field event ''protocol_version'') (field log ''protocol_version'') then
        Inr (RA_rejected Review_event_log_protocol_version_mismatch log)
      else if \<not> strict_eq (field event ''review_id'') (field log ''review_id'') then
        Inr (RA_rejected Review_event_log_review_id_mismatch log)
      else if \<not> is_sequence_number (field event ''sequence_number'') then
        Inr (RA_rejected Review_event_sequence_number_invalid log)
      else
        (case find_first (\<lambda>e. strict_eq (field e ''idempotency_key'') (field event ''idempotency_key'')) (events_of log) of
           Some sameKey \<Rightarrow>
             if strict_eq (field sameKey ''event_id'') (field event ''event_id'') then
               sbind (stableEquals E sameKey event) (\<lambda>same.
               Inr (if \<not> same then RA_rejected Review_event_log_idempotency_key_conflict log
                    else RA_noop (cloneAndFreezeReviewEventLog log)))
             else Inr (RA_rejected Review_event_log_idempotency_key_conflict log)
         | None \<Rightarrow>
             sbind (rejectionForEventVersionAndSupersedesChain (plat E) log event) (\<lambda>structural.
             case structural of
               Some r \<Rightarrow> Inr (RA_rejected r log)
             | None \<Rightarrow>
                 (case first_of
                    [rejectionForEvent E event,
                     if isValidationScriptEvent event then rejectionForValidationEventPackageAppend log event else None,
                     reject_if (\<not> schema_valid E review_event_schema event) Review_event_schema_invalid] of
                    Some r \<Rightarrow> Inr (RA_rejected r log)
                  | None \<Rightarrow> Inr (RA_appended (cloneAndFreezeReviewEventLog
                      (review_log (field log ''protocol_version'') (field log ''review_id'') (events_of log @ [event]))))))))"

section \<open>Replaying a stored log\<close>

text \<open>\<open>Inl ()\<close> when a rule throws, \<open>Inr None\<close> when the events are not a history of appends.\<close>

fun stored_loop :: "('a review_env_scheme) \<Rightarrow> jsval \<Rightarrow> jsval \<Rightarrow> jsval list \<Rightarrow> jsval list \<Rightarrow> unit + jsval option" where
  "stored_loop E pv rid [] done_events = Inr (Some (review_log pv rid done_events))"
| "stored_loop E pv rid (event # events) done_events =
     (if \<not> is_record event \<or> \<not> schema_valid E review_event_schema event \<or>
         \<not> strict_eq (field event ''protocol_version'') pv \<or> \<not> strict_eq (field event ''review_id'') rid \<or>
         \<not> is_sequence_number (field event ''sequence_number'') \<or>
         list_ex (\<lambda>e. strict_eq (field e ''idempotency_key'') (field event ''idempotency_key'')) done_events \<or>
         \<not> is_record (field event ''actor'') \<or> \<not> is_non_empty_string (actor_type event) \<or>
         \<not> is_non_empty_string (field (field event ''actor'') ''actor_id'') \<or>
         \<not> typedReviewEventArtifactRefsMatch (plat E) event \<or> rejectionForReviewEventSemantics E event \<noteq> None \<or>
         \<not> content_addressed E event then Inr None
      else sbind (rejectionForEventVersionAndSupersedesChain (plat E) (review_log pv rid done_events) event) (\<lambda>r.
        if r \<noteq> None then Inr None else stored_loop E pv rid events (done_events @ [event])))"

definition storedReviewEventLogIsAppendValid ::
  "('a review_env_scheme) \<Rightarrow> jsval list \<Rightarrow> jsval \<Rightarrow> jsval \<Rightarrow> unit + jsval option" where
  "storedReviewEventLogIsAppendValid E events pv rid = stored_loop E pv rid events []"

section \<open>The projection customers see\<close>

definition projection_entry :: "jsval \<Rightarrow> jsval" where
  "projection_entry event =
     JObj ([(lit ''event_id'', field event ''event_id''), (lit ''event_type'', event_type event),
            (lit ''event_timestamp'', field event ''event_timestamp''), (lit ''actor_category'', actor_type event),
            (lit ''artifact_refs'', field event ''artifact_refs''), (lit ''visibility'', jstr ''customer_facing'')]
           @ (if field event ''reason'' = JUndef then [] else [(lit ''reason'', field event ''reason'')]))"

definition projectCustomerFacingHistory :: "('a review_env_scheme) \<Rightarrow> jsval \<Rightarrow> jsval" where
  "projectCustomerFacingHistory E log =
     (if \<not> reviewEventLogIsValid E log then
        JObj [(lit ''protocol_version'', jstr ''codeattest.v0''), (lit ''review_id'', jstr ''review:invalid''), (lit ''entries'', JArr [])]
      else
        JObj [(lit ''protocol_version'', field log ''protocol_version''), (lit ''review_id'', field log ''review_id''),
              (lit ''entries'', JArr (map projection_entry
                 (filter (\<lambda>e. field e ''visibility'' = jstr ''customer_facing''
                      \<and> \<not> one_of [''pilot_metric_recorded'', ''pilot_feedback_recorded''] (event_type e))
                   (sort_key (\<lambda>e. the_int (field e ''sequence_number'')) (events_of log)))))])"

section \<open>Valid logs stay valid\<close>

lemma log_loop_snoc:
  "log_loop E log (es @ [e]) h \<longleftrightarrow> log_loop E log es h \<and> log_admits E log (foldl log_add h es) e"
  by (induction es arbitrary: h) auto

lemma log_foldl:
  "l_ids (foldl log_add h es) = l_ids h @ map (\<lambda>e. field e ''event_id'') es"
  "l_keys (foldl log_add h es) = l_keys h @ map (\<lambda>e. field e ''idempotency_key'') es"
  "l_sequence (foldl log_add h es) = (if es = [] then l_sequence h else the_int (field (last es) ''sequence_number''))"
  by (induction es arbitrary: h) (auto simp: log_add_def)

text \<open>Validity reads a log only through its version, its review and its events.\<close>

lemma log_admits_cong:
  assumes "field log ''protocol_version'' = field log' ''protocol_version''" "field log ''review_id'' = field log' ''review_id''"
  shows "log_admits E log h e \<longleftrightarrow> log_admits E log' h e"
  unfolding log_admits_def assms ..

lemma log_loop_cong:
  assumes "field log ''protocol_version'' = field log' ''protocol_version''" "field log ''review_id'' = field log' ''review_id''"
  shows "log_loop E log es h \<longleftrightarrow> log_loop E log' es h"
  by (induction es arbitrary: h) (simp_all add: log_admits_cong [OF assms])

lemma review_log_fields [simp]:
  "field (review_log pv rid es) ''protocol_version'' = pv" "field (review_log pv rid es) ''review_id'' = rid"
  "field (review_log pv rid es) ''events'' = JArr es" "is_record (review_log pv rid es)"
  by (simp_all add: review_log_def)

lemma chain_rule_known:
  assumes "chain_rule log e = None" "field e ''supersedes_event_id'' \<noteq> JUndef"
  shows "\<exists>x \<in> set (events_of log). strict_eq (field x ''event_id'') (field e ''supersedes_event_id'')"
proof -
  have "supersedesChain log (field e ''supersedes_event_id'') \<noteq> None"
    using assms by (cases "supersedesChain log (field e ''supersedes_event_id'')") (simp_all add: chain_rule_def)
  then obtain c where "chain_loop (events_of log) (field e ''supersedes_event_id'') [] [] = Some c"
    by (auto simp: supersedesChain_def)
  with assms(2) obtain x where "find_first (\<lambda>x. strict_eq (field x ''event_id'') (field e ''supersedes_event_id'')) (events_of log) = Some x"
    by (subst (asm) chain_loop.simps) (auto simp: js_includes_def split: option.splits)
  then show ?thesis using find_first_SomeD by fast
qed

definition event_admitted :: "('a review_env_scheme) \<Rightarrow> jsval \<Rightarrow> jsval \<Rightarrow> bool" where
  "event_admitted E log e \<longleftrightarrow>
     is_record e \<and> strict_eq (field e ''protocol_version'') (field log ''protocol_version'') \<and>
     strict_eq (field e ''review_id'') (field log ''review_id'') \<and> is_sequence_number (field e ''sequence_number'') \<and>
     (\<forall>x \<in> set (events_of log). \<not> strict_eq (field x ''idempotency_key'') (field e ''idempotency_key'')) \<and>
     rejectionForEventVersionAndSupersedesChain (plat E) log e = Inr None \<and> rejectionForReviewEventSemantics E e = None \<and>
     content_addressed E e \<and> rejectionForValidationEventPackageAppend log e = None \<and> schema_valid E review_event_schema e"

lemma review_appended_guards:
  "(if c then Inr (RA_rejected r l) else x) = Inr (RA_appended l') \<longleftrightarrow> \<not> c \<and> x = Inr (RA_appended l')"
  "(case q of Some k \<Rightarrow> (if d k then sbind (n k) (\<lambda>same. Inr (if \<not> same then RA_rejected r l else RA_noop l2)) else Inr (RA_rejected r l))
     | None \<Rightarrow> x) = Inr (RA_appended l') \<longleftrightarrow> q = None \<and> x = Inr (RA_appended l')"
  "sbind m (\<lambda>r. case r of Some reason \<Rightarrow> Inr (RA_rejected reason l) | None \<Rightarrow> x) = Inr (RA_appended l') \<longleftrightarrow>
   m = Inr None \<and> x = Inr (RA_appended l')"
  "(case f of Some reason \<Rightarrow> Inr (RA_rejected reason l) | None \<Rightarrow> x) = Inr (RA_appended l') \<longleftrightarrow> f = None \<and> x = Inr (RA_appended l')"
  by (auto split: option.splits)

lemma cap_skips: "\<not> isValidationScriptEvent e \<Longrightarrow> rejectionForValidationEventPackageAppend log e = None"
  by (simp add: rejectionForValidationEventPackageAppend_def)

lemma review_appended_iff:
  "appendReviewEvent E log e = Inr (RA_appended log') \<longleftrightarrow>
   cloneable log \<and> cloneable e \<and> reviewEventLogIsValid E log \<and> event_admitted E log e \<and>
   log' = cloneAndFreezeReviewEventLog (review_log (field log ''protocol_version'') (field log ''review_id'') (events_of log @ [e]))"
  unfolding appendReviewEvent_def review_appended_guards event_admitted_def first_of_None find_first_None rejectionForEvent_def cloneJson_def
  using cap_skips [of e log] by (auto simp: first_of_None split: if_splits)

lemma structural_passed:
  assumes "rejectionForEventVersionAndSupersedesChain P log e = Inr None"
  shows "\<not> list_ex (\<lambda>x. strict_eq (field x ''event_id'') (field e ''event_id'')) (events_of log)"
    "\<not> list_ex (\<lambda>x. the_int (field x ''sequence_number'') \<ge> the_int (field e ''sequence_number'')) (events_of log)"
    "scope_head_rule log e = None" "epic5_head_rule P log e = None" "chain_rule log e = None"
    "classification_ref_rule P log e = Inr None"
  using assms unfolding rejectionForEventVersionAndSupersedesChain_def
  by (auto simp: first_of_None split: option.splits if_splits)

lemma semantics_actor:
  assumes "rejectionForReviewEventSemantics E e = None"
  shows "is_record (field e ''actor'')" "is_non_empty_string (actor_type e)"
    "is_non_empty_string (field (field e ''actor'') ''actor_id'')" "typedReviewEventArtifactRefsMatch (plat E) e"
  using assms unfolding rejectionForReviewEventSemantics_def semantics_shape_def semantics_epic5_def Let_def first_of_None
  by (simp_all add: first_of_None split: if_splits)

text \<open>What one event needs to extend a log, the cap on scripts apart.\<close>

definition stored_step :: "('a review_env_scheme) \<Rightarrow> jsval \<Rightarrow> jsval \<Rightarrow> jsval list \<Rightarrow> jsval \<Rightarrow> bool" where
  "stored_step E pv rid es e \<longleftrightarrow>
     is_record e \<and> schema_valid E review_event_schema e \<and> strict_eq (field e ''protocol_version'') pv \<and>
     strict_eq (field e ''review_id'') rid \<and> is_sequence_number (field e ''sequence_number'') \<and>
     (\<forall>x \<in> set es. \<not> strict_eq (field x ''idempotency_key'') (field e ''idempotency_key'')) \<and>
     rejectionForReviewEventSemantics E e = None \<and> content_addressed E e \<and>
     rejectionForEventVersionAndSupersedesChain (plat E) (review_log pv rid es) e = Inr None"

lemma stored_step_valid:
  assumes v: "reviewEventLogIsValid E (review_log pv rid es)" and s: "stored_step E pv rid es e"
  shows "reviewEventLogIsValid E (review_log pv rid (es @ [e]))"
proof -
  let ?log = "review_log pv rid es" and ?h = "foldl log_add log_start es"
  from s have sp: "rejectionForEventVersionAndSupersedesChain (plat E) ?log e = Inr None" "rejectionForReviewEventSemantics E e = None"
    by (simp_all add: stored_step_def)
  note st = structural_passed [OF sp(1)] and se = semantics_actor [OF sp(2)]
  have ids: "l_ids ?h = map (\<lambda>e. field e ''event_id'') es" "l_keys ?h = map (\<lambda>e. field e ''idempotency_key'') es"
    by (simp_all add: log_foldl log_start_def)
  have "l_sequence ?h < the_int (field e ''sequence_number'')"
    using st(2) s by (cases "es = []")
      (auto simp: log_foldl log_start_def stored_step_def is_sequence_number_def list_ex_iff not_le)
  moreover have "field e ''supersedes_event_id'' = JUndef \<or> js_includes (l_ids ?h) (field e ''supersedes_event_id'')"
    using chain_rule_known [OF st(5)] strict_eq_sym by (auto simp: ids js_includes_def list_ex_iff)
  moreover have "\<not> js_includes (l_ids ?h) (field e ''event_id'')" "\<not> js_includes (l_keys ?h) (field e ''idempotency_key'')"
    using st(1) s strict_eq_sym by (auto simp: ids js_includes_def list_ex_iff stored_step_def)
  ultimately have a: "log_admits E ?log ?h e"
    using s se by (simp add: log_admits_def stored_step_def is_sequence_number_def)
  have l: "log_loop E (review_log pv rid (es @ [e])) es h = log_loop E ?log es h"
      "log_admits E (review_log pv rid (es @ [e])) h e = log_admits E ?log h e" for h
    by (rule log_loop_cong log_admits_cong; simp)+
  from s have "is_record e" by (simp add: stored_step_def)
  with v a show ?thesis unfolding reviewEventLogIsValid_def review_log_fields the_array.simps log_loop_snoc l by auto
qed

text \<open>The rules read a log only through its events.\<close>

lemma structural_cong:
  assumes "events_of log = events_of log'"
  shows "rejectionForEventVersionAndSupersedesChain P log e = rejectionForEventVersionAndSupersedesChain P log' e"
  unfolding rejectionForEventVersionAndSupersedesChain_def scope_head_rule_def versioned_head_rule_def epic5_head_rule_def
    finalized_rule_def exported_rule_def chain_rule_def supersedesChain_def classification_ref_rule_def assms ..

lemma event_admitted_step:
  assumes "event_admitted E log e"
  shows "stored_step E (field log ''protocol_version'') (field log ''review_id'') (events_of log) e"
  using assms structural_cong [of log "review_log (field log ''protocol_version'') (field log ''review_id'') (events_of log)" "plat E" e]
  by (simp add: event_admitted_def stored_step_def)

lemma event_admitted_log:
  assumes "reviewEventLogIsValid E log" "event_admitted E log e"
  shows "reviewEventLogIsValid E (review_log (field log ''protocol_version'') (field log ''review_id'') (events_of log @ [e]))"
proof (rule stored_step_valid [OF _ event_admitted_step [OF assms(2)]])
  have "log_loop E (review_log (field log ''protocol_version'') (field log ''review_id'') (events_of log)) es h = log_loop E log es h" for es h
    by (rule log_loop_cong) simp_all
  with assms(1) show "reviewEventLogIsValid E (review_log (field log ''protocol_version'') (field log ''review_id'') (events_of log))"
    by (simp add: reviewEventLogIsValid_def)
qed

lemma cloneAndFreeze_same [simp]: "cloneAndFreezeReviewEventLog log = log"
  by (simp add: cloneAndFreezeReviewEventLog_def cloneJson_def)

lemma review_noop_guards:
  "(if c then Inr (RA_rejected r l) else x) = Inr (RA_noop l') \<longleftrightarrow> \<not> c \<and> x = Inr (RA_noop l')"
  "sbind m (\<lambda>r. case r of Some reason \<Rightarrow> Inr (RA_rejected reason l) | None \<Rightarrow> x) = Inr (RA_noop l') \<longleftrightarrow>
   m = Inr None \<and> x = Inr (RA_noop l')"
  "(case f of Some reason \<Rightarrow> Inr (RA_rejected reason l) | None \<Rightarrow> Inr (RA_appended l2)) \<noteq> Inr (RA_noop l')"
  by (auto split: option.splits)

lemma review_append_cases:
  assumes "appendReviewEvent E log e = Inr res"
  shows "res = RA_appended (review_log (field log ''protocol_version'') (field log ''review_id'') (events_of log @ [e]))
    \<or> res = RA_noop log \<or> (\<exists>r. res = RA_rejected r log)"
proof (cases res)
  case (RA_appended l)
  with assms show ?thesis by (simp add: review_appended_iff)
next
  case (RA_noop l)
  show ?thesis
  proof (cases "find_first (\<lambda>x. strict_eq (field x ''idempotency_key'') (field e ''idempotency_key'')) (events_of log)")
    case None
    from assms [unfolded RA_noop] have False
      unfolding appendReviewEvent_def None option.case review_noop_guards using review_noop_guards(3) by blast
    then show ?thesis ..
  next
    case (Some k)
    from assms [unfolded RA_noop] have "sbind (stableEquals E k e) (\<lambda>same.
        Inr (if \<not> same then RA_rejected Review_event_log_idempotency_key_conflict log
             else RA_noop (cloneAndFreezeReviewEventLog log))) = Inr (RA_noop l)"
      unfolding appendReviewEvent_def Some option.case review_noop_guards by (auto split: if_splits)
    then have "l = log" by (auto split: if_splits)
    with RA_noop show ?thesis by simp
  qed
next
  case (RA_rejected r l)
  with assms have "l = log"
    unfolding appendReviewEvent_def by (auto split: if_splits option.splits)
  with RA_rejected show ?thesis by blast
qed

text \<open>The logs a caller can build from an empty one for a review.\<close>

inductive review_reachable :: "('a review_env_scheme) \<Rightarrow> ustr \<Rightarrow> jsval list \<Rightarrow> bool" for E rid where
  start: "is_non_empty_string (JStr rid) \<Longrightarrow> review_reachable E rid []"
| step: "review_reachable E rid es \<Longrightarrow>
    appendReviewEvent E (review_log (jstr ''codeattest.v0'') (JStr rid) es) e = Inr (RA_appended log') \<Longrightarrow>
    review_reachable E rid (events_of log')"

lemma review_reachable_valid:
  "review_reachable E rid es \<Longrightarrow> reviewEventLogIsValid E (review_log (jstr ''codeattest.v0'') (JStr rid) es)"
proof (induction rule: review_reachable.induct)
  case (step es e log')
  then have v: "reviewEventLogIsValid E (review_log (jstr ''codeattest.v0'') (JStr rid) es)"
      and a: "event_admitted E (review_log (jstr ''codeattest.v0'') (JStr rid) es) e"
      and l: "log' = review_log (jstr ''codeattest.v0'') (JStr rid) (es @ [e])" by (simp_all add: review_appended_iff)
  from event_admitted_log [OF v a] l show ?case by simp
qed (simp add: reviewEventLogIsValid_def)

lemma log_loop_mem:
  assumes "log_loop E log es log_start" "e \<in> set es"
  shows "content_addressed E e \<and> schema_valid E review_event_schema e \<and> rejectionForReviewEventSemantics E e = None \<and>
    field e ''review_id'' = field log ''review_id''"
  using assms by (induction es rule: rev_induct) (auto simp: log_loop_snoc log_admits_def strict_eq_iff)

lemma log_loop_sequences:
  "log_loop E log es log_start \<Longrightarrow> sorted_wrt (<) (map (\<lambda>e. the_int (field e ''sequence_number'')) es)"
proof (induction es rule: rev_induct)
  case (snoc e es)
  then have s: "sorted_wrt (<) (map (\<lambda>e. the_int (field e ''sequence_number'')) es)"
    and a: "log_admits E log (foldl log_add log_start es) e" by (simp_all add: log_loop_snoc)
  show ?case
  proof (cases es rule: rev_cases)
    case (snoc es' e')
    with a have "the_int (field e' ''sequence_number'') < the_int (field e ''sequence_number'')"
      by (simp add: log_admits_def log_add_def)
    with s snoc show ?thesis by (auto simp: sorted_wrt_append)
  qed simp
qed simp

lemma log_loop_supersedes:
  assumes "log_loop E log es log_start" "j < length es" "field (es ! j) ''supersedes_event_id'' \<noteq> JUndef"
  shows "\<exists>i < j. field (es ! i) ''event_id'' = field (es ! j) ''supersedes_event_id''"
  using assms
proof (induction es rule: rev_induct)
  case (snoc e es)
  show ?case
  proof (cases "j < length es")
    case True
    with snoc obtain i where "i < j" "field (es ! i) ''event_id'' = field (es ! j) ''supersedes_event_id''"
      by (auto simp: nth_append log_loop_snoc)
    with True show ?thesis by (intro exI [of _ i]) (simp add: nth_append)
  next
    case False
    with snoc.prems have "j = length es" by simp
    with snoc.prems have "js_includes (map (\<lambda>e. field e ''event_id'') es) (field e ''supersedes_event_id'')"
      by (auto simp: log_loop_snoc log_admits_def log_foldl log_start_def)
    then obtain i where "i < length es" "field (es ! i) ''event_id'' = field e ''supersedes_event_id''"
      by (auto simp: js_includes_def list_ex_iff in_set_conv_nth strict_eq_iff)
    with \<open>j = length es\<close> show ?thesis by (intro exI [of _ i]) (simp add: nth_append)
  qed
qed simp

text \<open>C2: the review log is an append-only, content-addressed history. In every log that can be built,
  each event's identifier is the hash of its content, sequence numbers increase strictly, a
  correction refers to an earlier event, and the log is one the append accepts again; and each
  further append answers with the log unchanged or extended by exactly the submitted event.\<close>

theorem review_log_append_only:
  assumes reach: "review_reachable E rid es"
  shows "reviewEventLogIsValid E (review_log (jstr ''codeattest.v0'') (JStr rid) es) \<and>
    sorted_wrt (<) (map (\<lambda>e. the_int (field e ''sequence_number'')) es) \<and>
    (\<forall>e \<in> set es. computeReviewEventId E e = Inr (the_str (field e ''event_id'')) \<and> field e ''review_id'' = JStr rid) \<and>
    (\<forall>j < length es. field (es ! j) ''supersedes_event_id'' \<noteq> JUndef \<longrightarrow>
       (\<exists>i < j. field (es ! i) ''event_id'' = field (es ! j) ''supersedes_event_id'')) \<and>
    (\<forall>e res. appendReviewEvent E (review_log (jstr ''codeattest.v0'') (JStr rid) es) e = Inr res \<longrightarrow>
       res = RA_appended (review_log (jstr ''codeattest.v0'') (JStr rid) (es @ [e])) \<or>
       res = RA_noop (review_log (jstr ''codeattest.v0'') (JStr rid) es) \<or>
       (\<exists>r. res = RA_rejected r (review_log (jstr ''codeattest.v0'') (JStr rid) es)))"
proof -
  let ?log = "review_log (jstr ''codeattest.v0'') (JStr rid) es"
  have v: "reviewEventLogIsValid E ?log" by (rule review_reachable_valid [OF reach])
  then have l: "log_loop E ?log es log_start" by (simp add: reviewEventLogIsValid_def)
  have "computeReviewEventId E e = Inr (the_str (field e ''event_id''))" if "content_addressed E e" for e
    using that by (auto simp: content_addressed_def split: sum.splits)
  with log_loop_mem [OF l] have m: "\<forall>e \<in> set es. computeReviewEventId E e = Inr (the_str (field e ''event_id'')) \<and> field e ''review_id'' = JStr rid"
    by simp
  show ?thesis
    using v log_loop_sequences [OF l] m log_loop_supersedes [OF l] review_append_cases [of E ?log] by auto
qed

text \<open>An environment small enough to evaluate: the canonical text of an event is its key.\<close>

definition sample_review :: review_env where
  "sample_review = \<lparr>schema_valid = (\<lambda>_ _. True),
     jcs = (\<lambda>v. JcsText (the_str (field v ''idempotency_key''))), plat = sample_platform, tx = sample_text\<rparr>"

definition sample_review_fields :: "int \<Rightarrow> string \<Rightarrow> string \<Rightarrow> string \<Rightarrow> (ustr \<times> jsval) list" where
  "sample_review_fields n key ty actor =
     [(lit ''protocol_version'', jstr ''codeattest.v0''), (lit ''review_id'', jstr ''review:abc''),
      (lit ''sequence_number'', jint n), (lit ''idempotency_key'', jstr key), (lit ''event_type'', jstr ty),
      (lit ''actor'', JObj [(lit ''actor_type'', jstr actor), (lit ''actor_id'', jstr ''id:one'')]),
      (lit ''identity_input_excludes'', JArr [jstr ''event_id'']), (lit ''artifact_refs'', JArr [jstr ''artifact_ref:one'']),
      (lit ''visibility'', jstr ''customer_facing''), (lit ''event_timestamp'', jstr ''2024-01-01T00:00:00Z'')]"

definition sample_review_event :: jsval where
  "sample_review_event =
     JObj ((lit ''event_id'', jstr ''sha256:0000000000000000000000000000000000000000000000000000000000000049'')
           # sample_review_fields 3 ''k'' ''submission_received'' ''vendor_service'')"

abbreviation sample_review_log :: "jsval list \<Rightarrow> jsval" where
  "sample_review_log es \<equiv> review_log (jstr ''codeattest.v0'') (jstr ''review:abc'') es"

lemma sample_review_reachable: "review_reachable sample_review (lit ''review:abc'') [sample_review_event]"
proof -
  have "is_non_empty_string (jstr ''review:abc'')" by code_simp
  from review_reachable.start [OF this] have s: "review_reachable sample_review (lit ''review:abc'') []" .
  have "appendReviewEvent sample_review (sample_review_log []) sample_review_event =
      Inr (RA_appended (sample_review_log [sample_review_event]))"
    by code_simp
  from review_reachable.step [OF s this] show ?thesis by simp
qed

theorem review_log_append_only_witness:
  "reviewEventLogIsValid sample_review (sample_review_log [sample_review_event])"
  using review_log_append_only [OF sample_review_reachable] by blast

section \<open>Replay accepts what appends built\<close>

lemma stored_loop_Cons:
  "stored_loop E pv rid (e # es) d = Inr (Some l) \<longleftrightarrow> stored_step E pv rid d e \<and> stored_loop E pv rid es (d @ [e]) = Inr (Some l)"
proof (cases "rejectionForReviewEventSemantics E e = None")
  case True
  then show ?thesis using semantics_actor [OF True] by (auto simp: stored_step_def list_ex_iff split: if_splits)
qed (simp add: stored_step_def)

declare stored_loop.simps(2) [simp del]

lemma stored_loop_snoc:
  "stored_loop E pv rid (es @ [e]) d = Inr (Some l) \<longleftrightarrow>
   stored_loop E pv rid es d = Inr (Some (review_log pv rid (d @ es))) \<and> stored_step E pv rid (d @ es) e \<and>
   l = review_log pv rid (d @ es @ [e])"
  by (induction es arbitrary: d) (auto simp: stored_loop_Cons)

lemma stored_loop_result: "stored_loop E pv rid es d = Inr (Some l) \<Longrightarrow> l = review_log pv rid (d @ es)"
  by (induction es arbitrary: d) (fastforce simp: stored_loop_Cons)+

lemma stored_valid_log:
  assumes "is_non_empty_string rid" "stored_loop E (jstr ''codeattest.v0'') rid es [] = Inr (Some l)"
  shows "reviewEventLogIsValid E (review_log (jstr ''codeattest.v0'') rid es)"
  using assms(2)
proof (induction es arbitrary: l rule: rev_induct)
  case (snoc e es)
  then show ?case using stored_step_valid by (fastforce simp: stored_loop_snoc)
qed (use assms(1) in \<open>simp add: reviewEventLogIsValid_def\<close>)

lemma reachable_stored:
  "review_reachable E rid es \<Longrightarrow>
   stored_loop E (jstr ''codeattest.v0'') (JStr rid) es [] = Inr (Some (review_log (jstr ''codeattest.v0'') (JStr rid) es))"
proof (induction rule: review_reachable.induct)
  case (step es e log')
  then have "event_admitted E (review_log (jstr ''codeattest.v0'') (JStr rid) es) e" "events_of log' = es @ [e]"
    by (simp_all add: review_appended_iff)
  with step.IH event_admitted_step [of E "review_log (jstr ''codeattest.v0'') (JStr rid) es" e]
  show ?case by (simp add: stored_loop_snoc)
qed simp

text \<open>C6: replaying a stored log is complete and sound for the log it rebuilds: every log built by
  appends passes replay and comes back unchanged, and whatever passes replay is a log the append
  accepts.\<close>

theorem replay_accepts_appended_logs:
  "(review_reachable E rid es \<longrightarrow>
     storedReviewEventLogIsAppendValid E es (jstr ''codeattest.v0'') (JStr rid) =
       Inr (Some (review_log (jstr ''codeattest.v0'') (JStr rid) es))) \<and>
   (is_non_empty_string (JStr rid) \<and>
    storedReviewEventLogIsAppendValid E es (jstr ''codeattest.v0'') (JStr rid) = Inr (Some log) \<longrightarrow>
     log = review_log (jstr ''codeattest.v0'') (JStr rid) es \<and> reviewEventLogIsValid E log)"
proof (intro conjI impI)
  assume "review_reachable E rid es"
  then show "storedReviewEventLogIsAppendValid E es (jstr ''codeattest.v0'') (JStr rid) =
      Inr (Some (review_log (jstr ''codeattest.v0'') (JStr rid) es))"
    unfolding storedReviewEventLogIsAppendValid_def by (rule reachable_stored)
next
  assume a: "is_non_empty_string (JStr rid) \<and>
    storedReviewEventLogIsAppendValid E es (jstr ''codeattest.v0'') (JStr rid) = Inr (Some log)"
  then have l: "stored_loop E (jstr ''codeattest.v0'') (JStr rid) es [] = Inr (Some log)"
    by (simp add: storedReviewEventLogIsAppendValid_def)
  from stored_loop_result [OF l] show "log = review_log (jstr ''codeattest.v0'') (JStr rid) es" by simp
  with stored_valid_log [OF _ l] a show "reviewEventLogIsValid E log" by simp
qed

theorem replay_accepts_appended_logs_witness:
  "storedReviewEventLogIsAppendValid sample_review [sample_review_event] (jstr ''codeattest.v0'') (jstr ''review:abc'') =
   Inr (Some (sample_review_log [sample_review_event]))"
  using replay_accepts_appended_logs [of sample_review "lit ''review:abc''" "[sample_review_event]"] sample_review_reachable
  by blast

section \<open>What a correction can reach\<close>

text \<open>The events a chain of corrections starting at an identifier leads to.\<close>

inductive supersedes_reaches :: "jsval list \<Rightarrow> jsval \<Rightarrow> jsval \<Rightarrow> bool" for es i where
  direct: "find_first (\<lambda>e. strict_eq (field e ''event_id'') i) es = Some e \<Longrightarrow> i \<noteq> JUndef \<Longrightarrow> supersedes_reaches es i e"
| further: "supersedes_reaches es i e \<Longrightarrow> field e ''supersedes_event_id'' \<noteq> JUndef \<Longrightarrow>
    find_first (\<lambda>x. strict_eq (field x ''event_id'') (field e ''supersedes_event_id'')) es = Some e' \<Longrightarrow>
    supersedes_reaches es i e'"

text \<open>The set a finished walk returns is closed under one more step.\<close>

lemma chain_loop_closed:
  assumes "chain_loop es n visited chain = Some out"
    and "\<And>v e. v \<in> set visited \<Longrightarrow> find_first (\<lambda>x. strict_eq (field x ''event_id'') v) es = Some e \<Longrightarrow> e \<in> set chain"
    and "\<And>e. e \<in> set chain \<Longrightarrow> field e ''supersedes_event_id'' = JUndef \<or> field e ''supersedes_event_id'' \<in> set visited \<or>
      field e ''supersedes_event_id'' = n"
  shows "set chain \<subseteq> set out \<and>
    (n \<noteq> JUndef \<longrightarrow> (\<forall>e. find_first (\<lambda>x. strict_eq (field x ''event_id'') n) es = Some e \<longrightarrow> e \<in> set out)) \<and>
    (\<forall>e \<in> set out. \<forall>e'. field e ''supersedes_event_id'' \<noteq> JUndef \<longrightarrow>
       find_first (\<lambda>x. strict_eq (field x ''event_id'') (field e ''supersedes_event_id'')) es = Some e' \<longrightarrow> e' \<in> set out)"
  using assms
proof (induction es n visited chain rule: chain_loop.induct)
  case (1 es n visited chain)
  show ?case
  proof (cases "n = JUndef \<or> js_includes visited n")
    case True
    with 1(2) have out: "out = chain" by (subst (asm) chain_loop.simps) auto
    have n: "n = JUndef \<or> n \<in> set visited"
      using True by (auto simp: js_includes_def list_ex_iff strict_eq_iff)
    have "e' \<in> set chain" if "e \<in> set chain" "field e ''supersedes_event_id'' \<noteq> JUndef"
        "find_first (\<lambda>x. strict_eq (field x ''event_id'') (field e ''supersedes_event_id'')) es = Some e'" for e e'
      using 1(4) [OF that(1)] that(2) n by (intro 1(3) [OF _ that(3)]) auto
    with out n 1(3) [of n] show ?thesis by blast
  next
    case False
    with 1(2) obtain e where e: "find_first (\<lambda>x. strict_eq (field x ''event_id'') n) es = Some e"
        and l: "chain_loop es (field e ''supersedes_event_id'') (n # visited) (chain @ [e]) = Some out"
      by (subst (asm) chain_loop.simps) (auto split: option.splits)
    have v: "x \<in> set (chain @ [e])"
      if "v \<in> set (n # visited)" "find_first (\<lambda>x. strict_eq (field x ''event_id'') v) es = Some x" for v x
      using that 1(3) [of v x] e by (cases "v = n") simp_all
    have s: "field x ''supersedes_event_id'' = JUndef \<or> field x ''supersedes_event_id'' \<in> set (n # visited) \<or>
        field x ''supersedes_event_id'' = field e ''supersedes_event_id''" if "x \<in> set (chain @ [e])" for x
      using that 1(4) [of x] by (cases "x = e") auto
    note c = 1(1) [OF False e l v s]
    with e show ?thesis by simp
  qed
qed

lemma supersedesChain_complete:
  assumes "supersedesChain log i = Some chain" "supersedes_reaches (events_of log) i e"
  shows "e \<in> set chain"
proof -
  have "chain_loop (events_of log) i [] [] = Some chain" using assms(1) by (simp add: supersedesChain_def)
  note c = chain_loop_closed [OF this]
  from assms(2) show ?thesis
  proof induction
    case (direct e)
    with c show ?case by auto
  next
    case (further e e')
    with c show ?case by auto
  qed
qed

lemma supersedes_reaches_id: "supersedes_reaches es i e \<Longrightarrow> i \<noteq> JUndef"
  by (induction rule: supersedes_reaches.induct)

text \<open>C4: a customer can never overrule a reviewer, however many corrections lie in between: an event
  by a customer, or of a kind customers record, is appended only when no event its chain of
  corrections reaches is a classification, guidance, a validation or a false-positive decision.\<close>

theorem customer_cannot_supersede_expert:
  assumes app: "appendReviewEvent E log e = Inr (RA_appended log')"
    and customer: "isCustomerActor (field e ''actor'') \<or> one_of CUSTOMER_CORRECTION_EVENT_TYPES (event_type e)"
    and reach: "supersedes_reaches (events_of log) (field e ''supersedes_event_id'') x"
  shows "\<not> one_of [''classification_recorded'', ''remediation_guidance_recorded'', ''validation_recorded'',
    ''false_positive_recorded''] (event_type x)"
proof -
  have "chain_rule log e = None"
    using app structural_passed(5) by (auto simp: review_appended_iff event_admitted_def)
  moreover have i: "field e ''supersedes_event_id'' \<noteq> JUndef" by (rule supersedes_reaches_id [OF reach])
  ultimately obtain chain where c: "supersedesChain log (field e ''supersedes_event_id'') = Some chain"
    by (cases "supersedesChain log (field e ''supersedes_event_id'')") (simp_all add: chain_rule_def)
  have "\<not> some_type ''classification_recorded'' chain" "\<not> some_type ''remediation_guidance_recorded'' chain"
    "\<not> some_type ''validation_recorded'' chain" "\<not> some_type ''false_positive_recorded'' chain"
    using \<open>chain_rule log e = None\<close> i c customer unfolding chain_rule_def Let_def
    by (auto split: if_splits)
  with supersedesChain_complete [OF c reach] show ?thesis
    by (auto simp: some_type_def list_ex_iff one_of_def js_includes_def)
qed

definition sample_customer_fields :: "(ustr \<times> jsval) list" where
  "sample_customer_fields = sample_review_fields 4 ''k2'' ''submission_received'' ''customer_user'' @
     [(lit ''supersedes_event_id'', jstr ''sha256:0000000000000000000000000000000000000000000000000000000000000049'')]"

definition sample_customer_event :: jsval where
  "sample_customer_event =
     JObj ((lit ''event_id'', jstr ''sha256:0000000000000000000000000000000000000000000000000000000000000036'') # sample_customer_fields)"

lemma sample_customer_appended:
  "appendReviewEvent sample_review (sample_review_log [sample_review_event]) sample_customer_event =
     Inr (RA_appended (sample_review_log [sample_review_event, sample_customer_event]))"
proof -
  have "rejectionForReviewEventSemantics sample_review sample_customer_event = None"
    and "content_addressed sample_review sample_customer_event" by code_simp+
  moreover have "rejectionForEventVersionAndSupersedesChain sample_platform (sample_review_log [sample_review_event])
      sample_customer_event = Inr None" by code_simp
  moreover have "cloneable (sample_review_log [sample_review_event])" "cloneable sample_customer_event"
    "is_record sample_customer_event" "field sample_customer_event ''protocol_version'' = jstr ''codeattest.v0''"
    "field sample_customer_event ''review_id'' = jstr ''review:abc''"
    "is_sequence_number (field sample_customer_event ''sequence_number'')"
    "\<not> strict_eq (field sample_review_event ''idempotency_key'') (field sample_customer_event ''idempotency_key'')"
    "\<not> isValidationScriptEvent sample_customer_event" by code_simp+
  ultimately show ?thesis
    using review_reachable_valid [OF sample_review_reachable]
    by (simp add: review_appended_iff event_admitted_def cap_skips sample_review_def)
qed

theorem customer_cannot_supersede_expert_witness:
  "appendReviewEvent sample_review (sample_review_log [sample_review_event]) sample_customer_event =
     Inr (RA_appended (sample_review_log [sample_review_event, sample_customer_event])) \<and>
   event_type sample_review_event \<noteq> jstr ''classification_recorded''"
proof -
  have c: "isCustomerActor (field sample_customer_event ''actor'') \<or>
      one_of CUSTOMER_CORRECTION_EVENT_TYPES (event_type sample_customer_event)" by code_simp
  have f: "find_first (\<lambda>e. strict_eq (field e ''event_id'') (field sample_customer_event ''supersedes_event_id''))
      (events_of (sample_review_log [sample_review_event])) = Some sample_review_event"
    "field sample_customer_event ''supersedes_event_id'' \<noteq> JUndef" by code_simp+
  from customer_cannot_supersede_expert [OF sample_customer_appended c supersedes_reaches.direct [OF f]] sample_customer_appended
  show ?thesis by (auto simp: one_of_def js_includes_def)
qed

section \<open>What customers see\<close>

abbreviation customer_entries :: "('a review_env_scheme) \<Rightarrow> jsval \<Rightarrow> jsval list" where
  "customer_entries E log \<equiv> the_array (field (projectCustomerFacingHistory E log) ''entries'')"

definition customer_visible :: "jsval \<Rightarrow> bool" where
  "customer_visible e \<longleftrightarrow> field e ''visibility'' = jstr ''customer_facing'' \<and>
     field e ''event_type'' \<noteq> jstr ''pilot_metric_recorded'' \<and> field e ''event_type'' \<noteq> jstr ''pilot_feedback_recorded''"

lemma customer_entries_valid:
  assumes "reviewEventLogIsValid E log"
  shows "customer_entries E log = map projection_entry (filter customer_visible (events_of log))"
proof -
  have "sort_key (\<lambda>e. the_int (field e ''sequence_number'')) (events_of log) = events_of log"
    using assms log_loop_sequences by (intro sort_strict_id) (auto simp: reviewEventLogIsValid_def)
  moreover have "customer_visible = (\<lambda>e. field e ''visibility'' = jstr ''customer_facing''
      \<and> \<not> one_of [''pilot_metric_recorded'', ''pilot_feedback_recorded''] (event_type e))"
    by (auto simp: customer_visible_def one_of_def js_includes_def)
  ultimately show ?thesis using assms by (simp add: projectCustomerFacingHistory_def)
qed

text \<open>C31: what customers see of a review. For every log that can be built by appends there is one
  entry for each customer-facing event that is not a pilot record, in the order of the log. The entry
  has the members listed here and no others, so neither the identity of the actor nor any internal
  field is in it, and each has the event's own value. A further append leaves every entry already
  shown as it is and adds at most the one of the new event. Of a log that is not valid nothing is shown.\<close>

theorem customer_projection_exact:
  assumes "review_reachable E rid es"
  shows "list_all2 (\<lambda>entry e.
      (\<exists>members. entry = JObj members \<and>
         map fst members = map lit ([''event_id'', ''event_type'', ''event_timestamp'', ''actor_category'', ''artifact_refs'', ''visibility'']
           @ (if field e ''reason'' = JUndef then [] else [''reason'']))) \<and>
      (\<forall>k \<in> {''event_id'', ''event_type'', ''event_timestamp'', ''artifact_refs'', ''visibility'', ''reason''}. field entry k = field e k) \<and>
      field entry ''actor_category'' = field (field e ''actor'') ''actor_type'')
    (customer_entries E (review_log (jstr ''codeattest.v0'') (JStr rid) es)) (filter customer_visible es) \<and>
  (\<forall>e log'. appendReviewEvent E (review_log (jstr ''codeattest.v0'') (JStr rid) es) e = Inr (RA_appended log') \<longrightarrow>
     (\<exists>new. customer_entries E log' = customer_entries E (review_log (jstr ''codeattest.v0'') (JStr rid) es) @ new \<and>
            length new = (if customer_visible e then 1 else 0))) \<and>
  (\<forall>log. \<not> reviewEventLogIsValid E log \<longrightarrow> customer_entries E log = [])"
proof (intro conjI allI impI)
  note v = review_reachable_valid [OF assms]
  show "list_all2 (\<lambda>entry e.
      (\<exists>members. entry = JObj members \<and>
         map fst members = map lit ([''event_id'', ''event_type'', ''event_timestamp'', ''actor_category'', ''artifact_refs'', ''visibility'']
           @ (if field e ''reason'' = JUndef then [] else [''reason'']))) \<and>
      (\<forall>k \<in> {''event_id'', ''event_type'', ''event_timestamp'', ''artifact_refs'', ''visibility'', ''reason''}. field entry k = field e k) \<and>
      field entry ''actor_category'' = field (field e ''actor'') ''actor_type'')
    (customer_entries E (review_log (jstr ''codeattest.v0'') (JStr rid) es)) (filter customer_visible es)"
    unfolding customer_entries_valid [OF v]
    by (auto simp: list.rel_map projection_entry_def customer_visible_def actor_type_def intro!: list.rel_refl_strong)
next
  fix e log'
  assume a: "appendReviewEvent E (review_log (jstr ''codeattest.v0'') (JStr rid) es) e = Inr (RA_appended log')"
  then have l: "log' = review_log (jstr ''codeattest.v0'') (JStr rid) (es @ [e])" by (simp add: review_appended_iff)
  from review_reachable_valid [OF review_reachable.step [OF assms a]]
  show "\<exists>new. customer_entries E log' = customer_entries E (review_log (jstr ''codeattest.v0'') (JStr rid) es) @ new \<and>
      length new = (if customer_visible e then 1 else 0)"
    unfolding l by (simp add: customer_entries_valid [OF review_reachable_valid [OF assms]] customer_entries_valid)
qed (simp add: projectCustomerFacingHistory_def)

theorem customer_projection_exact_witness:
  "\<exists>entry new. customer_entries sample_review (sample_review_log [sample_review_event]) = [entry] \<and>
     field entry ''event_id'' = field sample_review_event ''event_id'' \<and>
     customer_entries sample_review (sample_review_log [sample_review_event, sample_customer_event]) = [entry, new]"
proof -
  have vis: "customer_visible sample_review_event" "customer_visible sample_customer_event" by code_simp+
  from customer_projection_exact [OF sample_review_reachable] sample_customer_appended vis
  show ?thesis by (fastforce simp: list_all2_Cons2 length_Suc_conv)
qed

section \<open>The cap holds\<close>

lemma included_slots_snoc:
  "included_slots (es @ [e]) =
     (case included_slots es of None \<Rightarrow> None
      | Some slots \<Rightarrow>
          if \<not> isValidationScriptEvent e then Some slots
          else (case validationScriptPackageFromReason (field e ''reason'') of
              None \<Rightarrow> None | Some Additional_script_candidate_pricing_tbd \<Rightarrow> Some slots
            | Some (Included_base_package slot) \<Rightarrow> Some (slots @ [slot])))"
  by (induction es) (auto split: option.splits validationScriptPackage.splits)

text \<open>C34: a review never includes more than three validation scripts, each in a slot of its own: in
  every log that can be built the slots of all included scripts can be read, are distinct, and
  number at most three.\<close>

theorem included_script_cap:
  assumes "review_reachable E rid es"
  shows "\<exists>slots. included_slots es = Some slots \<and> distinct slots \<and> length slots \<le> 3"
  using assms
proof (induction rule: review_reachable.induct)
  case (step es e log')
  then obtain slots where s: "included_slots es = Some slots" "distinct slots" "length slots \<le> 3" by blast
  from step.hyps have l: "events_of log' = es @ [e]"
    and r: "rejectionForValidationEventPackageAppend (review_log (jstr ''codeattest.v0'') (JStr rid) es) e = None"
    by (simp_all add: review_appended_iff event_admitted_def)
  show ?case
  proof (cases "isValidationScriptEvent e")
    case True
    with r s show ?thesis
      by (auto simp: l included_slots_snoc rejectionForValidationEventPackageAppend_def
          split: option.splits validationScriptPackage.splits if_splits)
  qed (use s in \<open>simp add: l included_slots_snoc\<close>)
qed simp

theorem included_script_cap_witness: "\<exists>slots. included_slots [sample_review_event] = Some slots \<and> length slots \<le> 3"
  using included_script_cap [OF sample_review_reachable] by blast

end
