(* ===== verification/Identity_Store.thy ===== *)
theory Identity_Store
  imports Artifact_Store "HOL-Library.Word"
begin

unbundle bit_operations_syntax

text \<open>
  Accounts, secrets, one-time codes, sessions and credentials
  (\<^verbatim>\<open>packages/identity-store/src\<close>, with the in-memory stores). Scrypt, HMAC, AES-GCM and
  SHA-256 are functions of the environment; what \<^verbatim>\<open>randomBytes\<close> returned is an argument. Times are
  milliseconds since the epoch.
\<close>

section \<open>Limits\<close>

definition SESSION_IDLE_TIMEOUT_MS :: int where "SESSION_IDLE_TIMEOUT_MS = 30 * 60 * 1000"
definition SESSION_ABSOLUTE_LIFETIME_MS :: int where "SESSION_ABSOLUTE_LIFETIME_MS = 12 * 60 * 60 * 1000"
definition LOGIN_LOCKOUT_THRESHOLD :: nat where "LOGIN_LOCKOUT_THRESHOLD = 5"
definition LOGIN_LOCKOUT_WINDOW_MS :: int where "LOGIN_LOCKOUT_WINDOW_MS = 15 * 60 * 1000"
definition ACTIVITY_DEBOUNCE_MS :: int where "ACTIVITY_DEBOUNCE_MS = 60 * 1000"

section \<open>Secrets\<close>

text \<open>\<open>scrypt pass salt N r p len\<close> is \<open>None\<close> when the call throws; \<open>number_int s\<close> is \<^verbatim>\<open>Number(s)\<close>
  when that is an integer.\<close>

record id_crypto =
  scrypt :: "ustr \<Rightarrow> bytes \<Rightarrow> int \<Rightarrow> int \<Rightarrow> int \<Rightarrow> nat \<Rightarrow> bytes option"
  hmac_sha1 :: "bytes \<Rightarrow> bytes \<Rightarrow> bytes"
  id_gcm :: gcm
  id_sha256 :: "bytes \<Rightarrow> bytes"
  number_int :: "ustr \<Rightarrow> int option"

text \<open>What scrypt documents: with the parameters of this module it returns a key of the length asked
  for. And a decimal numeral denotes its number.\<close>

definition scrypt_derives :: "id_crypto \<Rightarrow> bool" where
  "scrypt_derives C \<longleftrightarrow> (\<forall>pass salt. \<exists>d. scrypt C pass salt 32768 8 1 32 = Some d \<and> length d = 32 \<and> byte_string d)"

definition numerals_read :: "id_crypto \<Rightarrow> bool" where
  "numerals_read C \<longleftrightarrow> number_int C (lit ''32768'') = Some 32768 \<and> number_int C (lit ''8'') = Some 8 \<and> number_int C (lit ''1'') = Some 1"

definition hashSecret :: "id_crypto \<Rightarrow> bytes \<Rightarrow> ustr \<Rightarrow> ustr option" where
  "hashSecret C salt plaintext =
     map_option (\<lambda>derived. lit ''scrypt$32768$8$1$'' @ to_hex salt @ lit ''$'' @ to_hex derived)
       (scrypt C plaintext salt 32768 8 1 32)"

definition verifySecret :: "id_crypto \<Rightarrow> ustr \<Rightarrow> ustr \<Rightarrow> bool" where
  "verifySecret C stored presented =
     (case split_on 36 stored of
        [p0, p1, p2, p3, p4, p5] \<Rightarrow>
          if p0 \<noteq> lit ''scrypt'' then False
          else
            (case (number_int C p1, number_int C p2, number_int C p3) of
               (Some N, Some r, Some p) \<Rightarrow>
                 if N \<le> 1 \<or> r < 1 \<or> p < 1 then False
                 else if p4 = [] \<or> p5 = [] \<or> \<not> list_all is_lower_hex p4 \<or> \<not> list_all is_lower_hex p5 then False
                 else
                   (let salt = of_hex p4; expected = of_hex p5 in
                    if salt = [] \<or> expected = [] then False
                    else (case scrypt C presented salt N r p (length expected) of
                        None \<Rightarrow> False
                      | Some derived \<Rightarrow> length derived = length expected \<and> derived = expected))
             | _ \<Rightarrow> False)
      | _ \<Rightarrow> False)"

definition sessionHandleFor :: "id_crypto \<Rightarrow> ustr \<Rightarrow> ustr" where
  "sessionHandleFor C token = to_hex (id_sha256 C (utf8 token))"

section \<open>One-time codes\<close>

definition TOTP_STEP_SECONDS :: int where "TOTP_STEP_SECONDS = 30"
definition TOTP_DIGITS :: nat where "TOTP_DIGITS = 6"
definition TOTP_MOD :: nat where "TOTP_MOD = 10 ^ TOTP_DIGITS"
definition GCM_IV_LENGTH :: nat where "GCM_IV_LENGTH = 12"
definition GCM_TAG_LENGTH :: nat where "GCM_TAG_LENGTH = 16"

definition BASE32_ALPHABET :: ustr where "BASE32_ALPHABET = lit ''ABCDEFGHIJKLMNOPQRSTUVWXYZ234567''"

text \<open>Dynamic truncation, on 32-bit integers as the bit operators compute it.\<close>

definition truncation :: "bytes \<Rightarrow> 32 word" where
  "truncation hmac =
     (let offset = hmac ! 19 mod 16;
          byte = (\<lambda>i. word_of_nat (hmac ! (offset + i)) :: 32 word) in
      (push_bit 24 (byte 0 AND 0x7f) OR push_bit 16 (byte 1 AND 0xff)) OR push_bit 8 (byte 2 AND 0xff) OR (byte 3 AND 0xff))"

definition padStart0 :: "nat \<Rightarrow> ustr \<Rightarrow> ustr" where
  "padStart0 n s = replicate (n - length s) 48 @ s"

definition totpCodeAt :: "id_crypto \<Rightarrow> bytes \<Rightarrow> int \<Rightarrow> ustr" where
  "totpCodeAt C secret unixSeconds =
     padStart0 TOTP_DIGITS
       (digits_of_nat (unat (truncation (hmac_sha1 C secret (uint64_be (unixSeconds div TOTP_STEP_SECONDS)))) mod TOTP_MOD))"

definition matchTotpStep :: "id_crypto \<Rightarrow> bytes \<Rightarrow> ustr \<Rightarrow> int \<Rightarrow> int option" where
  "matchTotpStep C secret presented unixSeconds =
     (if length presented \<noteq> 6 \<or> \<not> list_all is_digit presented then None
      else foldl (\<lambda>matched offset.
          if totpCodeAt C secret (unixSeconds + offset * TOTP_STEP_SECONDS) = presented then
            Some (unixSeconds div TOTP_STEP_SECONDS + offset)
          else matched) None [-1, 0, 1])"

definition verifyTotpCode :: "id_crypto \<Rightarrow> bytes \<Rightarrow> ustr \<Rightarrow> int \<Rightarrow> bool" where
  "verifyTotpCode C secret presented unixSeconds \<longleftrightarrow> matchTotpStep C secret presented unixSeconds \<noteq> None"

text \<open>The inner loop writes a digit while five bits are buffered; the buffer is a 32-bit integer that
  keeps its old bits and loses them only by overflow.\<close>

fun base32_drain :: "nat \<Rightarrow> 32 word \<Rightarrow> ustr \<times> nat" where
  "base32_drain bits buf =
     (if bits \<ge> 5 then
        (case base32_drain (bits - 5) buf of (out, b) \<Rightarrow>
           (BASE32_ALPHABET ! unat (drop_bit (bits - 5) buf AND 31) # out, b))
      else ([], bits))"

declare base32_drain.simps [simp del]

fun base32_loop :: "bytes \<Rightarrow> nat \<Rightarrow> 32 word \<Rightarrow> ustr" where
  "base32_loop [] bits buf =
     (if bits > 0 then [BASE32_ALPHABET ! unat (push_bit (5 - bits) buf AND 31)] else [])"
| "base32_loop (byte # bs) bits buf =
     (let buf = push_bit 8 buf OR word_of_nat byte in
      case base32_drain (bits + 8) buf of (out, b) \<Rightarrow> out @ base32_loop bs b buf)"

definition encodeBase32 :: "bytes \<Rightarrow> ustr" where
  "encodeBase32 bs = base32_loop bs 0 0"

definition sealTotpSecret :: "id_crypto \<Rightarrow> bytes \<Rightarrow> bytes \<Rightarrow> bytes \<Rightarrow> ustr" where
  "sealTotpSecret C iv secret key =
     (case gcm_seal (id_gcm C) key iv secret of
        (ciphertext, tag) \<Rightarrow> lit ''v1$'' @ to_hex iv @ lit ''$'' @ to_hex tag @ lit ''$'' @ to_hex ciphertext)"

definition ascii_lower :: "nat \<Rightarrow> nat" where
  "ascii_lower c = (if 65 \<le> c \<and> c \<le> 90 then c + 32 else c)"

definition hex_any :: "ustr \<Rightarrow> bool" where
  "hex_any s \<longleftrightarrow> s \<noteq> [] \<and> list_all is_lower_hex (map ascii_lower s)"

text \<open>\<open>None\<close> for a malformed box and for one the cipher refuses.\<close>

definition openTotpSecret :: "id_crypto \<Rightarrow> ustr \<Rightarrow> bytes \<Rightarrow> bytes option" where
  "openTotpSecret C box key =
     (case split_on 36 box of
        [v, ivHex, tagHex, cipherHex] \<Rightarrow>
          if v \<noteq> lit ''v1'' \<or> \<not> hex_any ivHex \<or> \<not> hex_any tagHex \<or> \<not> hex_any cipherHex then None
          else
            (let iv = of_hex (map ascii_lower ivHex); tag = of_hex (map ascii_lower tagHex);
                 ciphertext = of_hex (map ascii_lower cipherHex) in
             if length iv \<noteq> GCM_IV_LENGTH \<or> length tag \<noteq> GCM_TAG_LENGTH \<or> ciphertext = [] then None
             else gcm_open (id_gcm C) key iv ciphertext tag)
      | _ \<Rightarrow> None)"

section \<open>Accounts and roles\<close>

datatype role = Customer_admin | Customer_viewer | Codeattest_reviewer | Codeattest_ops | Evidence_consumer_static

datatype id_actor_type = Customer_user | Reviewer | Vendor_service | Local_runner

record roleGrant =
  g_account :: ustr
  g_role :: role
  g_review_scope :: "ustr option"

record accountRecord =
  account_id :: ustr
  tenant_id :: ustr
  login_identifier :: ustr
  secret_hash :: ustr
  totp_secret_box :: "ustr option"

record account_store =
  byId :: "(ustr, accountRecord) jmap"
  byIdentifier :: "(ustr, accountRecord) jmap"
  grantsByAccount :: "(ustr, roleGrant list) jmap"
  lastTotpStep :: "(ustr, int) jmap"

definition findByIdentifier :: "account_store \<Rightarrow> ustr \<Rightarrow> accountRecord option" where
  "findByIdentifier A i = jm_get (byIdentifier A) i"

definition findById :: "account_store \<Rightarrow> ustr \<Rightarrow> accountRecord option" where
  "findById A i = jm_get (byId A) i"

definition grantsFor :: "account_store \<Rightarrow> ustr \<Rightarrow> roleGrant list" where
  "grantsFor A i = (case jm_get (grantsByAccount A) i of Some gs \<Rightarrow> gs | None \<Rightarrow> [])"

definition claimTotpStep :: "account_store \<Rightarrow> ustr \<Rightarrow> int \<Rightarrow> account_store \<times> bool" where
  "claimTotpStep A i step =
     (case jm_get (lastTotpStep A) i of
        Some prev \<Rightarrow> if step \<le> prev then (A, False) else (A\<lparr>lastTotpStep := jm_set (lastTotpStep A) i step\<rparr>, True)
      | None \<Rightarrow> (A\<lparr>lastTotpStep := jm_set (lastTotpStep A) i step\<rparr>, True))"

definition account_seed :: "account_store \<Rightarrow> accountRecord \<Rightarrow> roleGrant list \<Rightarrow> account_store" where
  "account_seed A acc grants =
     A\<lparr>byId := jm_set (byId A) (account_id acc) acc, byIdentifier := jm_set (byIdentifier A) (login_identifier acc) acc,
       grantsByAccount := jm_set (grantsByAccount A) (account_id acc) grants\<rparr>"

definition actorTypeForRole :: "role \<Rightarrow> id_actor_type" where
  "actorTypeForRole r =
     (case r of Customer_admin \<Rightarrow> Customer_user | Customer_viewer \<Rightarrow> Customer_user | Codeattest_reviewer \<Rightarrow> Reviewer
      | Codeattest_ops \<Rightarrow> Vendor_service | Evidence_consumer_static \<Rightarrow> Vendor_service)"

fun grant_loop :: "roleGrant list \<Rightarrow> ustr \<Rightarrow> roleGrant option \<Rightarrow> roleGrant option" where
  "grant_loop [] reviewScope tenantWide = tenantWide"
| "grant_loop (g # gs) reviewScope tenantWide =
     (if g_review_scope g = Some reviewScope then Some g
      else if g_review_scope g = None \<and> tenantWide = None then grant_loop gs reviewScope (Some g)
      else grant_loop gs reviewScope tenantWide)"

definition selectGrant :: "roleGrant list \<Rightarrow> ustr \<Rightarrow> roleGrant option" where
  "selectGrant grants reviewScope = grant_loop grants reviewScope None"

section \<open>Sessions\<close>

datatype secondFactorState = Not_required | Pending | Satisfied

datatype revocationReason = Logout | Operator_revoked | Rotated

record issueSessionInput =
  session_handle :: ustr
  s_account :: ustr
  issued_at :: int
  absolute_expires_at :: int
  second_factor_state :: secondFactorState

record session_store =
  sessions :: "(ustr, issueSessionInput) jmap"
  revocations :: "(ustr, revocationReason) jmap"
  lastActivity :: "(ustr, int) jmap"

definition session_issue :: "session_store \<Rightarrow> issueSessionInput \<Rightarrow> session_store" where
  "session_issue S input = S\<lparr>sessions := jm_set (sessions S) (session_handle input) input\<rparr>"

text \<open>The handle, the account and the state of the row are what a caller reads of the result.\<close>

definition session_resolve :: "session_store \<Rightarrow> ustr \<Rightarrow> int \<Rightarrow> issueSessionInput option" where
  "session_resolve S h now =
     (case jm_get (sessions S) h of
        None \<Rightarrow> None
      | Some row \<Rightarrow>
          if \<not> now < absolute_expires_at row then None
          else if jm_has (revocations S) h then None
          else
            (let recent = (case jm_get (lastActivity S) h of
                 Some a \<Rightarrow> if a > issued_at row then a else issued_at row | None \<Rightarrow> issued_at row) in
             if \<not> now - recent < SESSION_IDLE_TIMEOUT_MS then None else Some row))"

definition session_touch :: "session_store \<Rightarrow> ustr \<Rightarrow> int \<Rightarrow> session_store" where
  "session_touch S h now =
     (case jm_get (lastActivity S) h of
        Some newest \<Rightarrow> if newest > now - ACTIVITY_DEBOUNCE_MS then S else S\<lparr>lastActivity := jm_set (lastActivity S) h now\<rparr>
      | None \<Rightarrow> S\<lparr>lastActivity := jm_set (lastActivity S) h now\<rparr>)"

definition session_revoke :: "session_store \<Rightarrow> ustr \<Rightarrow> revocationReason \<Rightarrow> session_store" where
  "session_revoke S h reason =
     (if jm_has (revocations S) h then S else S\<lparr>revocations := jm_set (revocations S) h reason\<rparr>)"

definition session_revokeAllForAccount :: "session_store \<Rightarrow> ustr \<Rightarrow> revocationReason \<Rightarrow> session_store" where
  "session_revokeAllForAccount S acc reason =
     foldl (\<lambda>S row. if s_account row = acc \<and> \<not> jm_has (revocations S) (session_handle row) then
         S\<lparr>revocations := jm_set (revocations S) (session_handle row) reason\<rparr> else S) S (jm_values (sessions S))"

section \<open>The login throttle\<close>

datatype loginOutcome = Succeeded | Failed

type_synonym attempt_log = "(ustr, (loginOutcome \<times> int) list) jmap"

definition throttle_record :: "attempt_log \<Rightarrow> ustr \<Rightarrow> loginOutcome \<Rightarrow> int \<Rightarrow> attempt_log" where
  "throttle_record L k oc now =
     jm_set L k ((case jm_get L k of Some as \<Rightarrow> as | None \<Rightarrow> []) @ [(oc, now)])"

definition last_success :: "(loginOutcome \<times> int) list \<Rightarrow> int option" where
  "last_success as =
     foldl (\<lambda>best (oc, ms). if oc = Succeeded \<and> (case best of None \<Rightarrow> True | Some b \<Rightarrow> ms > b) then Some ms else best) None as"

definition throttle_locked :: "attempt_log \<Rightarrow> ustr \<Rightarrow> int \<Rightarrow> bool" where
  "throttle_locked L k now =
     (let as = (case jm_get L k of Some as \<Rightarrow> as | None \<Rightarrow> []);
          windowStart = now - LOGIN_LOCKOUT_WINDOW_MS;
          cutoff = (case last_success as of None \<Rightarrow> windowStart | Some ms \<Rightarrow> max windowStart ms) in
      length (filter (\<lambda>(oc, ms). oc = Failed \<and> ms > cutoff) as) \<ge> LOGIN_LOCKOUT_THRESHOLD)"

section \<open>Submission credentials\<close>

datatype credentialRevocation = Cred_rotated | Cred_operator_revoked | Cred_review_closed

record submissionCredential =
  token_key_id :: ustr
  c_review_id :: ustr
  c_tenant_id :: ustr
  customer_id :: ustr
  selected_application_id :: ustr
  selected_commit :: ustr
  repository_identity_hash :: ustr
  expected_manifest_id :: ustr
  expected_evidence_bundle_id :: "ustr option"
  c_secret_hash :: ustr

record credential_store =
  issued :: "(ustr, submissionCredential \<times> int) jmap"
  c_revocations :: "(ustr, credentialRevocation) jmap"

text \<open>Issuing throws when the identifier is taken. The row keeps the credential and its expiry.\<close>

definition credential_issue :: "credential_store \<Rightarrow> submissionCredential \<Rightarrow> int \<Rightarrow> unit + credential_store" where
  "credential_issue D cred expires_at =
     (if jm_has (issued D) (token_key_id cred) then Inl ()
      else Inr (D\<lparr>issued := jm_set (issued D) (token_key_id cred) (cred, expires_at)\<rparr>))"

definition credential_resolve :: "credential_store \<Rightarrow> ustr \<Rightarrow> int \<Rightarrow> submissionCredential option" where
  "credential_resolve D k now =
     (case jm_get (issued D) k of
        None \<Rightarrow> None
      | Some (cred, expires_at) \<Rightarrow>
          if jm_has (c_revocations D) k then None else if \<not> now < expires_at then None else Some cred)"

definition credential_revoke :: "credential_store \<Rightarrow> ustr \<Rightarrow> credentialRevocation \<Rightarrow> credential_store" where
  "credential_revoke D k reason =
     (if \<not> jm_has (issued D) k \<or> jm_has (c_revocations D) k then D
      else D\<lparr>c_revocations := jm_set (c_revocations D) k reason\<rparr>)"

section \<open>Stored secrets verify\<close>

lemma hex_no_dollar: "byte_string bs \<Longrightarrow> 36 \<notin> set (to_hex bs)"
  using to_hex_lower [of bs] by (auto simp: list_all_iff is_lower_hex_def)

lemma to_hex_Nil [simp]: "to_hex bs = [] \<longleftrightarrow> bs = []"
  using length_to_hex [of bs] by auto

lemma stored_secret_parts:
  assumes "byte_string salt" "byte_string d"
  shows "split_on 36 (lit ''scrypt$32768$8$1$'' @ to_hex salt @ lit ''$'' @ to_hex d) =
    [lit ''scrypt'', lit ''32768'', lit ''8'', lit ''1'', to_hex salt, to_hex d]"
proof -
  have e: "lit ''scrypt$32768$8$1$'' = lit ''scrypt'' @ 36 # lit ''32768'' @ 36 # lit ''8'' @ 36 # lit ''1'' @ 36 # []" "lit ''$'' = [36]"
    by code_simp+
  have n: "36 \<notin> set (lit ''scrypt'')" "36 \<notin> set (lit ''32768'')" "36 \<notin> set (lit ''8'')" "36 \<notin> set (lit ''1'')" by code_simp+
  show ?thesis
    unfolding e append_assoc append_Cons append_Nil
    by (simp add: split_on_append n hex_no_dollar assms split_on_no_sep)
qed

text \<open>A stored password hash verifies the password it was made from, and verifies another one
  exactly when scrypt derives the same key from it with the stored salt.\<close>

theorem stored_secret_verifies:
  assumes "scrypt_derives C" "numerals_read C" "byte_string salt" "salt \<noteq> []"
  shows "\<exists>h. hashSecret C salt plaintext = Some h \<and> verifySecret C h plaintext \<and>
    (\<forall>other. verifySecret C h other \<longleftrightarrow> scrypt C other salt 32768 8 1 32 = scrypt C plaintext salt 32768 8 1 32)"
proof -
  obtain d where d: "scrypt C plaintext salt 32768 8 1 32 = Some d" "length d = 32" "byte_string d"
    using assms(1) by (auto simp: scrypt_derives_def)
  then have ne: "d \<noteq> []" by auto
  have v: "verifySecret C (lit ''scrypt$32768$8$1$'' @ to_hex salt @ lit ''$'' @ to_hex d) other \<longleftrightarrow>
      scrypt C other salt 32768 8 1 32 = Some d" for other
  proof -
    obtain d' where "scrypt C other salt 32768 8 1 32 = Some d'" "length d' = 32"
      using assms(1) by (meson scrypt_derives_def)
    then show ?thesis
      using assms d ne to_hex_lower
      by (simp add: verifySecret_def stored_secret_parts numerals_read_def of_hex_to_hex)
  qed
  show ?thesis
    using d v by (intro exI [of _ "lit ''scrypt$32768$8$1$'' @ to_hex salt @ lit ''$'' @ to_hex d"]) (simp add: hashSecret_def)
qed

definition sample_crypto :: id_crypto where
  "sample_crypto = \<lparr>scrypt = (\<lambda>pass salt N r p n. Some (replicate n ((sum_list pass + sum_list salt) mod 256))),
     hmac_sha1 = (\<lambda>k m. replicate 3 0 @ [(sum_list k + sum_list m) mod 100] @ replicate 16 0),
     id_gcm = \<lparr>gcm_seal = (\<lambda>k n m. (m, replicate 16 7)), gcm_open = (\<lambda>k n c t. if t = replicate 16 7 then Some c else None)\<rparr>,
     id_sha256 = (\<lambda>m. replicate 31 0 @ [sum_list m mod 256]),
     number_int = (\<lambda>s. if s \<noteq> [] \<and> list_all is_digit s then Some (int (nat_of_digits s)) else None)\<rparr>"

lemma sample_crypto_laws: "scrypt_derives sample_crypto" "numerals_read sample_crypto"
proof -
  show "scrypt_derives sample_crypto" by (auto simp: scrypt_derives_def sample_crypto_def byte_string_def)
  show "numerals_read sample_crypto" by code_simp
qed

theorem stored_secret_verifies_witness:
  "\<exists>h. hashSecret sample_crypto [1, 2] (lit ''pw'') = Some h \<and> verifySecret sample_crypto h (lit ''pw'') \<and>
     \<not> verifySecret sample_crypto h (lit ''px'')"
proof -
  have b: "byte_string [1, 2]" "[1, 2 :: nat] \<noteq> []" by (simp_all add: byte_string_def)
  have "scrypt sample_crypto (lit ''px'') [1, 2] 32768 8 1 32 \<noteq> scrypt sample_crypto (lit ''pw'') [1, 2] 32768 8 1 32"
    by code_simp
  with stored_secret_verifies [OF sample_crypto_laws b, of "lit ''pw''"] show ?thesis by metis
qed

section \<open>Base 32 is exact\<close>

text \<open>The reference: the bits of the bytes, most significant first, in groups of five, the last group
  filled with zeros.\<close>

definition byte_bits :: "nat \<Rightarrow> bool list" where
  "byte_bits b = map (bit b) [7, 6, 5, 4, 3, 2, 1, 0]"

fun bval :: "bool list \<Rightarrow> nat" where
  "bval [] = 0"
| "bval (x # xs) = of_bool x * 2 ^ length xs + bval xs"

fun base32_ref :: "bool list \<Rightarrow> ustr" where
  "base32_ref [] = []"
| "base32_ref (a # b # c # d # e # xs) = (BASE32_ALPHABET ! bval [a, b, c, d, e]) # base32_ref xs"
| "base32_ref xs = [BASE32_ALPHABET ! bval (take 5 (xs @ replicate 5 False))]"

definition low_bits :: "nat \<Rightarrow> 32 word \<Rightarrow> bool list" where
  "low_bits k w = map (bit w) (rev [0..<k])"

lemma low_bits_Suc: "low_bits (Suc k) w = bit w k # low_bits k w"
  by (simp add: low_bits_def)

lemma low_bits_0 [simp]: "low_bits 0 w = []"
  by (simp add: low_bits_def)

lemma bval_horner: "bval (xs @ [b]) = 2 * bval xs + of_bool b"
  by (induction xs) auto

lemma mod_double: "x mod (2 * m) = 2 * (x div 2 mod m) + of_bool (odd x)" for x :: nat
  by (metis mod_mult2_eq mod2_eq_if of_bool_def One_nat_def add.commute)

lemma bval_low_bits: "bval (map (\<lambda>i. odd (x div 2 ^ i)) (rev [0..<k])) = x mod 2 ^ k"
proof (induction k arbitrary: x)
  case (Suc k)
  have "rev [0..<Suc k] = map Suc (rev [0..<k]) @ [0]"
    by (simp add: upt_conv_Cons map_Suc_upt [symmetric] rev_map del: upt_Suc)
  then have "bval (map (\<lambda>i. odd (x div 2 ^ i)) (rev [0..<Suc k])) =
      2 * bval (map (\<lambda>i. odd (x div 2 div 2 ^ i)) (rev [0..<k])) + of_bool (odd x)"
    by (simp add: bval_horner comp_def div_mult2_eq del: upt_Suc)
  then show ?case using Suc.IH [of "x div 2"] by (simp add: mod_double)
qed simp

lemma group_value:
  "unat (drop_bit k w AND 31) = bval [bit w (k + 4), bit w (k + 3), bit w (k + 2), bit w (k + 1), bit w k]" for w :: "32 word"
proof -
  have m: "drop_bit k w AND 31 = take_bit 5 (drop_bit k w)" by (simp add: take_bit_eq_mask mask_eq_exp_minus_1)
  have b: "bit w (k + i) \<longleftrightarrow> odd (unat (drop_bit k w) div 2 ^ i)" for i
    by (simp add: bit_iff_odd [symmetric] bit_unsigned_iff bit_drop_bit_eq add.commute)
  have "unat (drop_bit k w AND 31) = unat (drop_bit k w) mod 2 ^ 5"
    unfolding m by (simp only: unsigned_take_bit_eq) (simp add: take_bit_eq_mod)
  also have "\<dots> = bval (map (\<lambda>i. bit w (k + i)) (rev [0..<5]))" unfolding b bval_low_bits ..
  also have "rev [0..<5] = [4, 3, 2, 1, 0 :: nat]" by code_simp
  finally show ?thesis by simp
qed

lemma low_bits_push:
  assumes "n \<le> 24" "byte < 256"
  shows "low_bits (n + 8) (push_bit 8 buf OR word_of_nat byte) = low_bits n buf @ byte_bits byte"
proof -
  have i: "bit (push_bit 8 buf OR word_of_nat byte :: 32 word) i \<longleftrightarrow> (if i < 8 then bit byte i else bit buf (i - 8))" if "i < 32" for i
  proof -
    have "\<not> bit byte i" if "8 \<le> i"
      using assms(2) that power_increasing [of 8 i "2 :: nat"] by (simp add: bit_iff_odd)
    moreover have w: "bit (word_of_nat byte :: 32 word) i \<longleftrightarrow> bit byte i"
      using that by transfer (simp add: bit_take_bit_iff bit_of_nat_iff_bit)
    ultimately show ?thesis using that w by (auto simp: bit_or_iff bit_push_bit_iff)
  qed
  have r: "rev [0..<n + 8] = map (\<lambda>i. i + 8) (rev [0..<n]) @ [7, 6, 5, 4, 3, 2, 1, 0]"
  proof -
    have "[0..<n + 8] = [0..<8] @ map (\<lambda>i. i + 8) [0..<n]"
      using upt_add_eq_append [of 0 8 n] by (simp add: map_add_upt add.commute)
    moreover have "[0..<8] = [0, 1, 2, 3, 4, 5, 6, 7 :: nat]" by code_simp
    ultimately show ?thesis by (simp add: rev_map)
  qed
  show ?thesis
    unfolding low_bits_def r byte_bits_def map_append map_map
    by (intro arg_cong2 [where f = append] map_cong) (use assms i in \<open>auto\<close>)
qed

lemma drain_exact:
  "base32_drain n buf = (out, b) \<Longrightarrow> b < 5 \<and> base32_ref (low_bits n buf @ rest) = out @ base32_ref (low_bits b buf @ rest)"
proof (induction n buf arbitrary: out b rule: base32_drain.induct)
  case (1 n buf)
  show ?case
  proof (cases "5 \<le> n")
    case True
    obtain out' where r: "base32_drain (n - 5) buf = (out', b)" "out = BASE32_ALPHABET ! unat (drop_bit (n - 5) buf AND 31) # out'"
      using "1.prems" True by (auto simp: base32_drain.simps [of n] split: prod.splits)
    define k where "k = n - 5"
    have n: "n = Suc (Suc (Suc (Suc (Suc k))))" using True by (simp add: k_def)
    have "low_bits n buf = bit buf (k + 4) # bit buf (k + 3) # bit buf (k + 2) # bit buf (k + 1) # bit buf k # low_bits k buf"
      by (simp add: n low_bits_Suc numeral_eq_Suc)
    then show ?thesis using "1.IH" [OF True r(1)] r(2) by (simp add: k_def [symmetric] group_value)
  next
    case False
    then show ?thesis using "1.prems" by (auto simp: base32_drain.simps [of n])
  qed
qed

lemma base32_tail:
  assumes "n < 5" "n \<noteq> 0"
  shows "base32_ref (low_bits n buf) = [BASE32_ALPHABET ! unat (push_bit (5 - n) buf AND 31)]"
proof -
  have g: "unat (push_bit m buf AND 31) = bval [bit (push_bit m buf) 4, bit (push_bit m buf) 3, bit (push_bit m buf) 2, bit (push_bit m buf) 1, bit (push_bit m buf) 0]" for m
    using group_value [of 0 "push_bit m buf"] by (simp only: drop_bit_0 id_apply add_0)
  have p: "bit (push_bit m buf) i \<longleftrightarrow> m \<le> i \<and> bit buf (i - m)" if "i < 5" for m i
    using that by (auto simp: bit_push_bit_iff)
  have "n = 1 \<or> n = 2 \<or> n = 3 \<or> n = 4" using assms by auto
  moreover have "low_bits 1 buf = [bit buf 0]" "low_bits 2 buf = [bit buf 1, bit buf 0]"
    "low_bits 3 buf = [bit buf 2, bit buf 1, bit buf 0]" "low_bits 4 buf = [bit buf 3, bit buf 2, bit buf 1, bit buf 0]"
    by (simp_all add: low_bits_def upt_rec numeral_eq_Suc)
  moreover have "replicate 4 False = [False, False, False, False]" "replicate 3 False = [False, False, False]" "replicate 2 False = [False, False]"
    by code_simp+
  moreover have "unat (push_bit m buf AND 31) = bval [m \<le> 4 \<and> bit buf (4 - m), m \<le> 3 \<and> bit buf (3 - m), m \<le> 2 \<and> bit buf (2 - m),
      m \<le> 1 \<and> bit buf (1 - m), m \<le> 0 \<and> bit buf (0 - m)]" for m
    unfolding g by (subst p, simp)+ (rule refl)
  moreover from this(1) [of 1] have g1: "unat (buf * 2 AND 31) = bval [bit buf 3, bit buf 2, bit buf 1, bit buf 0, False]"
    by (simp add: push_bit_eq_mult mult.commute del: bval.simps)
  ultimately show ?thesis
    by (elim disjE) (simp_all del: bval.simps push_bit_Suc push_bit_of_1 add: g1)
qed

lemma base32_loop_exact:
  "n < 5 \<Longrightarrow> byte_string bs \<Longrightarrow> base32_loop bs n buf = base32_ref (low_bits n buf @ concat (map byte_bits bs))"
proof (induction bs n buf rule: base32_loop.induct)
  case (1 n buf)
  then show ?case by (simp add: base32_tail)
next
  case (2 byte bs n buf)
  define buf' :: "32 word" where "buf' = push_bit 8 buf OR word_of_nat byte"
  obtain out b where d: "base32_drain (n + 8) buf' = (out, b)" by fastforce
  have bytes: "byte < 256" "byte_string bs" using "2.prems" by (auto simp: byte_string_def)
  from drain_exact [OF d] have b: "b < 5" by blast
  have "base32_loop bs b buf' = base32_ref (low_bits b buf' @ concat (map byte_bits bs))"
    using "2.IH" [OF buf'_def d [symmetric] b bytes(2)] by simp
  moreover have "low_bits (n + 8) buf' = low_bits n buf @ byte_bits byte"
    unfolding buf'_def using "2.prems" bytes by (intro low_bits_push) auto
  ultimately show ?case
    using d drain_exact [OF d, of "concat (map byte_bits bs)"] by (simp add: buf'_def [symmetric])
qed

text \<open>The shift-and-mask encoder writes the base 32 text of its bytes: reading the 32-bit buffer
  while old bits fall off its top gives the same digits as cutting the bit string in groups of five.\<close>

theorem encodeBase32_exact:
  "byte_string bs \<Longrightarrow> encodeBase32 bs = base32_ref (concat (map byte_bits bs))"
  unfolding encodeBase32_def by (simp add: base32_loop_exact)

theorem encodeBase32_exact_witness:
  "encodeBase32 [255, 0, 129, 7, 200, 33] = base32_ref (concat (map byte_bits [255, 0, 129, 7, 200, 33]))"
  by (rule encodeBase32_exact) (simp add: byte_string_def)

section \<open>One-time codes\<close>

text \<open>The truncated value keeps 31 bits, so the sign of the 32-bit result never shows.\<close>

lemma or_below: "x < 2 ^ n \<Longrightarrow> y < 2 ^ n \<Longrightarrow> x OR y < 2 ^ n" for x y :: nat
  by (metis take_bit_nat_eq_self_iff take_bit_or)

lemma mask_shift_below: "n + k \<le> 31 \<Longrightarrow> unat (push_bit k (w AND mask n) :: 32 word) < 2 ^ 31"
proof -
  assume a: "n + k \<le> 31"
  have "take_bit 31 (push_bit k (w AND mask n)) = (push_bit k (w AND mask n) :: 32 word)"
    using a by (intro bit_eqI) (auto simp: bit_take_bit_iff bit_push_bit_iff bit_and_iff bit_mask_iff)
  then have "unat (push_bit k (w AND mask n)) = take_bit 31 (unat (push_bit k (w AND mask n) :: 32 word))"
    by (metis unsigned_take_bit_eq)
  then show ?thesis by (metis take_bit_nat_less_exp)
qed

lemma truncation_31_bits: "unat (truncation hmac) < 2 ^ 31"
proof -
  have m: "(0x7f :: 32 word) = mask 7" "(0xff :: 32 word) = mask 8" by (simp_all add: mask_eq_exp_minus_1)
  show ?thesis
    unfolding truncation_def Let_def m unsigned_or_eq
    using mask_shift_below [of 7 24] mask_shift_below [of 8 16] mask_shift_below [of 8 8] mask_shift_below [of 8 0]
    by (intro or_below) (simp_all add: push_bit_0_id)
qed

lemma digits_of_nat_length: "n < 10 ^ k \<Longrightarrow> 0 < k \<Longrightarrow> length (digits_of_nat n) \<le> k"
proof (induction n arbitrary: k rule: digits_of_nat.induct)
  case (1 n)
  show ?case
  proof (cases "n < 10")
    case False
    then obtain j where j: "k = Suc j" "0 < j"
      using "1.prems" by (cases k; cases "k = 1") auto
    then have "n div 10 < 10 ^ j" using "1.prems"(1) by (simp add: less_mult_imp_div_less mult.commute)
    with "1.IH" [OF False _ j(2)] False j show ?thesis by (subst digits_of_nat.simps) simp
  qed (use "1.prems" in \<open>subst digits_of_nat.simps, simp\<close>)
qed

lemma totp_six_digits: "length (totpCodeAt C secret t) = 6 \<and> list_all is_digit (totpCodeAt C secret t)"
proof -
  have "length (digits_of_nat (n mod 10 ^ 6)) \<le> 6" for n by (rule digits_of_nat_length) simp_all
  then show ?thesis
    using digits_of_nat_digits by (auto simp: totpCodeAt_def padStart0_def TOTP_DIGITS_def TOTP_MOD_def list_all_iff is_digit_def)
qed

lemma totp_code_step: "totpCodeAt C secret (t + j * 30) = totpCodeAt C secret ((t div 30 + j) * 30)"
  by (simp add: totpCodeAt_def TOTP_STEP_SECONDS_def add.commute)

text \<open>A presented code is matched to a time step exactly when that step is the current one, the one
  before or the one after, the code is that step's code and no later step of the three has the same
  code; codes of another shape match nothing, since a code always has six digits.\<close>

lemma match_step_iff:
  "matchTotpStep C secret code t = Some step \<longleftrightarrow>
     \<bar>step - t div 30\<bar> \<le> 1 \<and> totpCodeAt C secret (step * 30) = code \<and>
     (\<forall>later. step < later \<and> later \<le> t div 30 + 1 \<longrightarrow> totpCodeAt C secret (later * 30) \<noteq> code)"
proof -
  define cur where "cur = t div 30"
  define hit where "hit s \<longleftrightarrow> totpCodeAt C secret (s * 30) = code" for s
  have shape: "hit s \<Longrightarrow> length code = 6 \<and> list_all is_digit code" for s
    using totp_six_digits by (auto simp: hit_def)
  have code: "totpCodeAt C secret (t + j * TOTP_STEP_SECONDS) = code \<longleftrightarrow> hit (cur + j)" for j
    unfolding TOTP_STEP_SECONDS_def hit_def cur_def totp_code_step ..
  have m: "matchTotpStep C secret code t = Some step \<longleftrightarrow>
      (if hit (cur + 1) then step = cur + 1 else if hit cur then step = cur else hit (cur - 1) \<and> step = cur - 1)"
    using shape by (auto simp: matchTotpStep_def code) (auto simp: cur_def TOTP_STEP_SECONDS_def)
  have "(\<bar>step - cur\<bar> \<le> 1 \<and> hit step \<and> (\<forall>later. step < later \<and> later \<le> cur + 1 \<longrightarrow> \<not> hit later)) \<longleftrightarrow>
      (if hit (cur + 1) then step = cur + 1 else if hit cur then step = cur else hit (cur - 1) \<and> step = cur - 1)" (is "?L = ?R")
  proof
    assume l: ?L
    then have "step = cur - 1 \<or> step = cur \<or> step = cur + 1" by auto
    then show ?R using l by (elim disjE) (auto dest: spec [of _ "cur + 1"] spec [of _ cur])
  next
    assume ?R
    have a: "l = cur + 1" if "cur < l \<and> l \<le> cur + 1" for l using that by arith
    have b: "l = cur \<or> l = cur + 1" if "cur - 1 < l \<and> l \<le> cur + 1" for l using that by arith
    consider "hit (cur + 1)" "step = cur + 1" | "\<not> hit (cur + 1)" "hit cur" "step = cur"
      | "\<not> hit (cur + 1)" "\<not> hit cur" "hit (cur - 1)" "step = cur - 1"
      using \<open>?R\<close> by (metis (full_types))
    then show ?L
    proof cases
      case 2
      then show ?thesis using a by (metis (no_types) abs_zero diff_self zero_le_one)
    next
      case 3
      then show ?thesis using b by (metis (no_types) abs_minus_cancel abs_one add_diff_cancel_left' diff_add_cancel minus_diff_eq order_refl)
    qed auto
  qed
  then show ?thesis unfolding m by (simp only: hit_def cur_def)
qed

section \<open>Revocation\<close>

text \<open>What the session store and the credential store promise alike: once revoked, a key stays
  revoked whatever is done to the store, and a revoked key resolves to nothing.\<close>

locale revocable_store =
  fixes exec :: "'s \<Rightarrow> 'op \<Rightarrow> 's" and revoked :: "'s \<Rightarrow> 'k \<Rightarrow> bool" and resolve :: "'s \<Rightarrow> 'k \<Rightarrow> int \<Rightarrow> 'r option"
  assumes revoked_kept: "revoked s k \<Longrightarrow> revoked (exec s p) k"
    and revoked_unresolved: "revoked s k \<Longrightarrow> resolve s k now = None"
begin

lemma run_revoked: "revoked s k \<Longrightarrow> revoked (foldl exec s ps) k"
  by (induction ps arbitrary: s) (auto dest: revoked_kept)

lemma never_again: "revoked s k \<Longrightarrow> resolve (foldl exec s ps) k now = None"
  by (intro revoked_unresolved run_revoked)

end

datatype session_op = S_issue issueSessionInput | S_touch ustr int | S_revoke ustr revocationReason | S_revoke_all ustr revocationReason

fun session_exec :: "session_store \<Rightarrow> session_op \<Rightarrow> session_store" where
  "session_exec S (S_issue input) = session_issue S input"
| "session_exec S (S_touch h now) = session_touch S h now"
| "session_exec S (S_revoke h reason) = session_revoke S h reason"
| "session_exec S (S_revoke_all acc reason) = session_revokeAllForAccount S acc reason"

definition no_sessions :: session_store where
  "no_sessions = \<lparr>sessions = [], revocations = [], lastActivity = []\<rparr>"

datatype credential_op = C_issue submissionCredential int | C_revoke ustr credentialRevocation

fun credential_exec :: "credential_store \<Rightarrow> credential_op \<Rightarrow> credential_store" where
  "credential_exec D (C_issue cred expires_at) =
     (case credential_issue D cred expires_at of Inr D' \<Rightarrow> D' | Inl _ \<Rightarrow> D)"
| "credential_exec D (C_revoke k reason) = credential_revoke D k reason"

definition no_credentials :: credential_store where
  "no_credentials = \<lparr>issued = [], c_revocations = []\<rparr>"

lemma revoke_all_fold:
  fixes acc reason
  defines "f \<equiv> \<lambda>S row. if s_account row = acc \<and> \<not> jm_has (revocations S) (session_handle row) then
      S\<lparr>revocations := jm_set (revocations S) (session_handle row) reason\<rparr> else S"
  shows "sessions (foldl f S rows) = sessions S \<and>
    (jm_has (revocations (foldl f S rows)) h \<longleftrightarrow> jm_has (revocations S) h \<or> (\<exists>row \<in> set rows. s_account row = acc \<and> session_handle row = h))"
proof (induction rows arbitrary: S)
  case (Cons row rows)
  have "sessions (f S row) = sessions S"
    "jm_has (revocations (f S row)) h \<longleftrightarrow> jm_has (revocations S) h \<or> s_account row = acc \<and> session_handle row = h"
    by (auto simp: f_def jm_has_def)
  with Cons.IH [of "f S row"] show ?case by auto
qed simp

lemma revoke_all [simp]:
  "sessions (session_revokeAllForAccount S acc reason) = sessions S"
  "jm_has (revocations (session_revokeAllForAccount S acc reason)) h \<longleftrightarrow>
     jm_has (revocations S) h \<or> (\<exists>row \<in> set (jm_values (sessions S)). s_account row = acc \<and> session_handle row = h)"
  by (simp_all only: session_revokeAllForAccount_def revoke_all_fold)

interpretation session_revocation: revocable_store session_exec "\<lambda>S. jm_has (revocations S)" session_resolve
proof
  show "jm_has (revocations S) k \<Longrightarrow> jm_has (revocations (session_exec S p)) k" for S k p
    by (cases p) (auto simp: session_issue_def session_touch_def session_revoke_def split: option.splits)
  show "jm_has (revocations S) k \<Longrightarrow> session_resolve S k now = None" for S k now
    by (simp add: session_resolve_def split: option.split)
qed

interpretation credential_revocation: revocable_store credential_exec "\<lambda>D. jm_has (c_revocations D)" credential_resolve
proof
  show "jm_has (c_revocations D) k \<Longrightarrow> jm_has (c_revocations (credential_exec D p)) k" for D k p
    by (cases p) (auto simp: credential_issue_def credential_revoke_def)
  show "jm_has (c_revocations D) k \<Longrightarrow> credential_resolve D k now = None" for D k now
    by (simp add: credential_resolve_def split: option.split)
qed

text \<open>Every session row is stored under its own handle.\<close>

definition rows_under_handle :: "session_store \<Rightarrow> bool" where
  "rows_under_handle S \<longleftrightarrow> (\<forall>h row. jm_get (sessions S) h = Some row \<longrightarrow> session_handle row = h)"

lemma rows_under_handle_exec: "rows_under_handle S \<Longrightarrow> rows_under_handle (session_exec S p)"
  by (cases p) (auto simp: rows_under_handle_def session_issue_def session_touch_def session_revoke_def split: option.splits if_splits)

lemma rows_under_handle_run: "rows_under_handle (foldl session_exec no_sessions ops)"
proof -
  have "rows_under_handle S \<Longrightarrow> rows_under_handle (foldl session_exec S ops)" for S
    by (induction ops arbitrary: S) (simp_all add: rows_under_handle_exec)
  moreover have "rows_under_handle no_sessions" by (simp add: rows_under_handle_def no_sessions_def)
  ultimately show ?thesis .
qed

text \<open>C23: revoking is final. In every state of the session store, once a handle is revoked, or all
  sessions of the account it belongs to are, no later sequence of operations (issuing the same handle
  again included) makes the handle resolve again.\<close>

theorem session_revocation_is_final:
  assumes "S = foldl session_exec no_sessions before"
  shows "session_resolve (foldl session_exec (session_revoke S h reason) after) h now = None \<and>
    (\<forall>t row. session_resolve S h t = Some row \<longrightarrow>
       session_resolve (foldl session_exec (session_revokeAllForAccount S (s_account row) reason) after) h now = None)"
proof -
  have "session_resolve (foldl session_exec (session_revokeAllForAccount S (s_account row) reason) after) h now = None"
    if "session_resolve S h t = Some row" for t row
  proof -
    have "jm_get (sessions S) h = Some row"
      using that by (auto simp: session_resolve_def Let_def split: option.splits if_splits)
    moreover from this have "session_handle row = h"
      using rows_under_handle_run [of before] assms by (simp add: rows_under_handle_def)
    ultimately have "jm_has (revocations (session_revokeAllForAccount S (s_account row) reason)) h"
      by (simp add: jm_values_def) (metis map_of_SomeD snd_conv)
    then show ?thesis by (rule session_revocation.never_again)
  qed
  moreover have "jm_has (revocations (session_revoke S h reason)) h" by (simp add: session_revoke_def)
  ultimately show ?thesis using session_revocation.never_again by blast
qed

text \<open>Two sessions of one account, the first revoked by the account-wide revocation.\<close>

definition sample_session :: "string \<Rightarrow> issueSessionInput" where
  "sample_session h = \<lparr>session_handle = lit h, s_account = lit ''a1'', issued_at = 1000, absolute_expires_at = 50000, second_factor_state = Satisfied\<rparr>"

theorem session_revocation_is_final_witness:
  "session_resolve (foldl session_exec no_sessions [S_issue (sample_session ''h1'')]) (lit ''h1'') 2000 = Some (sample_session ''h1'') \<and>
   session_resolve (foldl session_exec (session_revokeAllForAccount (foldl session_exec no_sessions [S_issue (sample_session ''h1'')]) (lit ''a1'') Operator_revoked)
      [S_issue (sample_session ''h1'')]) (lit ''h1'') 2000 = None"
proof -
  have r: "session_resolve (foldl session_exec no_sessions [S_issue (sample_session ''h1'')]) (lit ''h1'') 2000 = Some (sample_session ''h1'')"
    by code_simp
  have a: "s_account (sample_session ''h1'') = lit ''a1''" by (simp add: sample_session_def)
  from session_revocation_is_final [OF refl, of "[S_issue (sample_session ''h1'')]" "lit ''h1''"] r show ?thesis by (metis a)
qed

text \<open>The credentials that exist are never overwritten, and only existing ones are revoked.\<close>

definition revoked_exist :: "credential_store \<Rightarrow> bool" where
  "revoked_exist D \<longleftrightarrow> (\<forall>k. jm_has (c_revocations D) k \<longrightarrow> jm_has (issued D) k)"

lemma revoked_exist_run: "revoked_exist (foldl credential_exec no_credentials ops)"
proof -
  have "revoked_exist D \<Longrightarrow> revoked_exist (credential_exec D p)" for D p
    by (cases p) (auto simp: revoked_exist_def credential_issue_def credential_revoke_def jm_has_def)
  then have "revoked_exist D \<Longrightarrow> revoked_exist (foldl credential_exec D ops)" for D
    by (induction ops arbitrary: D) simp_all
  moreover have "revoked_exist no_credentials" by (simp add: revoked_exist_def no_credentials_def jm_has_def)
  ultimately show ?thesis .
qed

lemma credential_run:
  "jm_get (issued D) k = Some row \<Longrightarrow>
     jm_get (issued (foldl credential_exec D ops)) k = Some row \<and>
     (jm_has (c_revocations (foldl credential_exec D ops)) k \<longleftrightarrow> jm_has (c_revocations D) k \<or> (\<exists>r. C_revoke k r \<in> set ops))"
proof (induction ops arbitrary: D)
  case (Cons p ops)
  note exec = credential_issue_def credential_revoke_def jm_has_def
  have "jm_get (issued (credential_exec D p)) k = Some row"
    using Cons.prems by (cases p; cases row) (auto simp: exec)
  moreover have "jm_has (c_revocations (credential_exec D p)) k \<longleftrightarrow> jm_has (c_revocations D) k \<or> (\<exists>r. p = C_revoke k r)"
    using Cons.prems by (cases p; cases row) (auto simp: exec)
  moreover from calculation(1) have "jm_get (issued (foldl credential_exec (credential_exec D p) ops)) k = Some row"
    "jm_has (c_revocations (foldl credential_exec (credential_exec D p) ops)) k \<longleftrightarrow>
       jm_has (c_revocations (credential_exec D p)) k \<or> (\<exists>r. C_revoke k r \<in> set ops)"
    using Cons.IH by blast+
  ultimately show ?case by (simp del: credential_exec.simps) blast
qed simp

text \<open>C37: an issued submission credential keeps its binding. From the moment it is issued, looking its
  key up gives exactly the credential that was issued, whatever else happens to the store, as long as
  it has not expired and has not been revoked, and nothing otherwise.\<close>

theorem credential_resolves_exactly:
  assumes "credential_issue (foldl credential_exec no_credentials before) cred expires_at = Inr D"
  shows "credential_resolve (foldl credential_exec D after) (token_key_id cred) now =
    (if now < expires_at \<and> (\<forall>r. C_revoke (token_key_id cred) r \<notin> set after) then Some cred else None)"
proof -
  have g: "jm_get (issued D) (token_key_id cred) = Some (cred, expires_at)" "\<not> jm_has (c_revocations D) (token_key_id cred)"
    using assms revoked_exist_run [of before] by (auto simp: credential_issue_def revoked_exist_def jm_has_def split: if_splits)
  from credential_run [OF g(1), of after] g(2) show ?thesis by (auto simp: credential_resolve_def)
qed

definition sample_credential :: submissionCredential where
  "sample_credential = \<lparr>token_key_id = lit ''k1'', c_review_id = lit ''r1'', c_tenant_id = lit ''t1'', customer_id = lit ''c1'',
     selected_application_id = lit ''app'', selected_commit = lit ''abc'', repository_identity_hash = lit ''sha256:0'',
     expected_manifest_id = lit ''m1'', expected_evidence_bundle_id = None, c_secret_hash = lit ''x''\<rparr>"

theorem credential_resolves_exactly_witness:
  "\<exists>D. credential_issue (foldl credential_exec no_credentials []) sample_credential 100 = Inr D \<and>
     credential_resolve (foldl credential_exec D [C_revoke (lit ''k2'') Cred_rotated]) (lit ''k1'') 50 = Some sample_credential"
proof -
  obtain D where D: "credential_issue (foldl credential_exec no_credentials []) sample_credential 100 = Inr D"
    by (auto simp: credential_issue_def no_credentials_def jm_has_def)
  have "lit ''k2'' \<noteq> lit ''k1''" "token_key_id sample_credential = lit ''k1''" by code_simp+
  with D credential_resolves_exactly [OF D, of "[C_revoke (lit ''k2'') Cred_rotated]" 50] show ?thesis by auto
qed

end
