(* ===== verification/Host_Auth.thy ===== *)
theory Host_Auth
  imports Identity_Store Lifecycle_Log Claim_Safety
begin

text \<open>
  Who a request comes from (\<^verbatim>\<open>services/host/src\<close>: \<^verbatim>\<open>client-network.ts\<close>, \<^verbatim>\<open>auth/cookie.ts\<close>,
  \<^verbatim>\<open>auth/resolve-actor.ts\<close>, \<^verbatim>\<open>auth/require-evidence-access.ts\<close>, \<^verbatim>\<open>routes/auth.ts\<close>): the session
  cookie, the login throttle key, the login, second-factor, logout and session routes over the account,
  session and throttle stores, and the gate every evidence read passes.

  The random bytes of a minted token and the clock readings are arguments: \<open>now\<close> is the instant the
  handler reads and \<open>recorded\<close> the one the throttle reads for the attempt it stores. A handler that
  throws answers \<open>Thrown\<close>.
\<close>

section \<open>Environment\<close>

text \<open>\<open>net_isIPv6\<close> is \<^verbatim>\<open>isIPv6\<close> of \<^verbatim>\<open>node:net\<close>; \<open>dummy_hash\<close> is the hash made when the module loads.\<close>

record auth_env =
  crypto :: id_crypto
  totp_key :: bytes
  cookie_secure :: bool
  dummy_hash :: ustr
  text_fns :: text_platform
  net_isIPv6 :: "ustr \<Rightarrow> bool"

section \<open>The network of a client\<close>

fun split_dcolon :: "ustr \<Rightarrow> ustr list" where
  "split_dcolon (x # y # s) =
     (if x = 58 \<and> y = 58 then [] # split_dcolon s
      else (case split_dcolon (y # s) of [] \<Rightarrow> [[x]] | w # ws \<Rightarrow> (x # w) # ws))"
| "split_dcolon s = [s]"

definition hextets :: "ustr \<Rightarrow> ustr list" where
  "hextets part =
     (if part = [] then []
      else concat (map (\<lambda>grp. if 46 \<in> set grp then [lit ''0'', lit ''0''] else [grp]) (split_on 58 part)))"

text \<open>\<^verbatim>\<open>Number.parseInt(s, 16)\<close>, \<open>None\<close> for \<^verbatim>\<open>NaN\<close>, and \<^verbatim>\<open>toString(16)\<close>, on numbers that are exact.\<close>

definition parse_hex :: "ustr \<Rightarrow> int option" where
  "parse_hex text =
     (let s = trim_start text;
          negative = (case s of c # _ \<Rightarrow> c = 45 | [] \<Rightarrow> False);
          s = (case s of c # r \<Rightarrow> if c = 45 \<or> c = 43 then r else s | [] \<Rightarrow> s);
          s = (case s of a # b # r \<Rightarrow> if a = 48 \<and> (b = 120 \<or> b = 88) then r else s | _ \<Rightarrow> s);
          ds = takeWhile is_lower_hex (map ascii_lower s);
          n = int (foldl (\<lambda>n d. 16 * n + hex_value d) 0 ds) in
      if ds = [] then None else Some (if negative then - n else n))"

fun hex_of_nat :: "nat \<Rightarrow> ustr" where
  "hex_of_nat n = (if n < 16 then [hex_digit n] else hex_of_nat (n div 16) @ [hex_digit (n mod 16)])"

declare hex_of_nat.simps [simp del]

definition hex_text :: "int option \<Rightarrow> ustr" where
  "hex_text v =
     (case v of None \<Rightarrow> lit ''NaN'' | Some i \<Rightarrow> if i < 0 then 45 # hex_of_nat (nat (- i)) else hex_of_nat (nat i))"

text \<open>\<open>None\<close>: building the run of zero groups throws a \<^verbatim>\<open>RangeError\<close>.\<close>

definition clientNetworkKey :: "auth_env \<Rightarrow> ustr \<Rightarrow> ustr option" where
  "clientNetworkKey E ip =
     (case rx_groups fl_iu (re ''^::ffff:(~d{1,3}(?:~.~d{1,3}){3})$'') ip of
        Some g \<Rightarrow> Some (g 1)
      | None \<Rightarrow>
          if \<not> net_isIPv6 E ip then Some ip
          else
            (let address = takeWhile (\<lambda>c. c \<noteq> 37) ip;
                 pieces = split_dcolon address;
                 headGroups = hextets (hd pieces);
                 tailGroups = (if length pieces < 2 then [] else hextets (pieces ! 1));
                 finish = (\<lambda>groups. join_with (lit '':'') (map (\<lambda>grp. hex_text (parse_hex grp)) (take 4 groups)) @ lit ''::/64'') in
             if length pieces < 2 then Some (finish headGroups)
             else if 8 < length headGroups + length tailGroups then None
             else Some (finish (headGroups @ replicate (8 - length headGroups - length tailGroups) (lit ''0'') @ tailGroups))))"

section \<open>The session cookie\<close>

definition SESSION_COOKIE_NAME :: ustr where "SESSION_COOKIE_NAME = lit ''__Host-codeattest_session''"
definition SESSION_COOKIE_NAME_INSECURE :: ustr where "SESSION_COOKIE_NAME_INSECURE = lit ''codeattest_session_insecure_local''"

definition cookieName :: "bool \<Rightarrow> ustr" where
  "cookieName secure = (if secure then SESSION_COOKIE_NAME else SESSION_COOKIE_NAME_INSECURE)"

definition serializeSessionCookie :: "ustr \<Rightarrow> bool \<Rightarrow> int \<Rightarrow> ustr" where
  "serializeSessionCookie token secure maxAgeSeconds =
     join_with (lit ''; '')
       ([cookieName secure @ lit ''='' @ token, lit ''Path=/'', lit ''HttpOnly''] @
        (if secure then [lit ''Secure''] else []) @
        [lit ''SameSite=Strict'', lit ''Max-Age='' @ int_text maxAgeSeconds])"

fun cookie_loop :: "ustr \<Rightarrow> ustr list \<Rightarrow> ustr option" where
  "cookie_loop expected [] = None"
| "cookie_loop expected (part # parts) =
     (let pair = trim part; name = takeWhile (\<lambda>c. c \<noteq> 61) pair in
      if 61 \<notin> set pair \<or> name = [] then cookie_loop expected parts
      else if name \<noteq> expected then cookie_loop expected parts
      else (let value = drop (length name + 1) pair in if value = [] then None else Some value))"

definition readSessionCookie :: "ustr option \<Rightarrow> bool \<Rightarrow> ustr option" where
  "readSessionCookie header secure =
     (case header of
        None \<Rightarrow> None
      | Some h \<Rightarrow> if h = [] then None else cookie_loop (cookieName secure) (split_on 59 h))"

section \<open>The state and the requests\<close>

record auth_state =
  accounts :: account_store
  session_rows :: session_store
  throttle :: attempt_log

record auth_request =
  body :: jsval
  cookie_header :: "ustr option"
  ip :: ustr

datatype auth_body = Error_envelope string | Second_factor_required | No_body | Session_body ustr ustr "role list"

datatype auth_reply = Reply nat auth_body "ustr option" | Thrown

definition SESSION_COOKIE_MAX_AGE_SECONDS :: int where
  "SESSION_COOKIE_MAX_AGE_SECONDS = SESSION_ABSOLUTE_LIFETIME_MS div 1000"

definition throttleKeyFor :: "auth_env \<Rightarrow> ustr \<Rightarrow> ustr \<Rightarrow> ustr option" where
  "throttleKeyFor E name client =
     map_option (\<lambda>net. to_hex (id_sha256 (crypto E) (utf8 name @ utf8 [0] @ utf8 net))) (clientNetworkKey E client)"

definition isNonEmptyString :: "jsval \<Rightarrow> bool" where
  "isNonEmptyString v \<longleftrightarrow> is_string v \<and> the_str v \<noteq> []"

definition isLoginBody :: "jsval \<Rightarrow> bool" where
  "isLoginBody b \<longleftrightarrow> is_record b \<and> isNonEmptyString (field b ''identifier'') \<and> isNonEmptyString (field b ''secret'')"

definition isSecondFactorBody :: "jsval \<Rightarrow> bool" where
  "isSecondFactorBody b \<longleftrightarrow> is_record b \<and> is_string (field b ''code'')"

definition presentedToken :: "auth_env \<Rightarrow> auth_request \<Rightarrow> ustr option" where
  "presentedToken E req = readSessionCookie (cookie_header req) (cookie_secure E)"

definition requestInvalid :: auth_reply where
  "requestInvalid = Reply 400 (Error_envelope ''auth_request_invalid'') None"

definition credentialsInvalid :: auth_reply where
  "credentialsInvalid = Reply 401 (Error_envelope ''auth_credentials_invalid'') None"

text \<open>\<^verbatim>\<open>toString("base64url")\<close>: groups of six bits, no padding.\<close>

definition BASE64URL :: ustr where
  "BASE64URL = lit ''ABCDEFGHIJKLMNOPQRSTUVWXYZabcdefghijklmnopqrstuvwxyz0123456789-_''"

fun base64_bits :: "bool list \<Rightarrow> ustr" where
  "base64_bits [] = []"
| "base64_bits (a # b # c # d # e # f # xs) = (BASE64URL ! bval [a, b, c, d, e, f]) # base64_bits xs"
| "base64_bits xs = [BASE64URL ! bval (take 6 (xs @ replicate 6 False))]"

definition mintSessionToken :: "id_crypto \<Rightarrow> bytes \<Rightarrow> ustr \<times> ustr" where
  "mintSessionToken C random =
     (let token = base64_bits (concat (map byte_bits random)) in (token, sessionHandleFor C token))"

definition attachSessionCookie ::
    "auth_env \<Rightarrow> auth_state \<Rightarrow> bytes \<Rightarrow> ustr \<Rightarrow> secondFactorState \<Rightarrow> int \<Rightarrow> auth_state \<times> ustr option" where
  "attachSessionCookie E st random accountId state now =
     (case mintSessionToken (crypto E) random of
        (token, handle) \<Rightarrow>
          (st\<lparr>session_rows := session_issue (session_rows st)
               \<lparr>session_handle = handle, s_account = accountId, issued_at = now,
                absolute_expires_at = now + SESSION_ABSOLUTE_LIFETIME_MS, second_factor_state = state\<rparr>\<rparr>,
           Some (serializeSessionCookie token (cookie_secure E) SESSION_COOKIE_MAX_AGE_SECONDS)))"

definition clearSessionCookie :: "auth_env \<Rightarrow> ustr option" where
  "clearSessionCookie E = Some (serializeSessionCookie [] (cookie_secure E) 0)"

section \<open>The routes\<close>

definition throttle_note :: "auth_state \<Rightarrow> ustr \<Rightarrow> loginOutcome \<Rightarrow> int \<Rightarrow> auth_state" where
  "throttle_note st key oc recorded = st\<lparr>throttle := throttle_record (throttle st) key oc recorded\<rparr>"

definition login :: "auth_env \<Rightarrow> auth_state \<Rightarrow> auth_request \<Rightarrow> int \<Rightarrow> int \<Rightarrow> bytes \<Rightarrow> auth_state \<times> auth_reply" where
  "login E st req now recorded random =
     (if \<not> isLoginBody (body req) then (st, requestInvalid)
      else
        (let name = toLowerCase (text_fns E) (the_str (field (body req) ''identifier'')) in
         case throttleKeyFor E name (ip req) of
           None \<Rightarrow> (st, Thrown)
         | Some key \<Rightarrow>
             if throttle_locked (throttle st) key now then (throttle_note st key Failed recorded, credentialsInvalid)
             else
               (let account = findByIdentifier (accounts st) name;
                    secretOk = verifySecret (crypto E) (case account of Some a \<Rightarrow> secret_hash a | None \<Rightarrow> dummy_hash E)
                                 (the_str (field (body req) ''secret'')) in
                case account of
                  None \<Rightarrow> (throttle_note st key Failed recorded, credentialsInvalid)
                | Some a \<Rightarrow>
                    if \<not> secretOk then (throttle_note st key Failed recorded, credentialsInvalid)
                    else
                      (let st = throttle_note st key Succeeded recorded;
                           totpEnrolled = totp_secret_box a \<noteq> None in
                       case attachSessionCookie E st random (account_id a) (if totpEnrolled then Pending else Not_required) now of
                         (st, cookie) \<Rightarrow>
                           if totpEnrolled then (st, Reply 202 Second_factor_required cookie)
                           else (st, Reply 204 No_body cookie)))))"

text \<open>The code check of the second factor: the step the code matches, claimed for the account.\<close>

definition claim_code :: "auth_env \<Rightarrow> auth_state \<Rightarrow> accountRecord \<Rightarrow> ustr \<Rightarrow> ustr \<Rightarrow> int \<Rightarrow> auth_state \<times> bool" where
  "claim_code E st a box code now =
     (case openTotpSecret (crypto E) box (totp_key E) of
        None \<Rightarrow> (st, False)
      | Some secret \<Rightarrow>
          (case matchTotpStep (crypto E) secret code (now div 1000) of
             None \<Rightarrow> (st, False)
           | Some step \<Rightarrow>
               (case claimTotpStep (accounts st) (account_id a) step of
                  (accs, claimed) \<Rightarrow> (st\<lparr>accounts := accs\<rparr>, claimed))))"

definition second_factor :: "auth_env \<Rightarrow> auth_state \<Rightarrow> auth_request \<Rightarrow> int \<Rightarrow> int \<Rightarrow> bytes \<Rightarrow> auth_state \<times> auth_reply" where
  "second_factor E st req now recorded random =
     (if \<not> isSecondFactorBody (body req) then (st, requestInvalid)
      else
        (case presentedToken E req of
           None \<Rightarrow> (st, credentialsInvalid)
         | Some token \<Rightarrow>
             (case session_resolve (session_rows st) (sessionHandleFor (crypto E) token) now of
                None \<Rightarrow> (st, credentialsInvalid)
              | Some pending \<Rightarrow>
                  if second_factor_state pending \<noteq> Pending then (st, credentialsInvalid)
                  else
                    (case findById (accounts st) (s_account pending) of
                       None \<Rightarrow> (st, credentialsInvalid)
                     | Some a \<Rightarrow>
                         (case totp_secret_box a of
                            None \<Rightarrow> (st, credentialsInvalid)
                          | Some box \<Rightarrow>
                              (case throttleKeyFor E (login_identifier a) (ip req) of
                                 None \<Rightarrow> (st, Thrown)
                               | Some key \<Rightarrow>
                                   if throttle_locked (throttle st) key now then
                                     (throttle_note st key Failed recorded, credentialsInvalid)
                                   else
                                     (case claim_code E st a box (the_str (field (body req) ''code'')) now of
                                        (st, codeOk) \<Rightarrow>
                                          if \<not> codeOk then (throttle_note st key Failed recorded, credentialsInvalid)
                                          else
                                            (case attachSessionCookie E (throttle_note st key Succeeded recorded) random
                                                    (account_id a) Satisfied now of
                                               (st, cookie) \<Rightarrow>
                                                 (st\<lparr>session_rows := session_revoke (session_rows st) (session_handle pending) Rotated\<rparr>,
                                                  Reply 204 No_body cookie)))))))))"

definition logout :: "auth_env \<Rightarrow> auth_state \<Rightarrow> auth_request \<Rightarrow> auth_state \<times> auth_reply" where
  "logout E st req =
     (case presentedToken E req of
        None \<Rightarrow> (st, Reply 204 No_body (clearSessionCookie E))
      | Some token \<Rightarrow>
          (st\<lparr>session_rows := session_revoke (session_rows st) (sessionHandleFor (crypto E) token) Logout\<rparr>,
           Reply 204 No_body (clearSessionCookie E)))"

definition distinct_roles :: "roleGrant list \<Rightarrow> role list" where
  "distinct_roles grants = foldl (\<lambda>roles g. if g_role g \<in> set roles then roles else roles @ [g_role g]) [] grants"

definition session_info :: "auth_env \<Rightarrow> auth_state \<Rightarrow> auth_request \<Rightarrow> int \<Rightarrow> auth_state \<times> auth_reply" where
  "session_info E st req now =
     (case presentedToken E req of
        None \<Rightarrow> (st, credentialsInvalid)
      | Some token \<Rightarrow>
          (case session_resolve (session_rows st) (sessionHandleFor (crypto E) token) now of
             None \<Rightarrow> (st, credentialsInvalid)
           | Some session \<Rightarrow>
               if second_factor_state session \<noteq> Not_required \<and> second_factor_state session \<noteq> Satisfied then (st, credentialsInvalid)
               else
                 (case findById (accounts st) (s_account session) of
                    None \<Rightarrow> (st, credentialsInvalid)
                  | Some a \<Rightarrow>
                      (st\<lparr>session_rows := session_touch (session_rows st) (session_handle session) now\<rparr>,
                       Reply 200 (Session_body (account_id a) (tenant_id a) (distinct_roles (grantsFor (accounts st) (account_id a)))) None))))"

section \<open>The actor of a request\<close>

record authenticatedActor =
  a_account :: ustr
  a_tenant :: ustr
  a_actor_type :: id_actor_type
  a_actor_id :: ustr
  a_grants :: "roleGrant list"

definition actorFor :: "ustr \<Rightarrow> ustr \<Rightarrow> roleGrant list \<Rightarrow> authenticatedActor" where
  "actorFor accountId tenantId grants =
     \<lparr>a_account = accountId, a_tenant = tenantId,
      a_actor_type = (case grants of [] \<Rightarrow> Customer_user | g # _ \<Rightarrow> actorTypeForRole (g_role g)),
      a_actor_id = accountId, a_grants = grants\<rparr>"

text \<open>The \<^verbatim>\<open>preHandler\<close> hook: \<open>request.actor\<close> and \<open>request.secondFactorSatisfied\<close>.\<close>

definition resolve_actor ::
    "auth_env \<Rightarrow> auth_state \<Rightarrow> auth_request \<Rightarrow> int \<Rightarrow> auth_state \<times> authenticatedActor option \<times> bool" where
  "resolve_actor E st req now =
     (case presentedToken E req of
        None \<Rightarrow> (st, None, False)
      | Some token \<Rightarrow>
          (case session_resolve (session_rows st) (sessionHandleFor (crypto E) token) now of
             None \<Rightarrow> (st, None, False)
           | Some session \<Rightarrow>
               if second_factor_state session = Pending then (st, None, False)
               else
                 (case findById (accounts st) (s_account session) of
                    None \<Rightarrow> (st, None, False)
                  | Some a \<Rightarrow>
                      (st\<lparr>session_rows := session_touch (session_rows st) (session_handle session) now\<rparr>,
                       Some (actorFor (account_id a) (tenant_id a) (grantsFor (accounts st) (account_id a))),
                       second_factor_state session = Satisfied))))"

section \<open>The gate of an evidence read\<close>

record artifactScope =
  artifact_ref :: ustr
  art_tenant :: ustr
  art_review_scope :: ustr
  source_derived_class :: ustr

datatype evidenceAccess = Denied_unauthenticated | Denied accessDenial | Allowed jsval | Access_threw

definition evidenceIdempotencyKeyFor :: "authenticatedActor \<Rightarrow> artifactScope \<Rightarrow> ustr \<Rightarrow> ustr" where
  "evidenceIdempotencyKeyFor actor artifact idempotencyScope =
     lit ''evidence_accessed:'' @ a_account actor @ lit '':'' @ artifact_ref artifact @ lit '':'' @ idempotencyScope"

definition evidenceEventIdFor :: "auth_env \<Rightarrow> authenticatedActor \<Rightarrow> artifactScope \<Rightarrow> ustr \<Rightarrow> ustr" where
  "evidenceEventIdFor E actor artifact idempotencyScope =
     lit ''evidence_event:'' @
     take 32 (to_hex (id_sha256 (crypto E) (utf8 (evidenceIdempotencyKeyFor actor artifact idempotencyScope))))"

definition role_text :: "role \<Rightarrow> string" where
  "role_text r =
     (case r of Customer_admin \<Rightarrow> ''customer_admin'' | Customer_viewer \<Rightarrow> ''customer_viewer''
      | Codeattest_reviewer \<Rightarrow> ''codeattest_reviewer'' | Codeattest_ops \<Rightarrow> ''codeattest_ops''
      | Evidence_consumer_static \<Rightarrow> ''evidence_consumer_static'')"

definition actor_type_text :: "id_actor_type \<Rightarrow> string" where
  "actor_type_text t =
     (case t of Customer_user \<Rightarrow> ''customer_user'' | Reviewer \<Rightarrow> ''reviewer'' | Vendor_service \<Rightarrow> ''vendor_service''
      | Local_runner \<Rightarrow> ''local_runner'')"

definition access_request ::
    "auth_env \<Rightarrow> authenticatedActor \<Rightarrow> roleGrant \<Rightarrow> artifactScope \<Rightarrow> ustr \<Rightarrow> ustr \<Rightarrow> jsval \<Rightarrow> jsval" where
  "access_request E actor grant artifact purpose idempotencyScope timestamp =
     JObj [(lit ''actor'', JObj [(lit ''actor_type'', jstr (actor_type_text (actorTypeForRole (g_role grant)))),
                                (lit ''actor_id'', JStr (a_actor_id actor))]),
           (lit ''role'', jstr (role_text (g_role grant))),
           (lit ''tenant_id'', JStr (a_tenant actor)),
           (lit ''review_scope'', JStr (art_review_scope artifact)),
           (lit ''artifact'', JObj [(lit ''artifact_ref'', JStr (artifact_ref artifact)), (lit ''tenant_id'', JStr (art_tenant artifact)),
                                   (lit ''review_scope'', JStr (art_review_scope artifact)),
                                   (lit ''source_derived_class'', JStr (source_derived_class artifact))]),
           (lit ''event_id'', JStr (evidenceEventIdFor E actor artifact idempotencyScope)),
           (lit ''idempotency_key'', JStr (evidenceIdempotencyKeyFor actor artifact idempotencyScope)),
           (lit ''event_timestamp'', timestamp),
           (lit ''purpose'', JStr purpose)]"

text \<open>\<open>events\<close> is what the lifecycle log returned for the review of the artifact.\<close>

definition requireEvidenceAccess ::
    "auth_env \<Rightarrow> ('a control_env_scheme) \<Rightarrow> authenticatedActor option \<Rightarrow> jsval list \<Rightarrow> ustr \<Rightarrow> artifactScope \<Rightarrow> ustr \<Rightarrow> ustr \<Rightarrow> evidenceAccess" where
  "requireEvidenceAccess E F actor_opt events server_now artifact purpose idempotencyScope =
     (case actor_opt of
        None \<Rightarrow> Denied_unauthenticated
      | Some actor \<Rightarrow>
          (case selectGrant (a_grants actor) (art_review_scope artifact) of
             None \<Rightarrow> Denied Access_denied_out_of_scope
           | Some grant \<Rightarrow>
               (let key = evidenceIdempotencyKeyFor actor artifact idempotencyScope;
                    recorded = find_first (\<lambda>x. field x ''idempotency_key'' = JStr key) events;
                    timestamp = (case recorded of
                        None \<Rightarrow> JStr server_now
                      | Some x \<Rightarrow> if field x ''event_timestamp'' \<in> {JUndef, JNull} then JStr server_now else field x ''event_timestamp'') in
                case enforceScopedAccess F (JArr events) (access_request E actor grant artifact purpose idempotencyScope timestamp) of
                  Inl _ \<Rightarrow> Access_threw
                | Inr (Access_denied reason _) \<Rightarrow> Denied reason
                | Inr (Access_allowed event _) \<Rightarrow> Allowed event)))"

section \<open>Runs of the authentication routes\<close>

datatype auth_op = Login auth_request int int bytes | Second_factor auth_request int int bytes | Log_out auth_request
  | Session_query auth_request int | Pre_handler auth_request int

fun auth_next :: "auth_env \<Rightarrow> auth_state \<Rightarrow> auth_op \<Rightarrow> auth_state" where
  "auth_next E st (Login req now recorded random) = fst (login E st req now recorded random)"
| "auth_next E st (Second_factor req now recorded random) = fst (second_factor E st req now recorded random)"
| "auth_next E st (Log_out req) = fst (logout E st req)"
| "auth_next E st (Session_query req now) = fst (session_info E st req now)"
| "auth_next E st (Pre_handler req now) = fst (resolve_actor E st req now)"

definition auth_start :: "account_store \<Rightarrow> auth_state" where
  "auth_start A = \<lparr>accounts = A, session_rows = no_sessions, throttle = []\<rparr>"

inductive auth_reach :: "auth_env \<Rightarrow> account_store \<Rightarrow> auth_op list \<Rightarrow> auth_state \<Rightarrow> bool" for E A where
  start: "auth_reach E A [] (auth_start A)"
| step: "auth_reach E A ops st \<Longrightarrow> auth_reach E A (ops @ [p]) (auth_next E st p)"

text \<open>What opens a session: a password login of an existing account, or a second factor whose code
  matches a step not claimed before.\<close>

definition session_row :: "auth_env \<Rightarrow> bytes \<Rightarrow> ustr \<Rightarrow> secondFactorState \<Rightarrow> int \<Rightarrow> issueSessionInput" where
  "session_row E random acc state now =
     \<lparr>session_handle = snd (mintSessionToken (crypto E) random), s_account = acc, issued_at = now,
      absolute_expires_at = now + SESSION_ABSOLUTE_LIFETIME_MS, second_factor_state = state\<rparr>"

lemma attach_eq:
  "attachSessionCookie E st random acc state now =
     (st\<lparr>session_rows := session_issue (session_rows st) (session_row E random acc state now)\<rparr>,
      Some (serializeSessionCookie (fst (mintSessionToken (crypto E) random)) (cookie_secure E) SESSION_COOKIE_MAX_AGE_SECONDS))"
  by (simp add: attachSessionCookie_def session_row_def case_prod_beta)

definition password_shown :: "auth_env \<Rightarrow> account_store \<Rightarrow> accountRecord \<Rightarrow> auth_op \<Rightarrow> bool" where
  "password_shown E A a p =
     (case p of
        Login req now recorded random \<Rightarrow>
          findByIdentifier A (toLowerCase (text_fns E) (the_str (field (body req) ''identifier''))) = Some a \<and>
          verifySecret (crypto E) (secret_hash a) (the_str (field (body req) ''secret''))
      | _ \<Rightarrow> False)"

text \<open>\<open>code_step E a p\<close>: the step of the one-time code in request \<open>p\<close>, under the secret of account \<open>a\<close>.\<close>

definition code_step :: "auth_env \<Rightarrow> accountRecord \<Rightarrow> auth_op \<Rightarrow> int option" where
  "code_step E a p =
     (case p of
        Second_factor req now recorded random \<Rightarrow>
          Option.bind (totp_secret_box a) (\<lambda>box.
          Option.bind (openTotpSecret (crypto E) box (totp_key E)) (\<lambda>secret.
            matchTotpStep (crypto E) secret (the_str (field (body req) ''code'')) (now div 1000)))
      | _ \<Rightarrow> None)"

lemma claim_code_iff:
  assumes "totp_secret_box a = Some box"
  shows "claim_code E st a box (the_str (field (body req) ''code'')) now =
    (case code_step E a (Second_factor req now recorded random) of
       None \<Rightarrow> (st, False)
     | Some step \<Rightarrow> (st\<lparr>accounts := fst (claimTotpStep (accounts st) (account_id a) step)\<rparr>, snd (claimTotpStep (accounts st) (account_id a) step)))"
  using assms by (auto simp: claim_code_def code_step_def split: option.split prod.split)

lemma claim_keeps [simp]:
  "byId (fst (claimTotpStep A i s)) = byId A" "byIdentifier (fst (claimTotpStep A i s)) = byIdentifier A"
  "grantsByAccount (fst (claimTotpStep A i s)) = grantsByAccount A"
  by (auto simp: claimTotpStep_def split: option.splits)

lemma login_effect:
  assumes "login E st req now recorded random = (st', reply)"
  shows "accounts st' = accounts st \<and>
    (session_rows st' = session_rows st \<and> (\<forall>c. reply \<noteq> Reply 202 Second_factor_required c) \<or>
     (\<exists>a. password_shown E (accounts st) a (Login req now recorded random) \<and>
        session_rows st' = session_issue (session_rows st)
          (session_row E random (account_id a) (if totp_secret_box a = None then Not_required else Pending) now)))"
proof -
  have t: "accounts (throttle_note st k oc t) = accounts st" "session_rows (throttle_note st k oc t) = session_rows st" for st k oc t
    by (simp_all add: throttle_note_def)
  show ?thesis
    using assms
    by (auto simp: login_def Let_def attach_eq password_shown_def requestInvalid_def credentialsInvalid_def t
        split: if_splits option.splits)
qed

text \<open>An accepted second factor, spelled out.\<close>

definition second_factor_accepts :: "auth_env \<Rightarrow> auth_state \<Rightarrow> auth_op \<Rightarrow> issueSessionInput \<Rightarrow> accountRecord \<Rightarrow> int \<Rightarrow> bool" where
  "second_factor_accepts E st p pending a step \<longleftrightarrow>
     (case p of
        Second_factor req now recorded random \<Rightarrow>
          (\<exists>token. presentedToken E req = Some token \<and>
             session_resolve (session_rows st) (sessionHandleFor (crypto E) token) now = Some pending)
      | _ \<Rightarrow> False) \<and>
     second_factor_state pending = Pending \<and> findById (accounts st) (s_account pending) = Some a \<and>
     code_step E a p = Some step \<and> snd (claimTotpStep (accounts st) (account_id a) step)"

lemma second_factor_effect:
  assumes "second_factor E st req now recorded random = (st', reply)"
  shows "(reply = credentialsInvalid \<or> reply = requestInvalid \<or> reply = Thrown) \<and> accounts st' = accounts st \<and> session_rows st' = session_rows st \<or>
    (\<exists>pending a step c. second_factor_accepts E st (Second_factor req now recorded random) pending a step \<and>
       reply = Reply 204 No_body c \<and>
       accounts st' = fst (claimTotpStep (accounts st) (account_id a) step) \<and>
       session_rows st' = session_revoke (session_issue (session_rows st) (session_row E random (account_id a) Satisfied now))
         (session_handle pending) Rotated)"
proof -
  note [simp] = throttle_note_def
  have unclaimed: "\<not> snd (claimTotpStep A i s) \<Longrightarrow> fst (claimTotpStep A i s) = A" for A i s
    by (auto simp: claimTotpStep_def split: option.splits)
  show ?thesis
  proof (cases "\<exists>token pending a box. isSecondFactorBody (body req) \<and> presentedToken E req = Some token \<and>
      session_resolve (session_rows st) (sessionHandleFor (crypto E) token) now = Some pending \<and>
      second_factor_state pending = Pending \<and> findById (accounts st) (s_account pending) = Some a \<and> totp_secret_box a = Some box")
    case False
    then show ?thesis using assms by (auto simp: second_factor_def split: if_splits option.splits)
  next
    case True
    then obtain token pending a box where t: "isSecondFactorBody (body req)" "presentedToken E req = Some token"
      "session_resolve (session_rows st) (sessionHandleFor (crypto E) token) now = Some pending"
      "second_factor_state pending = Pending" "findById (accounts st) (s_account pending) = Some a" "totp_secret_box a = Some box" by blast
    let ?c = "code_step E a (Second_factor req now recorded random)"
    have c: "claim_code E st a box (the_str (field (body req) ''code'')) now =
      (case ?c of None \<Rightarrow> (st, False)
       | Some step \<Rightarrow> (st\<lparr>accounts := fst (claimTotpStep (accounts st) (account_id a) step)\<rparr>, snd (claimTotpStep (accounts st) (account_id a) step)))"
      by (rule claim_code_iff [OF t(6)])
    have r: "second_factor E st req now recorded random =
      (case throttleKeyFor E (login_identifier a) (ip req) of
         None \<Rightarrow> (st, Thrown)
       | Some key \<Rightarrow>
           if throttle_locked (throttle st) key now then (throttle_note st key Failed recorded, credentialsInvalid)
           else (case claim_code E st a box (the_str (field (body req) ''code'')) now of
                (st, codeOk) \<Rightarrow>
                  if \<not> codeOk then (throttle_note st key Failed recorded, credentialsInvalid)
                  else (case attachSessionCookie E (throttle_note st key Succeeded recorded) random (account_id a) Satisfied now of
                       (st, cookie) \<Rightarrow> (st\<lparr>session_rows := session_revoke (session_rows st) (session_handle pending) Rotated\<rparr>, Reply 204 No_body cookie))))"
      using t by (simp add: second_factor_def)
    show ?thesis
    proof (cases "\<exists>step. ?c = Some step \<and> snd (claimTotpStep (accounts st) (account_id a) step)")
      case False
      then show ?thesis
        using assms unfolding r c by (cases ?c) (auto simp: unclaimed attach_eq split: option.splits if_splits)
    next
      case True
      then obtain step where s: "?c = Some step" "snd (claimTotpStep (accounts st) (account_id a) step)" by blast
      with t have "second_factor_accepts E st (Second_factor req now recorded random) pending a step"
        by (simp add: second_factor_accepts_def)
      then show ?thesis
        using assms s unfolding r c by (fastforce simp: attach_eq split: option.splits if_splits)
    qed
  qed
qed

section \<open>The second factor cannot be skipped\<close>

lemma quiet_ops:
  "accounts (fst (logout E st req)) = accounts st" "sessions (session_rows (fst (logout E st req))) = sessions (session_rows st)"
  "accounts (fst (session_info E st req now)) = accounts st" "sessions (session_rows (fst (session_info E st req now))) = sessions (session_rows st)"
  "accounts (fst (resolve_actor E st req now)) = accounts st" "sessions (session_rows (fst (resolve_actor E st req now))) = sessions (session_rows st)"
  by (auto simp: logout_def session_info_def resolve_actor_def session_revoke_def session_touch_def split: option.split)

text \<open>The records of the accounts never change.\<close>

definition same_accounts :: "account_store \<Rightarrow> account_store \<Rightarrow> bool" where
  "same_accounts A B \<longleftrightarrow> byId A = byId B \<and> byIdentifier A = byIdentifier B \<and> grantsByAccount A = grantsByAccount B"

lemma same_accounts_next: "same_accounts (accounts st) (accounts (auth_next E st p))"
proof (cases p)
  case (Login req now recorded random)
  then show ?thesis using login_effect [OF surjective_pairing] by (simp add: same_accounts_def)
next
  case (Second_factor req now recorded random)
  then show ?thesis using second_factor_effect [OF surjective_pairing, of E st req now recorded random] by (auto simp: same_accounts_def)
qed (simp_all add: same_accounts_def quiet_ops)

lemma same_accounts_reach: "auth_reach E A ops st \<Longrightarrow> same_accounts A (accounts st)"
proof (induction rule: auth_reach.induct)
  case (step ops st p)
  then show ?case using same_accounts_next [of st E p] by (simp add: same_accounts_def)
qed (simp add: same_accounts_def auth_start_def)

lemma same_accounts_lookup:
  assumes "same_accounts A B"
  shows "findById B = findById A" "findByIdentifier B = findByIdentifier A" "grantsFor B = grantsFor A" "password_shown E B = password_shown E A"
  using assms by (auto simp: same_accounts_def findById_def findByIdentifier_def grantsFor_def password_shown_def fun_eq_iff split: auth_op.splits)

text \<open>The two indexes of the account store agree; seeding accounts with different identifiers gives that.\<close>

definition accounts_ok :: "account_store \<Rightarrow> bool" where
  "accounts_ok A \<longleftrightarrow>
     (\<forall>i a. findByIdentifier A i = Some a \<longrightarrow> findById A (account_id a) = Some a) \<and>
     (\<forall>i a. findById A i = Some a \<longrightarrow> account_id a = i)"

lemma accounts_ok_seed:
  assumes "accounts_ok A" "findById A (account_id a) = None"
  shows "accounts_ok (account_seed A a grants)"
  using assms by (auto simp: accounts_ok_def account_seed_def findById_def findByIdentifier_def) (metis option.discI)

text \<open>Why a session row exists.\<close>

definition row_earned :: "auth_env \<Rightarrow> account_store \<Rightarrow> auth_op list \<Rightarrow> issueSessionInput \<Rightarrow> bool" where
  "row_earned E A ops row \<longleftrightarrow>
     (\<exists>a. findById A (s_account row) = Some a \<and> (\<exists>p \<in> set ops. password_shown E A a p) \<and>
        (case second_factor_state row of
           Not_required \<Rightarrow> totp_secret_box a = None
         | Pending \<Rightarrow> totp_secret_box a \<noteq> None
         | Satisfied \<Rightarrow> totp_secret_box a \<noteq> None \<and> (\<exists>p \<in> set ops. code_step E a p \<noteq> None)))"

lemma row_earned_mono: "row_earned E A ops row \<Longrightarrow> row_earned E A (ops @ [p]) row"
  by (fastforce simp: row_earned_def split: secondFactorState.splits)

lemma resolve_row: "session_resolve S h now = Some row \<Longrightarrow> jm_get (sessions S) h = Some row"
  by (auto simp: session_resolve_def Let_def split: option.splits if_splits)

lemma session_row_simps [simp]:
  "s_account (session_row E random acc state now) = acc" "second_factor_state (session_row E random acc state now) = state"
  by (simp_all add: session_row_def)

lemma new_rows_earned:
  assumes "accounts_ok A" "same_accounts A (accounts st)" "\<forall>h row. jm_get (sessions (session_rows st)) h = Some row \<longrightarrow> row_earned E A ops row"
  shows "jm_get (sessions (session_rows (auth_next E st p))) h = Some row \<Longrightarrow> row_earned E A (ops @ [p]) row"
proof -
  note same = same_accounts_lookup [OF assms(2)]
  have old: "jm_get (sessions (session_rows st)) h = Some row \<Longrightarrow> row_earned E A (ops @ [p]) row" for h row
    using assms(3) row_earned_mono by blast
  assume new: "jm_get (sessions (session_rows (auth_next E st p))) h = Some row"
  consider (quiet) "sessions (session_rows (auth_next E st p)) = sessions (session_rows st)"
    | (login) req now recorded random a where "p = Login req now recorded random" "password_shown E A a p"
        "session_rows (auth_next E st p) = session_issue (session_rows st)
          (session_row E random (account_id a) (if totp_secret_box a = None then Not_required else Pending) now)"
    | (second) req now recorded random pending a step where "p = Second_factor req now recorded random"
        "second_factor_accepts E st p pending a step"
        "session_rows (auth_next E st p) = session_revoke (session_issue (session_rows st) (session_row E random (account_id a) Satisfied now))
          (session_handle pending) Rotated"
  proof (cases p)
    case (Login req now recorded random)
    with login_effect [OF surjective_pairing, of E st req now recorded random] show ?thesis using quiet login same by auto
  next
    case (Second_factor req now recorded random)
    with second_factor_effect [OF surjective_pairing, of E st req now recorded random] show ?thesis using quiet second by auto
  qed (use quiet in \<open>simp_all add: quiet_ops\<close>)
  then show ?thesis
  proof cases
    case quiet
    with new old show ?thesis by simp
  next
    case login
    have a: "findById A (account_id a) = Some a"
      using login assms(1) by (auto simp: password_shown_def accounts_ok_def)
    have "row_earned E A (ops @ [p]) (session_row E random (account_id a) (if totp_secret_box a = None then Not_required else Pending) now)"
      using login(2) a by (auto simp: row_earned_def)
    with new login(3) old show ?thesis by (auto simp: session_issue_def split: if_splits)
  next
    case second
    have f: "findById A (s_account pending) = Some a" "code_step E a p = Some step" "second_factor_state pending = Pending"
      using second(2) same by (auto simp: second_factor_accepts_def)
    obtain h' where "jm_get (sessions (session_rows st)) h' = Some pending"
      using second(1,2) by (auto simp: second_factor_accepts_def dest: resolve_row)
    then have "row_earned E A ops pending" using assms(3) by blast
    with f have pend: "\<exists>p \<in> set ops. password_shown E A a p" "totp_secret_box a \<noteq> None" by (auto simp: row_earned_def)
    have "account_id a = s_account pending" using f(1) assms(1) by (simp add: accounts_ok_def)
    with f pend have "row_earned E A (ops @ [p]) (session_row E random (account_id a) Satisfied now)" by (auto simp: row_earned_def)
    with new second(3) old show ?thesis by (auto simp: session_issue_def session_revoke_def split: if_splits)
  qed
qed

lemma rows_earned:
  "auth_reach E A ops st \<Longrightarrow> accounts_ok A \<Longrightarrow> jm_get (sessions (session_rows st)) h = Some row \<Longrightarrow> row_earned E A ops row"
proof (induction arbitrary: h row rule: auth_reach.induct)
  case (step ops st p)
  show ?case
    by (rule new_rows_earned [OF step.prems(1) same_accounts_reach [OF step.hyps] _ step.prems(2)]) (use step.IH step.prems in blast)
qed (simp add: auth_start_def no_sessions_def)

text \<open>C8: whoever is treated as the holder of an account has proved it. After any sequence of
  authentication requests, a request is given an actor only when the password of that account was
  presented in an accepted form at some login, and, when the account has a second factor enrolled,
  only when a one-time code matching the account's secret was presented too, in which case the request
  is marked as having passed it. The actor has the tenant and the grants of the account.\<close>

theorem second_factor_not_skipped:
  assumes "accounts_ok A" "auth_reach E A ops st" "resolve_actor E st req now = (st', Some actor, passed)"
  shows "\<exists>a. findById A (a_account actor) = Some a \<and> a_tenant actor = tenant_id a \<and> a_grants actor = grantsFor A (account_id a) \<and>
    (\<exists>p \<in> set ops. password_shown E A a p) \<and>
    (totp_secret_box a \<noteq> None \<longrightarrow> passed \<and> (\<exists>p \<in> set ops. code_step E a p \<noteq> None))"
proof -
  note same = same_accounts_lookup [OF same_accounts_reach [OF assms(2)]]
  obtain token row a where r: "session_resolve (session_rows st) (sessionHandleFor (crypto E) token) now = Some row"
    "second_factor_state row \<noteq> Pending" "findById A (s_account row) = Some a"
    "actor = actorFor (account_id a) (tenant_id a) (grantsFor A (account_id a))" "passed = (second_factor_state row = Satisfied)"
    using assms(3) same by (auto simp: resolve_actor_def split: option.splits if_splits)
  have "row_earned E A ops row" using rows_earned [OF assms(2,1) resolve_row [OF r(1)]] .
  moreover have "account_id a = s_account row" using r(3) assms(1) by (simp add: accounts_ok_def)
  ultimately show ?thesis
    using r by (intro exI [of _ a]) (auto simp: row_earned_def actorFor_def split: secondFactorState.splits)
qed

text \<open>An account with a second factor: its password, its secret and the run that signs it in.\<close>

definition sample_auth :: auth_env where
  "sample_auth = \<lparr>crypto = sample_crypto, totp_key = [1, 2], cookie_secure = True, dummy_hash = lit ''none'',
     text_fns = sample_text, net_isIPv6 = (\<lambda>s. 58 \<in> set s)\<rparr>"

definition sample_account :: accountRecord where
  "sample_account = \<lparr>account_id = lit ''acc_1'', tenant_id = lit ''t1'', login_identifier = lit ''ann'',
     secret_hash = the (hashSecret sample_crypto [1, 2] (lit ''pw'')),
     totp_secret_box = Some (sealTotpSecret sample_crypto (replicate 12 5) [9, 8, 7] [1, 2])\<rparr>"

definition no_accounts :: account_store where
  "no_accounts = \<lparr>byId = [], byIdentifier = [], grantsByAccount = [], lastTotpStep = []\<rparr>"

definition sample_accounts :: account_store where
  "sample_accounts = account_seed no_accounts sample_account [\<lparr>g_account = lit ''acc_1'', g_role = Customer_viewer, g_review_scope = None\<rparr>]"

definition sample_login :: auth_op where
  "sample_login = Login \<lparr>body = JObj [(lit ''identifier'', jstr ''Ann''), (lit ''secret'', jstr ''pw'')], cookie_header = None, ip = lit ''10.0.0.1''\<rparr>
     60000 60001 [3]"

definition with_cookie :: "bytes \<Rightarrow> jsval \<Rightarrow> auth_request" where
  "with_cookie random b =
     \<lparr>body = b, cookie_header = Some (serializeSessionCookie (fst (mintSessionToken sample_crypto random)) True 60), ip = lit ''10.0.0.1''\<rparr>"

definition sample_request :: auth_request where
  "sample_request = with_cookie [3] (JObj [(lit ''code'', JStr (totpCodeAt sample_crypto [9, 8, 7] 90))])"

definition sample_second :: auth_op where
  "sample_second = Second_factor sample_request 61000 61001 [4]"

definition sample_key :: ustr where
  "sample_key = the (throttleKeyFor sample_auth (lit ''ann'') (lit ''10.0.0.1''))"

text \<open>The states after the login and after the second factor.\<close>

definition sample_pending :: issueSessionInput where
  "sample_pending = session_row sample_auth [3] (lit ''acc_1'') Pending 60000"

definition sample_mid :: auth_state where
  "sample_mid = \<lparr>accounts = sample_accounts,
     session_rows = \<lparr>sessions = [(session_handle sample_pending, sample_pending)], revocations = [], lastActivity = []\<rparr>,
     throttle = [(sample_key, [(Succeeded, 60001)])]\<rparr>"

definition sample_end :: auth_state where
  "sample_end = \<lparr>accounts = fst (claimTotpStep sample_accounts (lit ''acc_1'') 3),
     session_rows = session_revoke (session_issue (session_rows sample_mid) (session_row sample_auth [4] (lit ''acc_1'') Satisfied 61000))
       (session_handle sample_pending) Rotated,
     throttle = throttle_record (throttle sample_mid) sample_key Succeeded 61001\<rparr>"

lemma sample_login_next: "auth_next sample_auth (auth_start sample_accounts) sample_login = sample_mid"
  by code_simp

lemma sample_code: "code_step sample_auth sample_account sample_second = Some 3"
proof -
  have "totp_secret_box sample_account = Some (sealTotpSecret sample_crypto (replicate 12 5) [9, 8, 7] [1, 2])"
    "openTotpSecret sample_crypto (sealTotpSecret sample_crypto (replicate 12 5) [9, 8, 7] [1, 2]) [1, 2] = Some [9, 8, 7]"
    by code_simp+
  moreover have "field (body sample_request) ''code'' = JStr (totpCodeAt sample_crypto [9, 8, 7] 90)"
    by (simp add: sample_request_def with_cookie_def)
  moreover have "matchTotpStep sample_crypto [9, 8, 7] (totpCodeAt sample_crypto [9, 8, 7] 90) 61 = Some 3"
    by (auto simp: match_step_iff)
  ultimately show ?thesis by (simp add: code_step_def sample_second_def sample_auth_def)
qed

lemma sample_token: "presentedToken sample_auth sample_request = Some (fst (mintSessionToken sample_crypto [3]))"
proof -
  have "presentedToken sample_auth (with_cookie [3] JNull) = Some (fst (mintSessionToken sample_crypto [3]))" by code_simp
  then show ?thesis by (simp add: presentedToken_def sample_request_def with_cookie_def)
qed

lemma sample_lookup:
  "session_resolve (session_rows sample_mid) (sessionHandleFor (crypto sample_auth) (fst (mintSessionToken sample_crypto [3]))) 61000 = Some sample_pending"
  "second_factor_state sample_pending = Pending" "findById (accounts sample_mid) (s_account sample_pending) = Some sample_account"
  "account_id sample_account = lit ''acc_1''"
  by code_simp+

lemma sample_second_reply: "\<exists>c. second_factor sample_auth sample_mid sample_request 61000 61001 [4] = (sample_end, Reply 204 No_body c)"
proof -
  have "isSecondFactorBody (body sample_request)"
    by (simp add: isSecondFactorBody_def sample_request_def with_cookie_def)
  moreover have "throttleKeyFor sample_auth (login_identifier sample_account) (lit ''10.0.0.1'') = Some sample_key"
    "\<not> throttle_locked (throttle sample_mid) sample_key 61000" by code_simp+
  moreover have claim: "snd (claimTotpStep sample_accounts (lit ''acc_1'') 3)" by code_simp
  moreover obtain box where "totp_secret_box sample_account = Some box" by (simp add: sample_account_def)
  moreover from this have "claim_code sample_auth sample_mid sample_account box (the_str (field (body sample_request) ''code'')) 61000 =
      (sample_mid\<lparr>accounts := fst (claimTotpStep sample_accounts (lit ''acc_1'') 3)\<rparr>, True)"
    using sample_code sample_lookup claim
    by (simp add: claim_code_iff [of _ _ _ _ sample_request 61000 61001 "[4]"] sample_second_def sample_mid_def)
  moreover have "ip sample_request = lit ''10.0.0.1''" by (simp add: sample_request_def with_cookie_def)
  ultimately show ?thesis
    using sample_token sample_lookup by (simp add: second_factor_def attach_eq throttle_note_def sample_end_def)
qed

lemma sample_run: "auth_reach sample_auth sample_accounts [sample_login, sample_second] sample_end"
proof -
  have "auth_next sample_auth sample_mid sample_second = sample_end"
    using sample_second_reply by (auto simp: sample_second_def)
  with auth_reach.step [OF auth_reach.step [OF auth_reach.start], of sample_auth sample_accounts sample_login sample_second]
  show ?thesis by (simp add: sample_login_next)
qed

lemma sample_accounts_ok: "accounts_ok sample_accounts"
  unfolding sample_accounts_def
  by (rule accounts_ok_seed) (simp_all add: accounts_ok_def no_accounts_def findById_def findByIdentifier_def)

theorem second_factor_not_skipped_witness:
  "\<exists>st' actor. resolve_actor sample_auth sample_end (with_cookie [4] JNull) 62000 = (st', Some actor, True) \<and>
     a_account actor = lit ''acc_1'' \<and> a_tenant actor = lit ''t1''"
proof -
  have r: "snd (resolve_actor sample_auth sample_end (with_cookie [4] JNull) 62000) =
      (Some (actorFor (lit ''acc_1'') (lit ''t1'') (grantsFor sample_accounts (lit ''acc_1''))), True)"
    by code_simp
  then obtain st' where s: "resolve_actor sample_auth sample_end (with_cookie [4] JNull) 62000 =
      (st', Some (actorFor (lit ''acc_1'') (lit ''t1'') (grantsFor sample_accounts (lit ''acc_1''))), True)"
    by (metis prod.collapse)
  have "findById sample_accounts (lit ''acc_1'') = Some sample_account" by code_simp
  with second_factor_not_skipped [OF sample_accounts_ok sample_run s] s show ?thesis
    by (auto simp: actorFor_def sample_account_def)
qed

section \<open>A one-time code is used once\<close>

text \<open>The codes a run accepts, as pairs of account and time step.\<close>

definition accepted_code :: "auth_env \<Rightarrow> auth_state \<Rightarrow> auth_op \<Rightarrow> (ustr \<times> int) list" where
  "accepted_code E st p =
     (case p of
        Second_factor req now recorded random \<Rightarrow>
          (case snd (second_factor E st req now recorded random) of
             Reply status _ _ \<Rightarrow>
               if status \<noteq> 204 then []
               else
                 (case Option.bind (presentedToken E req) (\<lambda>token. Option.bind
                    (session_resolve (session_rows st) (sessionHandleFor (crypto E) token) now) (\<lambda>pending.
                     findById (accounts st) (s_account pending))) of
                    None \<Rightarrow> []
                  | Some a \<Rightarrow> (case code_step E a p of None \<Rightarrow> [] | Some step \<Rightarrow> [(account_id a, step)]))
           | Thrown \<Rightarrow> [])
      | _ \<Rightarrow> [])"

fun accepted_codes :: "auth_env \<Rightarrow> auth_state \<Rightarrow> auth_op list \<Rightarrow> (ustr \<times> int) list" where
  "accepted_codes E st [] = []"
| "accepted_codes E st (p # ps) = accepted_code E st p @ accepted_codes E (auth_next E st p) ps"

abbreviation claimed_step :: "auth_state \<Rightarrow> ustr \<Rightarrow> int option" where
  "claimed_step st i \<equiv> jm_get (lastTotpStep (accounts st)) i"

text \<open>A step is past the last claimed one.\<close>

definition fresh_step :: "auth_state \<Rightarrow> ustr \<Rightarrow> int \<Rightarrow> bool" where
  "fresh_step st i step \<longleftrightarrow> (\<forall>prev. claimed_step st i = Some prev \<longrightarrow> prev < step)"

lemma claim_effect:
  "snd (claimTotpStep A i step) \<longleftrightarrow> (\<forall>prev. jm_get (lastTotpStep A) i = Some prev \<longrightarrow> prev < step)"
  "jm_get (lastTotpStep (fst (claimTotpStep A i step))) j =
     (if j = i \<and> snd (claimTotpStep A i step) then Some step else jm_get (lastTotpStep A) j)"
  by (auto simp: claimTotpStep_def split: option.split)

lemma accepted_code_cases:
  assumes "accepted_code E st p \<noteq> []"
  obtains i step where "accepted_code E st p = [(i, step)]" "fresh_step st i step" "claimed_step (auth_next E st p) i = Some step"
    "\<And>j. j \<noteq> i \<Longrightarrow> claimed_step (auth_next E st p) j = claimed_step st j"
proof -
  obtain req now recorded random where p: "p = Second_factor req now recorded random"
    using assms by (cases p) (auto simp: accepted_code_def)
  let ?r = "second_factor E st req now recorded random"
  have "\<exists>c. snd ?r = Reply 204 No_body c"
    using assms p second_factor_effect [OF surjective_pairing, of E st req now recorded random]
    by (auto simp: accepted_code_def credentialsInvalid_def requestInvalid_def)
  then obtain pending a step where acc: "second_factor_accepts E st p pending a step"
    "accounts (fst ?r) = fst (claimTotpStep (accounts st) (account_id a) step)"
    using p second_factor_effect [OF surjective_pairing, of E st req now recorded random]
    by (auto simp: credentialsInvalid_def requestInvalid_def)
  have "accepted_code E st p = [(account_id a, step)]"
    using acc(1) p \<open>\<exists>c. snd ?r = Reply 204 No_body c\<close> by (auto simp: accepted_code_def second_factor_accepts_def)
  with that acc p show ?thesis
    by (simp add: fresh_step_def claim_effect second_factor_accepts_def)
qed

lemma claimed_step_other:
  assumes "accepted_code E st p = []"
  shows "claimed_step (auth_next E st p) i = claimed_step st i"
proof (cases p)
  case (Login req now recorded random)
  then show ?thesis using login_effect [OF surjective_pairing] by simp
next
  case (Second_factor req now recorded random)
  let ?r = "second_factor E st req now recorded random"
  show ?thesis
  proof (cases "\<exists>pending a step c. second_factor_accepts E st p pending a step \<and> snd ?r = Reply 204 No_body c")
    case True
    then have False using assms Second_factor by (auto simp: accepted_code_def second_factor_accepts_def)
    then show ?thesis ..
  next
    case False
    then show ?thesis
      using Second_factor second_factor_effect [OF surjective_pairing, of E st req now recorded random] by auto
  qed
qed (simp_all add: quiet_ops)

lemma accepted_codes_fresh: "(i, step) \<in> set (accepted_codes E st ps) \<Longrightarrow> fresh_step st i step"
proof (induction ps arbitrary: st)
  case (Cons p ps)
  let ?st = "auth_next E st p"
  show ?case
  proof (cases "accepted_code E st p = []")
    case True
    then have "fresh_step ?st i step" using Cons by simp
    then show ?thesis using claimed_step_other [OF True] by (simp add: fresh_step_def)
  next
    case False
    then obtain j s where c: "accepted_code E st p = [(j, s)]" "fresh_step st j s" "claimed_step ?st j = Some s"
      "\<And>k. k \<noteq> j \<Longrightarrow> claimed_step ?st k = claimed_step st k" by (rule accepted_code_cases) blast
    consider "i = j" "step = s" | "fresh_step ?st i step" using Cons c(1) by auto
    then show ?thesis
    proof cases
      case 2
      then show ?thesis
        by (cases "i = j") (use c in \<open>auto simp: fresh_step_def dest: less_trans\<close>)
    qed (use c in simp)
  qed
qed simp

text \<open>C25: a one-time code is accepted once. In any sequence of authentication requests from any state,
  the codes accepted for an account belong to strictly increasing time steps, so neither a code nor a
  code of an earlier step of the window is ever accepted again.\<close>

theorem totp_code_used_once:
  "sorted_wrt (\<lambda>(i, s) (j, t). i = j \<longrightarrow> s < t) (accepted_codes E st ps)"
proof (induction ps arbitrary: st)
  case (Cons p ps)
  show ?case
  proof (cases "accepted_code E st p = []")
    case False
    then obtain j s where c: "accepted_code E st p = [(j, s)]" "claimed_step (auth_next E st p) j = Some s"
      by (rule accepted_code_cases) blast
    have "s < t" if "(j, t) \<in> set (accepted_codes E (auth_next E st p) ps)" for t
      using accepted_codes_fresh [OF that] c(2) by (simp add: fresh_step_def)
    then show ?thesis using Cons c(1) by auto
  qed (use Cons in simp)
qed simp

lemma sample_accepted:
  "accepted_codes sample_auth (auth_start sample_accounts) [sample_login, sample_second] = [(lit ''acc_1'', 3)]"
proof -
  obtain c where "second_factor sample_auth sample_mid sample_request 61000 61001 [4] = (sample_end, Reply 204 No_body c)"
    using sample_second_reply by blast
  moreover have "presentedToken sample_auth sample_request = Some (fst (mintSessionToken sample_crypto [3]))"
    by (rule sample_token)
  ultimately have "accepted_code sample_auth sample_mid sample_second = [(lit ''acc_1'', 3)]"
    using sample_code sample_lookup by (simp add: accepted_code_def sample_second_def)
  moreover have "accepted_code sample_auth (auth_start sample_accounts) sample_login = []"
    by (simp add: accepted_code_def sample_login_def)
  ultimately show ?thesis by (simp add: sample_login_next)
qed

theorem totp_code_used_once_witness:
  "accepted_codes sample_auth (auth_start sample_accounts) [sample_login, sample_second] = [(lit ''acc_1'', 3)] \<and>
   sorted_wrt (\<lambda>(i, s) (j, t). i = j \<longrightarrow> s < t) (accepted_codes sample_auth (auth_start sample_accounts) [sample_login, sample_second])"
  using sample_accepted totp_code_used_once by blast

section \<open>The lockout\<close>

definition attempts_of :: "attempt_log \<Rightarrow> ustr \<Rightarrow> (loginOutcome \<times> int) list" where
  "attempts_of L k = (case jm_get L k of Some as \<Rightarrow> as | None \<Rightarrow> [])"

lemma attempts_of_record [simp]:
  "attempts_of (throttle_record L k oc t) j = (if j = k then attempts_of L k @ [(oc, t)] else attempts_of L j)"
  by (simp add: attempts_of_def throttle_record_def)

lemma last_success_snoc:
  "last_success (as @ [(oc, ms)]) =
     (if oc = Succeeded \<and> (case last_success as of None \<Rightarrow> True | Some b \<Rightarrow> ms > b) then Some ms else last_success as)"
  by (simp add: last_success_def)

lemma last_success_None: "last_success as = None \<longleftrightarrow> (\<forall>s. (Succeeded, s) \<notin> set as)"
  by (induction as rule: rev_induct) (auto simp: last_success_snoc last_success_def [of "[]"] split: option.splits if_splits)

lemma last_success_below: "last_success as = Some b \<Longrightarrow> b < ms \<longleftrightarrow> (\<forall>s. (Succeeded, s) \<in> set as \<longrightarrow> s < ms)"
proof (induction as arbitrary: b rule: rev_induct)
  case Nil
  then show ?case by (simp add: last_success_def)
next
  case (snoc x as)
  obtain oc t where x: "x = (oc, t)" by (cases x)
  show ?case
  proof (cases "last_success as")
    case None
    then have "\<forall>s. (Succeeded, s) \<notin> set as" by (simp add: last_success_None)
    with snoc.prems None x show ?thesis by (auto simp: last_success_snoc split: if_splits)
  next
    case (Some b')
    with snoc.IH [OF Some] snoc.prems x show ?thesis by (auto simp: last_success_snoc split: if_splits)
  qed
qed

text \<open>The lockout in closed form: five failures inside the window, all after the last success.\<close>

lemma locked_iff:
  "throttle_locked L k now \<longleftrightarrow>
     LOGIN_LOCKOUT_THRESHOLD \<le> length (filter (\<lambda>(oc, ms). oc = Failed \<and> now - LOGIN_LOCKOUT_WINDOW_MS < ms \<and>
       (\<forall>s. (Succeeded, s) \<in> set (attempts_of L k) \<longrightarrow> s < ms)) (attempts_of L k))"
proof -
  let ?as = "attempts_of L k"
  let ?cut = "case last_success ?as of None \<Rightarrow> now - LOGIN_LOCKOUT_WINDOW_MS | Some ms \<Rightarrow> max (now - LOGIN_LOCKOUT_WINDOW_MS) ms"
  have "?cut < ms \<longleftrightarrow> now - LOGIN_LOCKOUT_WINDOW_MS < ms \<and> (\<forall>s. (Succeeded, s) \<in> set ?as \<longrightarrow> s < ms)" for ms
    by (cases "last_success ?as") (auto simp: last_success_below, simp_all add: last_success_None)
  then show ?thesis by (simp add: throttle_locked_def attempts_of_def [symmetric] Let_def)
qed

lemma failures_after_success:
  assumes "\<forall>(oc, ms) \<in> set as. ms \<le> s" "length fails < LOGIN_LOCKOUT_THRESHOLD"
    "attempts_of L k = as @ [(Succeeded, s)] @ map (Pair Failed) fails"
  shows "\<not> throttle_locked L k now"
proof -
  let ?P = "\<lambda>(oc, ms). oc = Failed \<and> now - LOGIN_LOCKOUT_WINDOW_MS < ms \<and> (\<forall>s. (Succeeded, s) \<in> set (attempts_of L k) \<longrightarrow> s < ms)"
  have "filter ?P as = []" using assms(1) by (auto simp: filter_empty_conv assms(3)) fastforce
  then have "length (filter ?P (attempts_of L k)) \<le> length fails"
    unfolding assms(3) filter_append by (simp add: le_trans [OF length_filter_le])
  then show ?thesis using assms(2) by (simp add: locked_iff)
qed

lemma attempts_after_fails:
  "attempts_of (foldl (\<lambda>L t. throttle_record L k Failed t) L fails) k = attempts_of L k @ map (Pair Failed) fails"
  by (induction fails arbitrary: L) auto

text \<open>A password login clears the failures counted against it. When an account with a second factor
  passes its password check, the throttle key of that account and network is open again and stays open
  for up to four failed attempts afterwards, whatever happened before. The failed second-factor
  attempts between two password logins are therefore never enough to lock the key: a client that knows
  the password can try any number of one-time codes.\<close>

theorem password_login_reopens_throttle:
  assumes "login E st req now recorded random = (st', Reply 202 Second_factor_required c)"
    "throttleKeyFor E (toLowerCase (text_fns E) (the_str (field (body req) ''identifier''))) (ip req) = Some key"
    "\<forall>(oc, ms) \<in> set (attempts_of (throttle st) key). ms \<le> recorded" "length fails < LOGIN_LOCKOUT_THRESHOLD"
  shows "\<not> throttle_locked (foldl (\<lambda>L t. throttle_record L key Failed t) (throttle st') fails) key later"
proof -
  have "throttle st' = throttle_record (throttle st) key Succeeded recorded"
    using assms(1,2)
    by (auto simp: login_def Let_def attach_eq throttle_note_def requestInvalid_def credentialsInvalid_def split: if_splits option.splits)
  then have "attempts_of (foldl (\<lambda>L t. throttle_record L key Failed t) (throttle st') fails) key =
      attempts_of (throttle st) key @ [(Succeeded, recorded)] @ map (Pair Failed) fails"
    by (simp add: attempts_after_fails)
  from failures_after_success [OF assms(3,4) this] show ?thesis .
qed

theorem password_login_reopens_throttle_witness:
  "\<not> throttle_locked (foldl (\<lambda>L t. throttle_record L sample_key Failed t)
     (throttle (auth_next sample_auth (auth_start sample_accounts) sample_login)) [60002, 60003, 60004, 60005]) sample_key 60006"
proof -
  let ?req = "\<lparr>body = JObj [(lit ''identifier'', jstr ''Ann''), (lit ''secret'', jstr ''pw'')], cookie_header = None, ip = lit ''10.0.0.1''\<rparr>"
  have "\<exists>st' c. login sample_auth (auth_start sample_accounts) ?req 60000 60001 [3] = (st', Reply 202 Second_factor_required c)"
  proof -
    have "case snd (login sample_auth (auth_start sample_accounts) ?req 60000 60001 [3]) of
        Reply n b c \<Rightarrow> n = 202 \<and> b = Second_factor_required | Thrown \<Rightarrow> False" by code_simp
    then show ?thesis by (cases "login sample_auth (auth_start sample_accounts) ?req 60000 60001 [3]") (auto split: auth_reply.splits)
  qed
  then obtain st' c where l: "login sample_auth (auth_start sample_accounts) ?req 60000 60001 [3] = (st', Reply 202 Second_factor_required c)" by blast
  have k: "throttleKeyFor sample_auth (toLowerCase (text_fns sample_auth) (the_str (field (body ?req) ''identifier''))) (ip ?req) = Some sample_key"
    by code_simp
  have "\<forall>(oc, ms) \<in> set (attempts_of (throttle (auth_start sample_accounts)) sample_key). ms \<le> 60001"
    by (simp add: attempts_of_def auth_start_def)
  from password_login_reopens_throttle [OF l k this, of "[60002, 60003, 60004, 60005]" 60006] l show ?thesis
    by (simp add: sample_login_def LOGIN_LOCKOUT_THRESHOLD_def)
qed

section \<open>Evidence access\<close>

lemma grant_loop_sound:
  "grant_loop gs scope w = Some g \<Longrightarrow>
     g \<in> set gs \<and> (g_review_scope g = Some scope \<or> g_review_scope g = None \<and> w = None \<and> (\<forall>h \<in> set gs. g_review_scope h \<noteq> Some scope)) \<or>
     w = Some g \<and> (\<forall>h \<in> set gs. g_review_scope h \<noteq> Some scope)"
  by (induction gs scope w rule: grant_loop.induct) (auto split: if_splits)

lemma selectGrant_sound:
  assumes "selectGrant gs scope = Some g"
  shows "g \<in> set gs" "g_review_scope g = Some scope \<or> g_review_scope g = None \<and> (\<forall>h \<in> set gs. g_review_scope h \<noteq> Some scope)"
  using grant_loop_sound [of gs scope None g] assms by (auto simp: selectGrant_def)

lemma access_request_fields:
  "field (access_request E actor g art purpose scope ts) ''artifact'' =
     JObj [(lit ''artifact_ref'', JStr (artifact_ref art)), (lit ''tenant_id'', JStr (art_tenant art)),
           (lit ''review_scope'', JStr (art_review_scope art)), (lit ''source_derived_class'', JStr (source_derived_class art))]"
  "field (access_request E actor g art purpose scope ts) ''actor'' =
     JObj [(lit ''actor_type'', jstr (actor_type_text (actorTypeForRole (g_role g)))), (lit ''actor_id'', JStr (a_actor_id actor))]"
  "field (access_request E actor g art purpose scope ts) ''role'' = jstr (role_text (g_role g))"
  "field (access_request E actor g art purpose scope ts) ''tenant_id'' = JStr (a_tenant actor)"
  "field (access_request E actor g art purpose scope ts) ''review_scope'' = JStr (art_review_scope art)"
  by (simp_all add: access_request_def)

text \<open>C12: an evidence read that is let through has an authenticated actor with a grant for the review of
  the artifact: the grant for exactly that review when there is one, and a tenant-wide grant only when
  there is none. The artifact belongs to the tenant of the actor, a static consumer never gets a
  source-derived class, and the access event names the account, the type of the role that was used, the
  review and the artifact.\<close>

theorem evidence_access_granted:
  assumes "requireEvidenceAccess E F actor_opt events server_now art purpose scope = Allowed event"
  shows "\<exists>actor g. actor_opt = Some actor \<and> g \<in> set (a_grants actor) \<and>
    (g_review_scope g = Some (art_review_scope art) \<or>
       g_review_scope g = None \<and> (\<forall>h \<in> set (a_grants actor). g_review_scope h \<noteq> Some (art_review_scope art))) \<and>
    art_tenant art = a_tenant actor \<and>
    \<not> (g_role g = Evidence_consumer_static \<and> one_of SENSITIVE_SOURCE_CLASSES (JStr (source_derived_class art))) \<and>
    field event ''event_type'' = jstr ''evidence_accessed'' \<and>
    field event ''actor'' = JObj [(lit ''actor_type'', jstr (actor_type_text (actorTypeForRole (g_role g)))), (lit ''actor_id'', JStr (a_actor_id actor))] \<and>
    field event ''review_id'' = JStr (art_review_scope art) \<and>
    field event ''artifact_refs'' = JArr [JStr (artifact_ref art)]"
proof -
  obtain actor g ts out where a: "actor_opt = Some actor" "selectGrant (a_grants actor) (art_review_scope art) = Some g"
    "enforceScopedAccess F (JArr events) (access_request E actor g art purpose scope ts) = Inr (Access_allowed event out)"
    using assms by (auto simp: requireEvidenceAccess_def Let_def split: option.splits sum.splits accessResult.splits)
  note s = scoped_access_allowedD [OF a(3), unfolded access_request_fields]
  from scoped_access_recorded [OF a(3)] obtain n where e: "event = access_event (access_request E actor g art purpose scope ts) n" by blast
  have "role_text r = ''evidence_consumer_static'' \<longleftrightarrow> r = Evidence_consumer_static" for r by (cases r) (simp_all add: role_text_def)
  with a(1) s selectGrant_sound [OF a(2)] show ?thesis
    by (intro exI [of _ actor] exI [of _ g]) (auto simp: e access_event_def access_request_fields dest!: strict_eq_imp_eq)
qed

definition sample_artifact :: artifactScope where
  "sample_artifact = \<lparr>artifact_ref = lit ''art_1'', art_tenant = lit ''t1'', art_review_scope = lit ''rev_1'',
     source_derived_class = lit ''retained_review_artifact''\<rparr>"

theorem evidence_access_granted_witness:
  "\<exists>event. requireEvidenceAccess sample_auth sample_control (Some (actorFor (lit ''acc_1'') (lit ''t1'') (grantsFor sample_accounts (lit ''acc_1''))))
      [sample_lifecycle_event ''a'' 0] (lit ''2024-01-01T00:00:00Z'') sample_artifact (lit ''p'') (lit ''s'') = Allowed event \<and>
     field event ''review_id'' = jstr ''rev_1''"
proof -
  let ?r = "requireEvidenceAccess sample_auth sample_control (Some (actorFor (lit ''acc_1'') (lit ''t1'') (grantsFor sample_accounts (lit ''acc_1''))))
      [sample_lifecycle_event ''a'' 0] (lit ''2024-01-01T00:00:00Z'') sample_artifact (lit ''p'') (lit ''s'')"
  have "case ?r of Allowed _ \<Rightarrow> True | _ \<Rightarrow> False" by code_simp
  then obtain event where r: "?r = Allowed event" by (auto split: evidenceAccess.splits)
  with evidence_access_granted [OF r] show ?thesis by (auto simp: sample_artifact_def)
qed

end
