(* ===== verification/Transparency.thy ===== *)
theory Transparency
  imports Append_Only_Log Review_Event_Log
begin

text \<open>
  The transparency log: review chain heads, Merkle checkpoints and inclusion proofs
  (\<^verbatim>\<open>packages/evidence-store/src/transparency\<close>), their verification by a client
  (\<^verbatim>\<open>packages/protocol-ts/src/transparency-verify.ts\<close>), and the checkpoint run of the worker
  (\<^verbatim>\<open>services/host/src/worker/transparency.ts\<close>). A thrown error is an \<open>Inl\<close>.
\<close>

datatype trans_error =
    Type_error
  | Range_error
  | Canonical_error canon_error
  | Anchor_not_configured
  | Anchor_threw
  | No_anchor_reference
  | Not_read_back

section \<open>Checkpoints\<close>

record reviewHead =
  hd_review :: ustr
  hd_hash :: ustr

datatype side = On_left | On_right

record merkleProof =
  mp_review :: ustr
  leaf_index :: nat
  tree_size :: nat
  siblings :: "(side \<times> ustr) list"

record checkpointProjection =
  merkle_root :: ustr
  cp_size :: nat

fun heads_loop :: "ustr option \<Rightarrow> reviewHead list \<Rightarrow> bool" where
  "heads_loop previous [] = True"
| "heads_loop previous (h # hs) =
     (is_review_id (hd_review h) \<and> is_sha256_hex (hd_hash h) \<and> previous \<noteq> Some (hd_review h) \<and> heads_loop (Some (hd_review h)) hs)"

definition validateAndSortHeads :: "reviewHead list \<Rightarrow> trans_error + reviewHead list" where
  "validateAndSortHeads heads =
     (let ordered = sort_key hd_review heads in if heads_loop None ordered then Inr ordered else Inl Type_error)"

definition head_json :: "reviewHead \<Rightarrow> jsval" where
  "head_json h = JObj [(lit ''review_id'', JStr (hd_review h)), (lit ''head_hash'', JStr (hd_hash h))]"

definition leaf_bytes :: "platform \<Rightarrow> reviewHead \<Rightarrow> trans_error + bytes" where
  "leaf_bytes P h =
     (case canonicalizeProtocolJson P (head_json h) of Inl e \<Rightarrow> Inl (Canonical_error e) | Inr t \<Rightarrow> Inr (0 # utf8 t))"

definition hashReviewHeadLeaf :: "platform \<Rightarrow> reviewHead \<Rightarrow> trans_error + bytes" where
  "hashReviewHeadLeaf P h = sbind (leaf_bytes P h) (\<lambda>bs. Inr (sha256 P bs))"

fun nextMerkleLevel :: "platform \<Rightarrow> bytes list \<Rightarrow> bytes list" where
  "nextMerkleLevel P [] = []"
| "nextMerkleLevel P [left] = [left]"
| "nextMerkleLevel P (left # right # rest) = sha256 P (1 # left @ right) # nextMerkleLevel P rest"

lemma length_nextMerkleLevel: "length (nextMerkleLevel P level) = (length level + 1) div 2"
  by (induction P level rule: nextMerkleLevel.induct) auto

function merkle_loop :: "platform \<Rightarrow> bytes list \<Rightarrow> bytes list" where
  "merkle_loop P level = (if length level > 1 then merkle_loop P (nextMerkleLevel P level) else level)"
  by auto
termination
  by (relation "measure (\<lambda>(P, level). length level)") (auto simp: length_nextMerkleLevel)

declare merkle_loop.simps [simp del]

definition computeMerkleRoot :: "platform \<Rightarrow> bytes list \<Rightarrow> bytes" where
  "computeMerkleRoot P leaves = (if leaves = [] then sha256 P [] else hd (merkle_loop P leaves))"

definition computeCheckpoint :: "platform \<Rightarrow> reviewHead list \<Rightarrow> trans_error + checkpointProjection" where
  "computeCheckpoint P heads =
     sbind (validateAndSortHeads heads) (\<lambda>ordered.
     sbind (smap (hashReviewHeadLeaf P) ordered) (\<lambda>leaves.
     Inr \<lparr>merkle_root = to_hex (computeMerkleRoot P leaves), cp_size = length ordered\<rparr>))"

text \<open>\<open>level[siblingIndex]\<close> past the end is \<^verbatim>\<open>undefined\<close>: no step is written.\<close>

function proof_loop :: "platform \<Rightarrow> bytes list \<Rightarrow> nat \<Rightarrow> (side \<times> ustr) list" where
  "proof_loop P level index =
     (if length level > 1 then
        (let isRightChild = (index mod 2 = 1);
             siblingIndex = (if isRightChild then index - 1 else index + 1) in
         (if siblingIndex < length level then [(if isRightChild then On_left else On_right, to_hex (level ! siblingIndex))] else []) @
         proof_loop P (nextMerkleLevel P level) (index div 2))
      else [])"
  by auto
termination
  by (relation "measure (\<lambda>(P, level, index). length level)") (auto simp: length_nextMerkleLevel)

declare proof_loop.simps [simp del]

fun index_of :: "('a \<Rightarrow> bool) \<Rightarrow> 'a list \<Rightarrow> nat option" where
  "index_of Q [] = None"
| "index_of Q (x # xs) = (if Q x then Some 0 else map_option Suc (index_of Q xs))"

definition inclusionProof :: "platform \<Rightarrow> ustr \<Rightarrow> reviewHead list \<Rightarrow> trans_error + merkleProof" where
  "inclusionProof P rid heads =
     (if \<not> is_review_id rid then Inl Type_error
      else sbind (validateAndSortHeads heads) (\<lambda>ordered.
        case index_of (\<lambda>h. hd_review h = rid) ordered of
          None \<Rightarrow> Inl Range_error
        | Some index \<Rightarrow> sbind (smap (hashReviewHeadLeaf P) ordered) (\<lambda>leaves.
            Inr \<lparr>mp_review = rid, leaf_index = index, tree_size = length ordered, siblings = proof_loop P leaves index\<rparr>)))"

section \<open>The head of a review chain\<close>

record chainEvent =
  ce_review :: ustr
  ce_id :: ustr
  ce_seq :: int

definition REVIEW_LOG_LEAF_DOMAIN :: bytes where "REVIEW_LOG_LEAF_DOMAIN = utf8 (lit ''codeattest:v0:review-log-leaf'')"
definition REVIEW_LOG_HEAD_DOMAIN :: bytes where "REVIEW_LOG_HEAD_DOMAIN = utf8 (lit ''codeattest:v0:review-log-head'')"
definition REVIEW_LOG_EMPTY_DOMAIN :: bytes where "REVIEW_LOG_EMPTY_DOMAIN = utf8 (lit ''codeattest:v0:review-log-empty'')"
definition MAX_REVIEW_EVENTS :: nat where "MAX_REVIEW_EVENTS = 10000"

definition chain_leaf_bytes :: "int \<Rightarrow> ustr \<Rightarrow> bytes" where
  "chain_leaf_bytes n i = REVIEW_LOG_LEAF_DOMAIN @ uint64_be n @ utf8 i"

definition chain_head_bytes :: "platform \<Rightarrow> bytes option \<Rightarrow> int \<Rightarrow> ustr \<Rightarrow> bytes" where
  "chain_head_bytes P head n i =
     REVIEW_LOG_HEAD_DOMAIN @ (case head of None \<Rightarrow> [] | Some h \<Rightarrow> h) @ sha256 P (chain_leaf_bytes n i)"

definition assertReviewEventChainInput :: "chainEvent \<Rightarrow> trans_error + unit" where
  "assertReviewEventChainInput e =
     (if \<not> is_review_id (ce_review e) then Inl Type_error
      else if \<not> is_sha256_id (ce_id e) then Inl Type_error
      else if \<not> (\<bar>ce_seq e\<bar> \<le> MAX_SAFE_INTEGER) \<or> ce_seq e < 0 then Inl Range_error
      else Inr ())"

fun chain_loop_head :: "platform \<Rightarrow> ustr option \<Rightarrow> int option \<Rightarrow> bytes option \<Rightarrow> chainEvent list \<Rightarrow> trans_error + bytes option" where
  "chain_loop_head P rid previousSequence head [] = Inr head"
| "chain_loop_head P rid previousSequence head (e # es) =
     sbind (assertReviewEventChainInput e) (\<lambda>_.
       let rid = (case rid of None \<Rightarrow> Some (ce_review e) | Some r \<Rightarrow> Some r) in
       if Some (ce_review e) \<noteq> rid then Inl Type_error
       else if Some (ce_seq e) = previousSequence then Inl Type_error
       else chain_loop_head P rid (Some (ce_seq e)) (Some (sha256 P (chain_head_bytes P head (ce_seq e) (ce_id e)))) es)"

definition computeReviewChainHead :: "platform \<Rightarrow> chainEvent list \<Rightarrow> trans_error + ustr" where
  "computeReviewChainHead P events =
     (if length events > MAX_REVIEW_EVENTS then Inl Range_error
      else if events = [] then Inr (to_hex (sha256 P REVIEW_LOG_EMPTY_DOMAIN))
      else sbind (chain_loop_head P None None None (sort_key ce_seq events)) (\<lambda>head.
        Inr (case head of Some h \<Rightarrow> to_hex h | None \<Rightarrow> to_hex (sha256 P REVIEW_LOG_EMPTY_DOMAIN))))"

section \<open>Verification by a client\<close>

datatype chainVerification = Chain_verified | Invalid_events | Invalid_claimed_head | Head_mismatch

datatype inclusionVerification = Included | Invalid_review_head | Invalid_proof | Invalid_merkle_root | Root_mismatch

datatype checkpointVerification = Checkpoint_verified | Checkpoint_schema_invalid | Identity_mismatch

definition hashesEqual :: "ustr \<Rightarrow> ustr \<Rightarrow> bool" where
  "hashesEqual left right \<longleftrightarrow> is_sha256_hex left \<and> is_sha256_hex right \<and> of_hex left = of_hex right"

fun own_keys :: "jsval \<Rightarrow> ustr list" where
  "own_keys (JObj kvs) = map fst kvs"
| "own_keys _ = []"

definition isPlainRecordWithExactKeys :: "jsval \<Rightarrow> string list \<Rightarrow> bool" where
  "isPlainRecordWithExactKeys v expected \<longleftrightarrow>
     is_record v \<and> length (own_keys v) = length expected \<and> list_all (\<lambda>k. k \<in> set (map lit expected)) (own_keys v)"

definition isReviewHead :: "jsval \<Rightarrow> bool" where
  "isReviewHead v \<longleftrightarrow>
     isPlainRecordWithExactKeys v [''review_id'', ''head_hash''] \<and>
     is_string (field v ''review_id'') \<and> is_review_id (the_str (field v ''review_id'')) \<and>
     is_string (field v ''head_hash'') \<and> is_sha256_hex (the_str (field v ''head_hash''))"

definition isSibling :: "jsval \<Rightarrow> bool" where
  "isSibling v \<longleftrightarrow>
     isPlainRecordWithExactKeys v [''position'', ''hash''] \<and>
     (field v ''position'' = jstr ''left'' \<or> field v ''position'' = jstr ''right'') \<and>
     is_string (field v ''hash'') \<and> is_sha256_hex (the_str (field v ''hash''))"

definition isMerkleProof :: "jsval \<Rightarrow> bool" where
  "isMerkleProof v \<longleftrightarrow>
     isPlainRecordWithExactKeys v [''review_id'', ''leaf_index'', ''tree_size'', ''siblings''] \<and>
     is_string (field v ''review_id'') \<and> is_review_id (the_str (field v ''review_id'')) \<and>
     is_safe_integer (field v ''leaf_index'') \<and> is_safe_integer (field v ''tree_size'') \<and>
     \<not> (the_int (field v ''leaf_index'') < 0 \<or> the_int (field v ''tree_size'') \<le> 0 \<or>
        the_int (field v ''leaf_index'') \<ge> the_int (field v ''tree_size'')) \<and>
     is_array (field v ''siblings'') \<and> length (the_array (field v ''siblings'')) \<le> 53 \<and>
     list_all isSibling (the_array (field v ''siblings''))"

text \<open>The loop of the verifier returns the root it arrives at and the siblings it did not use; \<open>None\<close> is
  a missing sibling or one on the wrong side.\<close>

definition sibling_side :: "jsval \<Rightarrow> side" where
  "sibling_side v = (if field v ''position'' = jstr ''left'' then On_left else On_right)"

function verify_loop :: "platform \<Rightarrow> bytes \<Rightarrow> nat \<Rightarrow> nat \<Rightarrow> (side \<times> ustr) list \<Rightarrow> (bytes \<times> (side \<times> ustr) list) option" where
  "verify_loop P node index width sibs =
     (if width > 1 then
        (let hasLeftSibling = (index mod 2 = 1);
             hasRightSibling = (\<not> hasLeftSibling \<and> index + 1 < width) in
         if hasLeftSibling \<or> hasRightSibling then
           (case sibs of
              [] \<Rightarrow> None
            | (position, hash) # sibs' \<Rightarrow>
                if position \<noteq> (if hasLeftSibling then On_left else On_right) then None
                else verify_loop P (if hasLeftSibling then sha256 P (1 # of_hex hash @ node) else sha256 P (1 # node @ of_hex hash))
                       (index div 2) ((width + 1) div 2) sibs')
         else verify_loop P node (index div 2) ((width + 1) div 2) sibs)
      else Some (node, sibs))"
  by auto
termination
  by (relation "measure (\<lambda>(P, node, index, width, sibs). width)") auto

declare verify_loop.simps [simp del]

definition verifyInclusionProof :: "platform \<Rightarrow> jsval \<Rightarrow> jsval \<Rightarrow> jsval \<Rightarrow> inclusionVerification" where
  "verifyInclusionProof P reviewHead mproof merkleRoot =
     (if \<not> isReviewHead reviewHead then Invalid_review_head
      else if \<not> is_string merkleRoot \<or> \<not> is_sha256_hex (the_str merkleRoot) then Invalid_merkle_root
      else if \<not> isMerkleProof mproof \<or> field mproof ''review_id'' \<noteq> field reviewHead ''review_id'' then Invalid_proof
      else
        (case leaf_bytes P \<lparr>hd_review = the_str (field reviewHead ''review_id''), hd_hash = the_str (field reviewHead ''head_hash'')\<rparr> of
           Inl _ \<Rightarrow> Invalid_proof
         | Inr leaf \<Rightarrow>
             (case verify_loop P (sha256 P leaf) (nat (the_int (field mproof ''leaf_index''))) (nat (the_int (field mproof ''tree_size'')))
                     (map (\<lambda>s. (sibling_side s, the_str (field s ''hash''))) (the_array (field mproof ''siblings''))) of
                None \<Rightarrow> Invalid_proof
              | Some (node, rest) \<Rightarrow>
                  if rest \<noteq> [] then Invalid_proof
                  else if hashesEqual (to_hex node) (the_str merkleRoot) then Included else Root_mismatch)))"

definition verifyCheckpointIdentity :: "('a review_env_scheme) \<Rightarrow> jsval \<Rightarrow> checkpointVerification" where
  "verifyCheckpointIdentity E checkpoint =
     (if \<not> schema_valid E ''urn:codeattest:protocol:v0:log-checkpoint'' checkpoint then Checkpoint_schema_invalid
      else if \<not> is_record checkpoint \<or> field checkpoint ''identity_input_excludes'' = JUndef then Checkpoint_schema_invalid
      else
        (case recomputeExcludedFieldIdentity (plat E) checkpoint (lit ''checkpoint_id'') None of
           Inl _ \<Rightarrow> Checkpoint_schema_invalid
         | Inr expected \<Rightarrow>
             (case expected of
                Some i \<Rightarrow> if field checkpoint ''checkpoint_id'' = JStr i then Checkpoint_verified else Identity_mismatch
              | None \<Rightarrow> Identity_mismatch)))"

fun collect_loop :: "('a review_env_scheme) \<Rightarrow> jsval option \<Rightarrow> jsval list \<Rightarrow> chainEvent list option" where
  "collect_loop E rid [] = Some []"
| "collect_loop E rid (event # events) =
     (if \<not> is_record event then None
      else if \<not> schema_valid E review_event_schema event then None
      else if \<not> is_sequence_number (field event ''sequence_number'') then None
      else if \<not> is_string (field event ''event_id'') \<or> \<not> is_sha256_id (the_str (field event ''event_id'')) then None
      else if \<not> is_string (field event ''review_id'') \<or> \<not> is_review_id (the_str (field event ''review_id'')) then None
      else if (case rid of None \<Rightarrow> False | Some r \<Rightarrow> field event ''review_id'' \<noteq> r) then None
      else if recomputeExcludedFieldIdentity (plat E) event (lit ''event_id'') None \<noteq> Inr (Some (the_str (field event ''event_id''))) then None
      else map_option (\<lambda>es. \<lparr>ce_review = the_str (field event ''review_id''), ce_id = the_str (field event ''event_id''),
                              ce_seq = the_int (field event ''sequence_number'')\<rparr> # es)
             (collect_loop E (Some (field event ''review_id'')) events))"

text \<open>An array has no holes and no own properties beside its elements in the data type, so the two
  checks of its keys pass.\<close>

text \<open>The verifier writes the hashed bytes with its own copies of the three domain strings, not with
  those of the server; \<open>verifier_chain_value\<close> below is the proof that the two recipes are equal.\<close>

definition VERIFY_LEAF_DOMAIN :: ustr where "VERIFY_LEAF_DOMAIN = lit ''codeattest:v0:review-log-leaf''"
definition VERIFY_HEAD_DOMAIN :: ustr where "VERIFY_HEAD_DOMAIN = lit ''codeattest:v0:review-log-head''"
definition VERIFY_EMPTY_DOMAIN :: ustr where "VERIFY_EMPTY_DOMAIN = lit ''codeattest:v0:review-log-empty''"
definition VERIFY_MAX_REVIEW_EVENTS :: nat where "VERIFY_MAX_REVIEW_EVENTS = 10000"

definition verify_leaf :: "platform \<Rightarrow> chainEvent \<Rightarrow> bytes" where
  "verify_leaf P e = sha256 P (concat [utf8 VERIFY_LEAF_DOMAIN, uint64_be (ce_seq e), utf8 (ce_id e)])"

fun verify_head :: "platform \<Rightarrow> bytes option \<Rightarrow> chainEvent \<Rightarrow> bytes" where
  "verify_head P None e = sha256 P (concat [utf8 VERIFY_HEAD_DOMAIN, verify_leaf P e])"
| "verify_head P (Some head) e = sha256 P (concat [utf8 VERIFY_HEAD_DOMAIN, head, verify_leaf P e])"

definition recomputeReviewChainHead :: "('a review_env_scheme) \<Rightarrow> jsval \<Rightarrow> ustr option" where
  "recomputeReviewChainHead E events =
     (if \<not> is_array events \<or> length (the_array events) > VERIFY_MAX_REVIEW_EVENTS then None
      else
        (case collect_loop E None (the_array events) of
           None \<Rightarrow> None
         | Some es \<Rightarrow>
             (let ordered = sort_key ce_seq es in
              if \<not> distinct_adj (map ce_seq ordered) then None
              else if ordered = [] then Some (to_hex (sha256 (plat E) (utf8 VERIFY_EMPTY_DOMAIN)))
              else map_option to_hex
                (foldl (\<lambda>head e. Some (verify_head (plat E) head e)) None ordered))))"

definition verifyReviewChainHead :: "('a review_env_scheme) \<Rightarrow> jsval \<Rightarrow> jsval \<Rightarrow> chainVerification" where
  "verifyReviewChainHead E events claimedHead =
     (if \<not> is_string claimedHead \<or> \<not> is_sha256_hex (the_str claimedHead) then Invalid_claimed_head
      else
        (case recomputeReviewChainHead E events of
           None \<Rightarrow> Invalid_events
         | Some computed \<Rightarrow> if hashesEqual computed (the_str claimedHead) then Chain_verified else Head_mismatch))"

section \<open>Publication\<close>

record transparencyCheckpointRecord =
  checkpoint_id :: ustr
  tc_root :: ustr
  tc_size :: jsnum
  published_at :: ustr

text \<open>The anchor is a port: storing a record returns whatever the anchor answers (\<open>None\<close> when the call
  throws), reading one returns a record or nothing. Both may change its state.\<close>

record 'a anchor_port =
  an_put :: "'a \<Rightarrow> transparencyCheckpointRecord \<Rightarrow> 'a \<times> jsval option"
  an_get :: "'a \<Rightarrow> ustr \<Rightarrow> 'a \<times> transparencyCheckpointRecord option option"

definition assertValidCheckpoint :: "ustr \<Rightarrow> jsnum \<Rightarrow> bool" where
  "assertValidCheckpoint root treeSize \<longleftrightarrow> is_sha256_hex root \<and> (case treeSize of NInt i \<Rightarrow> i \<ge> 0 | _ \<Rightarrow> False)"

definition checkpointId :: "platform \<Rightarrow> ustr \<Rightarrow> jsnum \<Rightarrow> ustr \<Rightarrow> trans_error + ustr" where
  "checkpointId P root treeSize publishedAt =
     (case canonicalizeProtocolJson P
        (JObj [(lit ''merkle_root'', JStr root), (lit ''published_at'', JStr publishedAt), (lit ''tree_size'', JNum treeSize)]) of
        Inl e \<Rightarrow> Inl (Canonical_error e)
      | Inr t \<Rightarrow> Inr (to_hex (sha256 P (utf8 t))))"

definition RFC3339_PATTERN :: string where
  "RFC3339_PATTERN = ''^~d{4}-~d{2}-~d{2}T~d{2}:~d{2}:~d{2}(?:~.~d{1,9})?(?:Z|[+-]~d{2}:~d{2})$''"

definition publishCheckpoint ::
    "platform \<Rightarrow> 'a anchor_port option \<Rightarrow> 'a \<Rightarrow> ustr \<Rightarrow> jsnum \<Rightarrow> ustr \<Rightarrow> 'a \<times> (trans_error + transparencyCheckpointRecord \<times> ustr)" where
  "publishCheckpoint P anchor a root treeSize publishedAt =
     (case anchor of
        None \<Rightarrow> (a, Inl Anchor_not_configured)
      | Some A \<Rightarrow>
          if \<not> assertValidCheckpoint root treeSize then (a, Inl Type_error)
          else if \<not> rx_test fl_u (re RFC3339_PATTERN) publishedAt then (a, Inl Type_error)
          else
            (case checkpointId P root treeSize publishedAt of
               Inl e \<Rightarrow> (a, Inl e)
             | Inr i \<Rightarrow>
                 (let record = \<lparr>checkpoint_id = i, tc_root = root, tc_size = treeSize, published_at = publishedAt\<rparr> in
                  case an_put A a record of
                    (a, None) \<Rightarrow> (a, Inl Anchor_threw)
                  | (a, Some anchor_ref) \<Rightarrow>
                      if \<not> is_string anchor_ref \<or> the_str anchor_ref = [] then (a, Inl No_anchor_reference)
                      else (a, Inr (record, the_str anchor_ref)))))"

datatype publishedCheck = Read_back transparencyCheckpointRecord | Not_found | Content_mismatch | Corrupt_record

definition verifyPublishedCheckpoint ::
    "platform \<Rightarrow> 'a anchor_port option \<Rightarrow> 'a \<Rightarrow> transparencyCheckpointRecord \<Rightarrow> 'a \<times> (trans_error + publishedCheck)" where
  "verifyPublishedCheckpoint P anchor a expected =
     (case anchor of
        None \<Rightarrow> (a, Inl Anchor_not_configured)
      | Some A \<Rightarrow>
          (case an_get A a (checkpoint_id expected) of
             (a, None) \<Rightarrow> (a, Inl Anchor_threw)
           | (a, Some None) \<Rightarrow> (a, Inr Not_found)
           | (a, Some (Some fetched)) \<Rightarrow>
               (case checkpointId P (tc_root fetched) (tc_size fetched) (published_at fetched) of
                  Inl e \<Rightarrow> (a, Inl e)
                | Inr recomputed \<Rightarrow>
                    if recomputed \<noteq> checkpoint_id fetched then (a, Inr Corrupt_record)
                    else if checkpoint_id fetched \<noteq> checkpoint_id expected \<or> tc_root fetched \<noteq> tc_root expected \<or>
                            tc_size fetched \<noteq> tc_size expected \<or> published_at fetched \<noteq> published_at expected
                    then (a, Inr Content_mismatch)
                    else (a, Inr (Read_back fetched)))))"

section \<open>A checkpoint run\<close>

datatype checkpointRun = Published ustr ustr nat | Unchanged ustr nat

definition latest_publication :: "(transparencyCheckpointRecord \<times> ustr) list \<Rightarrow> (transparencyCheckpointRecord \<times> ustr) option" where
  "latest_publication published = (if published = [] then None else Some (last published))"

definition record_publication ::
    "(transparencyCheckpointRecord \<times> ustr) list \<Rightarrow> transparencyCheckpointRecord \<times> ustr \<Rightarrow> (transparencyCheckpointRecord \<times> ustr) list" where
  "record_publication published publication = published @ [publication]"

definition runTransparencyCheckpoint ::
    "platform \<Rightarrow> 'a anchor_port option \<Rightarrow> 'a \<Rightarrow> reviewHead list \<Rightarrow> (transparencyCheckpointRecord \<times> ustr) list \<Rightarrow> ustr
     \<Rightarrow> 'a \<times> (transparencyCheckpointRecord \<times> ustr) list \<times> (trans_error + checkpointRun)" where
  "runTransparencyCheckpoint P anchor a heads published now =
     (case anchor of
        None \<Rightarrow> (a, published, Inl Anchor_not_configured)
      | Some A \<Rightarrow>
          (case computeCheckpoint P heads of
             Inl e \<Rightarrow> (a, published, Inl e)
           | Inr checkpoint \<Rightarrow>
               (let fresh =
                  (case publishCheckpoint P anchor a (merkle_root checkpoint) (NInt (int (cp_size checkpoint))) now of
                     (a, Inl e) \<Rightarrow> (a, published, Inl e)
                   | (a, Inr (record, anchor_ref)) \<Rightarrow>
                       (case verifyPublishedCheckpoint P anchor a record of
                          (a, Inl e) \<Rightarrow> (a, published, Inl e)
                        | (a, Inr (Read_back _)) \<Rightarrow>
                            (a, record_publication published (record, anchor_ref),
                             Inr (Published (checkpoint_id record) anchor_ref (cp_size checkpoint)))
                        | (a, Inr _) \<Rightarrow> (a, published, Inl Not_read_back))) in
                case latest_publication published of
                  None \<Rightarrow> fresh
                | Some (latest, _) \<Rightarrow>
                    if tc_root latest = merkle_root checkpoint \<and> tc_size latest = NInt (int (cp_size checkpoint)) then
                      (case verifyPublishedCheckpoint P anchor a latest of
                         (a, Inl e) \<Rightarrow> (a, published, Inl e)
                       | (a, Inr (Read_back _)) \<Rightarrow> (a, published, Inr (Unchanged (checkpoint_id latest) (cp_size checkpoint)))
                       | (a, Inr _) \<Rightarrow> (a, published, Inl Not_read_back))
                    else fresh)))"

section \<open>Proofs verify\<close>

abbreviation digests :: "bytes list \<Rightarrow> bool" where
  "digests level \<equiv> \<forall>x \<in> set level. byte_string x \<and> length x = 32"

lemma next_set: "set (nextMerkleLevel P level) \<subseteq> set level \<union> range (sha256 P)"
  by (induction P level rule: nextMerkleLevel.induct) auto

lemma next_digests: "sha256_digests P \<Longrightarrow> digests level \<Longrightarrow> digests (nextMerkleLevel P level)"
  using next_set [of P level] unfolding sha256_digests_def by blast

lemma next_nth:
  "i < length level \<Longrightarrow> nextMerkleLevel P level ! (i div 2) =
     (if i mod 2 = 1 then sha256 P (1 # level ! (i - 1) @ level ! i)
      else if i + 1 < length level then sha256 P (1 # level ! i @ level ! (i + 1)) else level ! i)"
proof (induction P level arbitrary: i rule: nextMerkleLevel.induct)
  case (3 P l r rest)
  show ?case
  proof (cases "i < 2")
    case True
    then have "i = 0 \<or> i = 1" by auto
    then show ?thesis by auto
  next
    case False
    define j where "j = i - 2"
    have i: "i = j + 2" using False by (simp add: j_def)
    have "(l # r # rest) ! (j + 2) = rest ! j" "(l # r # rest) ! (j + 2 + 1) = rest ! (j + 1)" by simp_all
    moreover have "(l # r # rest) ! (j + 2 - 1) = rest ! (j - 1)" if "j mod 2 = 1"
      using that by (cases j) auto
    ultimately show ?thesis using "3.IH" [of j] "3.prems" by (simp add: i)
  qed
qed auto

lemma hex_digest: "byte_string x \<Longrightarrow> length x = 32 \<Longrightarrow> is_sha256_hex (to_hex x)"
  by (simp add: is_sha256_hex_def length_to_hex to_hex_lower)

lemma proof_loop_verifies:
  "sha256_digests P \<Longrightarrow> digests level \<Longrightarrow> i < length level \<Longrightarrow>
     verify_loop P (level ! i) i (length level) (proof_loop P level i) = Some (hd (merkle_loop P level), [])"
proof (induction P level arbitrary: i rule: merkle_loop.induct)
  case (1 P level)
  show ?case
  proof (cases "length level > 1")
    case False
    then have "level = [level ! 0]" "i = 0" using "1.prems" by (cases level; simp)+
    then show ?thesis
      by (metis (no_types) False hd_conv_nth list.distinct(1) merkle_loop.simps proof_loop.simps verify_loop.simps)
  next
    case True
    let ?next = "nextMerkleLevel P level"
    have l: "length ?next = (length level + 1) div 2" by (rule length_nextMerkleLevel)
    have "i div 2 < length ?next" using "1.prems"(3) l by linarith
    then have IH: "verify_loop P (?next ! (i div 2)) (i div 2) ((length level + 1) div 2) (proof_loop P ?next (i div 2)) =
        Some (hd (merkle_loop P ?next), [])"
      using "1.IH" [OF True "1.prems"(1) next_digests [OF "1.prems"(1,2)]] l by simp
    have h: "of_hex (to_hex (level ! j)) = level ! j" if "j < length level" for j
      using "1.prems"(2) that by (simp add: of_hex_to_hex)
    have m: "merkle_loop P level = merkle_loop P ?next" using True by (subst merkle_loop.simps) simp
    have p: "proof_loop P level i =
        (if i mod 2 = 1 then [(On_left, to_hex (level ! (i - 1)))] else if i + 1 < length level then [(On_right, to_hex (level ! (i + 1)))] else []) @
        proof_loop P ?next (i div 2)"
      using True "1.prems"(3) by (subst proof_loop.simps) (auto simp: Let_def)
    show ?thesis
      unfolding m p using True IH "1.prems"(3) next_nth [OF "1.prems"(3), of P] h
      by (subst verify_loop.simps) (auto simp: Let_def)
  qed
qed

lemma proof_loop_shape:
  "sha256_digests P \<Longrightarrow> digests level \<Longrightarrow> length level \<le> 2 ^ k \<Longrightarrow>
     length (proof_loop P level i) \<le> k \<and> (\<forall>(s, x) \<in> set (proof_loop P level i). is_sha256_hex x)"
proof (induction P level i arbitrary: k rule: proof_loop.induct)
  case (1 P level i)
  show ?case
  proof (cases "length level > 1")
    case True
    then obtain j where k: "k = Suc j" using "1.prems"(3) by (cases k) auto
    have "length (nextMerkleLevel P level) \<le> 2 ^ j" using "1.prems"(3) by (simp add: length_nextMerkleLevel k)
    from "1.IH" [OF True refl refl "1.prems"(1) next_digests [OF "1.prems"(1,2)] this]
    show ?thesis using True k "1.prems"(2) by (subst (1 2) proof_loop.simps) (auto simp: Let_def hex_digest)
  qed (subst (1 2) proof_loop.simps, simp)
qed

lemma index_of_Some: "index_of Q xs = Some i \<Longrightarrow> i < length xs \<and> Q (xs ! i)"
  by (induction xs arbitrary: i) (auto split: if_splits)

lemma merkle_root_digest:
  "sha256_digests P \<Longrightarrow> digests level \<Longrightarrow> level \<noteq> [] \<Longrightarrow>
     byte_string (hd (merkle_loop P level)) \<and> length (hd (merkle_loop P level)) = 32"
proof (induction P level rule: merkle_loop.induct)
  case (1 P level)
  show ?case
  proof (cases "length level > 1")
    case True
    then have "nextMerkleLevel P level \<noteq> []" using length_nextMerkleLevel [of P level] by auto
    with "1.IH" [OF True "1.prems"(1) next_digests [OF "1.prems"(1,2)]] show ?thesis
      using True by (subst (1 2) merkle_loop.simps) simp
  next
    case False
    then have "merkle_loop P level = level" by (subst merkle_loop.simps) simp
    with "1.prems" show ?thesis by simp
  qed
qed

text \<open>The proof as the JSON the verifier receives.\<close>

definition sibling_json :: "side \<times> ustr \<Rightarrow> jsval" where
  "sibling_json s = JObj [(lit ''position'', jstr (case fst s of On_left \<Rightarrow> ''left'' | On_right \<Rightarrow> ''right'')), (lit ''hash'', JStr (snd s))]"

definition proof_json :: "merkleProof \<Rightarrow> jsval" where
  "proof_json p = JObj [(lit ''review_id'', JStr (mp_review p)), (lit ''leaf_index'', jint (int (leaf_index p))),
     (lit ''tree_size'', jint (int (tree_size p))), (lit ''siblings'', JArr (map sibling_json (siblings p)))]"

lemma sibling_json_fields:
  "sibling_side (sibling_json s) = fst s" "field (sibling_json s) ''hash'' = JStr (snd s)"
  "isSibling (sibling_json s) \<longleftrightarrow> is_sha256_hex (snd s)"
  by (cases "fst s"; simp add: sibling_side_def sibling_json_def isSibling_def isPlainRecordWithExactKeys_def)+

lemma isMerkleProof_json:
  "isMerkleProof (proof_json p) \<longleftrightarrow>
     is_review_id (mp_review p) \<and> int (tree_size p) \<le> MAX_SAFE_INTEGER \<and> leaf_index p < tree_size p \<and>
     length (siblings p) \<le> 53 \<and> list_all (is_sha256_hex \<circ> snd) (siblings p)"
  by (auto simp: isMerkleProof_def proof_json_def isPlainRecordWithExactKeys_def list_all_iff sibling_json_fields)

lemma isReviewHead_json: "isReviewHead (head_json h) \<longleftrightarrow> is_review_id (hd_review h) \<and> is_sha256_hex (hd_hash h)"
  by (simp add: isReviewHead_def head_json_def isPlainRecordWithExactKeys_def)

lemma heads_loop_valid: "heads_loop prev hs \<Longrightarrow> h \<in> set hs \<Longrightarrow> is_review_id (hd_review h) \<and> is_sha256_hex (hd_hash h)"
  by (induction prev hs rule: heads_loop.induct) auto

lemma validated_heads:
  assumes "validateAndSortHeads heads = Inr hs"
  shows "hs = sort_key hd_review heads" "heads_loop None hs" "set hs = set heads"
  using assms by (auto simp: validateAndSortHeads_def Let_def split: if_splits)

lemma leaf_digests:
  assumes "sha256_digests P" "smap (hashReviewHeadLeaf P) hs = Inr leaves"
  shows "digests leaves" "length leaves = length hs" "i < length hs \<Longrightarrow> hashReviewHeadLeaf P (hs ! i) = Inr (leaves ! i)"
proof -
  have l: "list_all2 (\<lambda>h x. hashReviewHeadLeaf P h = Inr x) hs leaves" using assms(2) by (simp add: smap_Inr_list_all2)
  then show "length leaves = length hs" "i < length hs \<Longrightarrow> hashReviewHeadLeaf P (hs ! i) = Inr (leaves ! i)"
    by (auto simp: list_all2_conv_all_nth)
  have "\<exists>bs. x = sha256 P bs" if "x \<in> set leaves" for x
  proof -
    obtain j where "j < length leaves" "x = leaves ! j" using \<open>x \<in> set leaves\<close> by (auto simp: in_set_conv_nth)
    then obtain h where "hashReviewHeadLeaf P h = Inr x" using list_all2_nthD2 [OF l] by blast
    then show ?thesis by (cases "leaf_bytes P h") (auto simp: hashReviewHeadLeaf_def)
  qed
  then show "digests leaves" using assms(1) unfolding sha256_digests_def by metis
qed

lemma sorted_ids_strict: "heads_loop prev hs \<Longrightarrow> sorted (map hd_review hs) \<Longrightarrow> distinct (map hd_review hs) \<and> (\<forall>q. prev = Some q \<longrightarrow> (\<forall>h \<in> set hs. q \<le> hd_review h) \<longrightarrow> q \<notin> hd_review ` set hs)"
proof (induction prev hs rule: heads_loop.induct)
  case (2 prev h hs)
  then have IH: "distinct (map hd_review hs)" "hd_review h \<notin> hd_review ` set hs" by auto
  moreover have "q \<notin> hd_review ` set (h # hs)" if "prev = Some q" "\<forall>x \<in> set (h # hs). q \<le> hd_review x" for q
  proof -
    have "q \<noteq> hd_review h" using "2.prems"(1) that by auto
    moreover have "hd_review h < hd_review x" if "x \<in> set hs" for x
      using "2.prems"(2) IH(2) that by (metis image_eqI list.simps(9) order_less_le set_map sorted_simps(2))
    ultimately show ?thesis using that(2) by force
  qed
  ultimately show ?case by auto
qed simp

lemma index_of_None: "index_of Q xs = None \<longleftrightarrow> (\<forall>x \<in> set xs. \<not> Q x)"
  by (induction xs) auto

text \<open>Identifiers and digests are ASCII.\<close>

lemma lower_hex_ascii: "list_all is_lower_hex s \<Longrightarrow> list_all (\<lambda>c. c < 128) s"
  by (auto simp: is_lower_hex_def list_all_iff)

lemma sha256_hex_clean: "is_sha256_hex s \<Longrightarrow> clean_text s"
  by (simp add: is_sha256_hex_def lower_hex_ascii clean_ascii)

lemma prefixed_clean:
  assumes "take 7 s = lit p" "list_all (\<lambda>c. c < 128) (lit p)" "list_all (\<lambda>c. c < 128) (drop 7 s)"
  shows "clean_text s"
  using assms by (metis append_take_drop_id clean_ascii list_all_append)

lemma sha256_id_clean: "is_sha256_id s \<Longrightarrow> clean_text s"
proof (rule prefixed_clean)
  assume s: "is_sha256_id s"
  then show "take 7 s = lit ''sha256:''" by (simp add: is_sha256_id_def starts_with_def numeral_eq_Suc)
  show "list_all (\<lambda>c. c < 128) (lit ''sha256:'')" by code_simp
  show "list_all (\<lambda>c. c < 128) (drop 7 s)" using s by (simp add: is_sha256_id_def is_sha256_hex_def lower_hex_ascii)
qed

lemma review_id_clean: "is_review_id s \<Longrightarrow> clean_text s"
proof (rule prefixed_clean)
  assume s: "is_review_id s"
  then show "take 7 s = lit ''review:''" by (simp add: is_typed_id_def starts_with_def numeral_eq_Suc)
  show "list_all (\<lambda>c. c < 128) (lit ''review:'')" by code_simp
  have "is_id_suffix (drop 7 s)" using s by (simp add: is_typed_id_def eval_nat_numeral)
  then show "list_all (\<lambda>c. c < 128) (drop 7 s)" by (auto simp: is_id_suffix_def is_id_char_def is_id_start_def list_all_iff)
qed

text \<open>A checkpoint of valid, different heads always exists.\<close>

lemma valid_leaf: "is_review_id (hd_review h) \<and> is_sha256_hex (hd_hash h) \<Longrightarrow> \<exists>x. hashReviewHeadLeaf P h = Inr x"
proof -
  assume h: "is_review_id (hd_review h) \<and> is_sha256_hex (hd_hash h)"
  then have "\<not> hasUnpairedSurrogate (hd_review h)" "\<not> hasUnpairedSurrogate (hd_hash h)"
    using review_id_clean sha256_hex_clean by (simp_all add: clean_text_def)
  moreover have "\<not> hasUnpairedSurrogate (lit ''review_id'')" "\<not> hasUnpairedSurrogate (lit ''head_hash'')"
    "lit ''head_hash'' < lit ''review_id''" by code_simp+
  ultimately show ?thesis
    by (simp add: hashReviewHeadLeaf_def leaf_bytes_def canonicalizeProtocolJson_def head_json_def encode.simps MAX_NODES_def MAX_DEPTH_def)
qed

lemma checkpoint_exists:
  assumes "heads_loop None (sort_key hd_review heads)"
  obtains cp where "computeCheckpoint P heads = Inr cp"
proof -
  have "\<forall>h \<in> set (sort_key hd_review heads). \<exists>x. hashReviewHeadLeaf P h = Inr x"
    using heads_loop_valid [OF assms] valid_leaf by blast
  then obtain f where "\<forall>h \<in> set (sort_key hd_review heads). hashReviewHeadLeaf P h = Inr (f h)" by metis
  from smap_total [OF this] that assms show ?thesis by (auto simp: computeCheckpoint_def validateAndSortHeads_def)
qed

lemma proof_exists:
  assumes "computeCheckpoint P heads = Inr cp" "h \<in> set heads"
  obtains p where "inclusionProof P (hd_review h) heads = Inr p"
proof -
  obtain hs leaves where v: "validateAndSortHeads heads = Inr hs" "smap (hashReviewHeadLeaf P) hs = Inr leaves"
    using assms(1) by (auto simp: computeCheckpoint_def)
  have "is_review_id (hd_review h)" "index_of (\<lambda>x. hd_review x = hd_review h) hs \<noteq> None"
    using heads_loop_valid validated_heads [OF v(1)] assms(2) by (auto simp: index_of_None)
  then show ?thesis using that v by (auto simp: inclusionProof_def)
qed

lemma proof_accepted:
  assumes "sha256_digests P" "computeCheckpoint P heads = Inr cp" "inclusionProof P (hd_review h) heads = Inr mproof"
    "h \<in> set heads" "int (length heads) \<le> MAX_SAFE_INTEGER"
  shows "verifyInclusionProof P (head_json h) (proof_json mproof) (JStr (merkle_root cp)) = Included"
proof -
  obtain hs leaves where v: "validateAndSortHeads heads = Inr hs" "smap (hashReviewHeadLeaf P) hs = Inr leaves"
    and cp: "merkle_root cp = to_hex (computeMerkleRoot P leaves)"
    using assms(2) by (auto simp: computeCheckpoint_def)
  note hs = validated_heads [OF v(1)]
  note lf = leaf_digests [OF assms(1) v(2)]
  obtain i where i: "index_of (\<lambda>x. hd_review x = hd_review h) hs = Some i" and r: "is_review_id (hd_review h)"
    and p: "mproof = \<lparr>mp_review = hd_review h, leaf_index = i, tree_size = length hs, siblings = proof_loop P leaves i\<rparr>"
    using assms(3) v by (auto simp: inclusionProof_def split: if_splits option.splits)
  have il: "i < length hs" "hd_review (hs ! i) = hd_review h" using index_of_Some [OF i] by auto
  have "distinct (map hd_review hs)" using sorted_ids_strict [OF hs(2)] hs(1) by simp
  then have hi: "hs ! i = h"
    using il assms(4) hs(3) by (metis in_set_conv_nth length_map nth_eq_iff_index_eq nth_map)
  obtain leaf where leaf: "leaf_bytes P h = Inr leaf" "leaves ! i = sha256 P leaf"
    using lf(3) [OF il(1)] hi by (auto simp: hashReviewHeadLeaf_def)
  have "length heads = length hs" using hs(1) by simp
  then have n: "length leaves \<le> 2 ^ 53" using assms(5) lf(2) by simp
  have ne: "leaves \<noteq> []" using il lf(2) by auto
  note vl = proof_loop_verifies [OF assms(1) lf(1), of i]
  have root: "computeMerkleRoot P leaves = hd (merkle_loop P leaves)" using ne by (simp add: computeMerkleRoot_def)
  have rd: "byte_string (hd (merkle_loop P leaves))" "length (hd (merkle_loop P leaves)) = 32"
    using merkle_root_digest [OF assms(1) lf(1) ne] by auto
  have m: "isMerkleProof (proof_json mproof)"
    unfolding isMerkleProof_json p using r il(1) assms(5) proof_loop_shape [OF assms(1) lf(1) n, of i] \<open>length heads = length hs\<close>
    by (auto simp: list_all_iff)
  have s: "map (\<lambda>s. (sibling_side s, the_str (field s ''hash''))) (the_array (field (proof_json mproof) ''siblings'')) = proof_loop P leaves i"
    by (simp add: proof_json_def p sibling_json_fields comp_def)
  have "isReviewHead (head_json h)" using heads_loop_valid [OF hs(2)] hs(3) assms(4) by (simp add: isReviewHead_json)
  moreover have "is_sha256_hex (merkle_root cp)" unfolding cp root using rd by (rule hex_digest)
  moreover have "field (proof_json mproof) ''leaf_index'' = jint (int i)" "field (proof_json mproof) ''tree_size'' = jint (int (length leaves))"
    "field (proof_json mproof) ''review_id'' = JStr (hd_review h)"
    by (simp_all add: proof_json_def p lf(2))
  moreover have "field (head_json h) ''review_id'' = JStr (hd_review h)" "field (head_json h) ''head_hash'' = JStr (hd_hash h)"
    by (simp_all add: head_json_def)
  moreover have "leaf_bytes P \<lparr>hd_review = hd_review h, hd_hash = hd_hash h\<rparr> = Inr leaf" using leaf(1) by (cases h) simp
  ultimately show ?thesis
    using m s vl leaf il(1) lf(2) by (simp add: verifyInclusionProof_def hashesEqual_def cp root)
qed

text \<open>C13: every inclusion proof that is handed out verifies. For the heads of a checkpoint and a review
  among them, the proof the server computes is accepted by the client's verifier against the Merkle
  root of the checkpoint, for any number of heads an array can have.\<close>

theorem inclusion_proof_verifies:
  assumes "sha256_digests P" "computeCheckpoint P heads = Inr cp" "inclusionProof P (hd_review h) heads = Inr mproof"
    "h \<in> set heads" "int (length heads) \<le> MAX_SAFE_INTEGER"
  shows "verifyInclusionProof P (head_json h) (proof_json mproof) (JStr (merkle_root cp)) = Included"
  using assms by (rule proof_accepted)

definition sample_head :: "string \<Rightarrow> reviewHead" where
  "sample_head s = \<lparr>hd_review = lit (''review:'' @ s), hd_hash = replicate 64 97\<rparr>"

definition sample_heads :: "reviewHead list" where
  "sample_heads = [sample_head ''ccc'', sample_head ''aaa'', sample_head ''bbb'']"

definition sample_checkpoint :: checkpointProjection where
  "sample_checkpoint = projr (computeCheckpoint sample_platform sample_heads)"

definition sample_proof :: merkleProof where
  "sample_proof = projr (inclusionProof sample_platform (lit ''review:bbb'') sample_heads)"

lemma sample_checkpoint_eq: "computeCheckpoint sample_platform sample_heads = Inr sample_checkpoint"
proof -
  have "heads_loop None (sort_key hd_review sample_heads)" by code_simp
  then obtain cp where "computeCheckpoint sample_platform sample_heads = Inr cp" by (rule checkpoint_exists)
  then show ?thesis by (simp add: sample_checkpoint_def)
qed

lemma sample_proof_eq: "inclusionProof sample_platform (hd_review (sample_head ''bbb'')) sample_heads = Inr sample_proof"
proof -
  obtain p where "inclusionProof sample_platform (lit ''review:bbb'') sample_heads = Inr p"
    using proof_exists [OF sample_checkpoint_eq, of "sample_head ''bbb''"] by (auto simp: sample_heads_def sample_head_def)
  then show ?thesis by (simp add: sample_proof_def sample_head_def)
qed

theorem inclusion_proof_verifies_witness:
  "verifyInclusionProof sample_platform (head_json (sample_head ''bbb'')) (proof_json sample_proof) (JStr (merkle_root sample_checkpoint)) = Included"
  by (rule inclusion_proof_verifies [OF sample_platform_digests sample_checkpoint_eq sample_proof_eq]) (simp_all add: sample_heads_def)

section \<open>What a verified proof shows\<close>

text \<open>The byte strings that are hashed: in the levels of the tree, for a whole checkpoint, and by the verifier.\<close>

fun level_inputs :: "bytes list \<Rightarrow> bytes list" where
  "level_inputs (left # right # rest) = (1 # left @ right) # level_inputs rest"
| "level_inputs _ = []"

function tree_inputs :: "platform \<Rightarrow> bytes list \<Rightarrow> bytes list" where
  "tree_inputs P level = (if length level > 1 then level_inputs level @ tree_inputs P (nextMerkleLevel P level) else [])"
  by auto
termination
  by (relation "measure (\<lambda>(P, level). length level)") (auto simp: length_nextMerkleLevel)

declare tree_inputs.simps [simp del]

definition leaf_inputs :: "platform \<Rightarrow> reviewHead list \<Rightarrow> bytes list" where
  "leaf_inputs P heads = concat (map (\<lambda>h. case leaf_bytes P h of Inr bs \<Rightarrow> [bs] | Inl _ \<Rightarrow> []) heads)"

definition checkpoint_inputs :: "platform \<Rightarrow> reviewHead list \<Rightarrow> bytes list" where
  "checkpoint_inputs P heads =
     (if heads = [] then [[]]
      else (let pre = leaf_inputs P (sort_key hd_review heads) in pre @ tree_inputs P (map (sha256 P) pre)))"

function loop_inputs :: "platform \<Rightarrow> bytes \<Rightarrow> nat \<Rightarrow> nat \<Rightarrow> (side \<times> ustr) list \<Rightarrow> bytes list" where
  "loop_inputs P node index width sibs =
     (if width > 1 then
        (if index mod 2 = 1 \<or> index + 1 < width then
           (case sibs of
              [] \<Rightarrow> []
            | (position, hash) # sibs' \<Rightarrow>
                (let input = (if index mod 2 = 1 then 1 # of_hex hash @ node else 1 # node @ of_hex hash) in
                 input # loop_inputs P (sha256 P input) (index div 2) ((width + 1) div 2) sibs'))
         else loop_inputs P node (index div 2) ((width + 1) div 2) sibs)
      else [])"
  by auto
termination
  by (relation "measure (\<lambda>(P, node, index, width, sibs). width)") auto

declare loop_inputs.simps [simp del]

definition proof_inputs :: "platform \<Rightarrow> jsval \<Rightarrow> jsval \<Rightarrow> bytes list" where
  "proof_inputs P head mproof =
     (case leaf_bytes P \<lparr>hd_review = the_str (field head ''review_id''), hd_hash = the_str (field head ''head_hash'')\<rparr> of
        Inl _ \<Rightarrow> []
      | Inr leaf \<Rightarrow> leaf # loop_inputs P (sha256 P leaf) (nat (the_int (field mproof ''leaf_index''))) (nat (the_int (field mproof ''tree_size'')))
          (map (\<lambda>s. (sibling_side s, the_str (field s ''hash''))) (the_array (field mproof ''siblings''))))"

text \<open>The values of all nodes of a tree.\<close>

function tree_nodes :: "platform \<Rightarrow> bytes list \<Rightarrow> bytes list" where
  "tree_nodes P level = (if length level > 1 then level @ tree_nodes P (nextMerkleLevel P level) else level)"
  by auto
termination
  by (relation "measure (\<lambda>(P, level). length level)") (auto simp: length_nextMerkleLevel)

declare tree_nodes.simps [simp del]

lemma level_node:
  "x \<in> set (nextMerkleLevel P level) \<Longrightarrow>
     x \<in> set level \<or> (\<exists>a b. 1 # a @ b \<in> set (level_inputs level) \<and> x = sha256 P (1 # a @ b) \<and> a \<in> set level \<and> b \<in> set level)"
  by (induction P level rule: nextMerkleLevel.induct) auto

lemma level_subset_nodes: "set level \<subseteq> set (tree_nodes P level)"
  by (subst tree_nodes.simps) auto

lemma tree_node_cases:
  "x \<in> set (tree_nodes P level) \<Longrightarrow>
     x \<in> set level \<or> (\<exists>a b. 1 # a @ b \<in> set (tree_inputs P level) \<and> x = sha256 P (1 # a @ b) \<and>
       a \<in> set (tree_nodes P level) \<and> b \<in> set (tree_nodes P level))"
proof (induction P level rule: tree_nodes.induct)
  case (1 P level)
  show ?case
  proof (cases "length level > 1")
    case False
    then show ?thesis using "1.prems" by (subst (asm) tree_nodes.simps) simp
  next
    case True
    let ?next = "nextMerkleLevel P level"
    have n: "set (tree_nodes P level) = set level \<union> set (tree_nodes P ?next)" using True by (subst tree_nodes.simps) simp
    have t: "set (tree_inputs P level) = set (level_inputs level) \<union> set (tree_inputs P ?next)" using True by (subst tree_inputs.simps) simp
    consider "x \<in> set level" | "x \<in> set (tree_nodes P ?next)" using "1.prems" n by blast
    then show ?thesis
    proof cases
      case 2
      from "1.IH" [OF True this] consider "x \<in> set ?next"
        | a b where "1 # a @ b \<in> set (tree_inputs P ?next)" "x = sha256 P (1 # a @ b)" "a \<in> set (tree_nodes P ?next)" "b \<in> set (tree_nodes P ?next)"
        by blast
      then show ?thesis
      proof cases
        case 1
        from level_node [OF this] show ?thesis unfolding n t by blast
      next
        case 2
        then show ?thesis unfolding n t by blast
      qed
    qed simp
  qed
qed

lemma tree_nodes_digests: "sha256_digests P \<Longrightarrow> digests level \<Longrightarrow> x \<in> set (tree_nodes P level) \<Longrightarrow> length x = 32"
proof -
  assume "sha256_digests P" "digests level" "x \<in> set (tree_nodes P level)"
  then show "length x = 32" using tree_node_cases [of x P level] unfolding sha256_digests_def by blast
qed

lemma root_in_nodes: "level \<noteq> [] \<Longrightarrow> hd (merkle_loop P level) \<in> set (tree_nodes P level)"
proof (induction P level rule: merkle_loop.induct)
  case (1 P level)
  show ?case
  proof (cases "length level > 1")
    case True
    then have "nextMerkleLevel P level \<noteq> []" using length_nextMerkleLevel [of P level] by auto
    from "1.IH" [OF True this] show ?thesis
      using True by (subst merkle_loop.simps, subst tree_nodes.simps) simp
  next
    case False
    then show ?thesis using "1.prems" by (subst merkle_loop.simps, subst tree_nodes.simps) simp
  qed
qed

text \<open>A parent in the tree has its children in the tree, or its two inputs collide.\<close>

lemma parent_in_tree:
  assumes "sha256_digests P" "level = map (sha256 P) pre" "\<forall>p \<in> set pre. \<exists>q. p = 0 # q"
    "sha256 P (1 # l @ r) \<in> set (tree_nodes P level)" "length l = 32"
  shows "l \<in> set (tree_nodes P level) \<and> r \<in> set (tree_nodes P level) \<or>
    (\<exists>x \<in> set (pre @ tree_inputs P level). sha256_collision P x (1 # l @ r))"
proof -
  have d: "digests level" using assms(1,2) unfolding sha256_digests_def by auto
  from tree_node_cases [OF assms(4)] consider "sha256 P (1 # l @ r) \<in> set level"
    | a b where "1 # a @ b \<in> set (tree_inputs P level)" "sha256 P (1 # l @ r) = sha256 P (1 # a @ b)"
        "a \<in> set (tree_nodes P level)" "b \<in> set (tree_nodes P level)" by blast
  then show ?thesis
  proof cases
    case 1
    then obtain p where "p \<in> set pre" "sha256 P (1 # l @ r) = sha256 P p" using assms(2) by auto
    moreover from this have "p \<noteq> 1 # l @ r" using assms(3) by fastforce
    ultimately show ?thesis by (auto simp: sha256_collision_def)
  next
    case 2
    have "length a = 32" using tree_nodes_digests [OF assms(1) d 2(3)] .
    then have "1 # a @ b = 1 # l @ r \<Longrightarrow> a = l \<and> b = r" using assms(5) by simp
    then show ?thesis using 2 by (auto simp: sha256_collision_def)
  qed
qed

lemma of_hex_length: "length (of_hex s) = length s div 2"
  by (induction s rule: of_hex.induct) auto

definition parent_input :: "bytes \<Rightarrow> nat \<Rightarrow> ustr \<Rightarrow> bytes" where
  "parent_input node index hash = (if index mod 2 = 1 then 1 # of_hex hash @ node else 1 # node @ of_hex hash)"

lemma verify_steps:
  "\<not> width > 1 \<Longrightarrow> verify_loop P node index width sibs = Some (node, sibs)"
  "width > 1 \<Longrightarrow> \<not> (index mod 2 = 1 \<or> index + 1 < width) \<Longrightarrow>
     verify_loop P node index width sibs = verify_loop P node (index div 2) ((width + 1) div 2) sibs"
  "width > 1 \<Longrightarrow> index mod 2 = 1 \<or> index + 1 < width \<Longrightarrow> verify_loop P node index width [] = None"
  "width > 1 \<Longrightarrow> index mod 2 = 1 \<or> index + 1 < width \<Longrightarrow>
     verify_loop P node index width ((position, hash) # sibs) =
       (if position \<noteq> (if index mod 2 = 1 then On_left else On_right) then None
        else verify_loop P (sha256 P (parent_input node index hash)) (index div 2) ((width + 1) div 2) sibs)"
  by (subst verify_loop.simps; auto simp: Let_def parent_input_def)+

lemma input_steps:
  "width > 1 \<Longrightarrow> \<not> (index mod 2 = 1 \<or> index + 1 < width) \<Longrightarrow>
     loop_inputs P node index width sibs = loop_inputs P node (index div 2) ((width + 1) div 2) sibs"
  "width > 1 \<Longrightarrow> index mod 2 = 1 \<or> index + 1 < width \<Longrightarrow>
     loop_inputs P node index width ((position, hash) # sibs) =
       parent_input node index hash # loop_inputs P (sha256 P (parent_input node index hash)) (index div 2) ((width + 1) div 2) sibs"
  by (subst loop_inputs.simps; auto simp: Let_def parent_input_def)+

text \<open>The three shapes of an iteration.\<close>

lemma verify_cases:
  assumes "verify_loop P node index width sibs = Some (root, rest)"
  obtains (stop) "root = node"
  | (skip) "(width + 1) div 2 < width" "verify_loop P node (index div 2) ((width + 1) div 2) sibs = Some (root, rest)"
      "loop_inputs P node index width sibs = loop_inputs P node (index div 2) ((width + 1) div 2) sibs"
  | (combine) position hash sibs' where "(width + 1) div 2 < width" "sibs = (position, hash) # sibs'"
      "verify_loop P (sha256 P (parent_input node index hash)) (index div 2) ((width + 1) div 2) sibs' = Some (root, rest)"
      "loop_inputs P node index width sibs =
         parent_input node index hash # loop_inputs P (sha256 P (parent_input node index hash)) (index div 2) ((width + 1) div 2) sibs'"
proof -
  have w: "width > 1 \<Longrightarrow> (width + 1) div 2 < width" by simp
  consider "\<not> width > 1" | "width > 1" "\<not> (index mod 2 = 1 \<or> index + 1 < width)" | "width > 1" "index mod 2 = 1 \<or> index + 1 < width" by blast
  then show ?thesis
  proof cases
    case 1
    then show ?thesis using assms stop by (simp add: verify_steps)
  next
    case 2
    then show ?thesis using assms skip w input_steps(1) verify_steps(2) by metis
  next
    case 3
    then obtain position hash sibs' where s: "sibs = (position, hash) # sibs'"
      using assms verify_steps(3) by (cases sibs) auto
    then show ?thesis
      using combine [OF w [OF 3(1)] s] 3 assms verify_steps(4) input_steps(2) by (metis option.distinct(1))
  qed
qed

lemma verified_path:
  assumes "sha256_digests P" "level = map (sha256 P) pre" "\<forall>p \<in> set pre. \<exists>q. p = 0 # q"
  shows "verify_loop P node index width sibs = Some (root, rest) \<Longrightarrow> length node = 32 \<Longrightarrow>
    \<forall>(s, x) \<in> set sibs. is_sha256_hex x \<Longrightarrow> root \<in> set (tree_nodes P level) \<Longrightarrow>
    node \<in> set (tree_nodes P level) \<or>
    (\<exists>x \<in> set (pre @ tree_inputs P level). \<exists>y \<in> set (loop_inputs P node index width sibs). sha256_collision P x y)"
proof (induction width arbitrary: node index sibs rule: less_induct)
  case (less width)
  let ?T = "set (tree_nodes P level)"
  from less.prems(1) show ?case
  proof (cases rule: verify_cases)
    case stop
    then show ?thesis using less.prems(4) by simp
  next
    case skip
    from less.IH [OF skip(1,2) less.prems(2,3,4)] skip(3) show ?thesis by simp
  next
    case (combine position hash sibs')
    obtain l r where i: "parent_input node index hash = 1 # l @ r" "l = node \<and> r = of_hex hash \<or> l = of_hex hash \<and> r = node"
      by (cases "index mod 2 = 1") (auto simp: parent_input_def)
    have "is_sha256_hex hash" using less.prems(3) combine(2) by simp
    then have len: "length l = 32" using less.prems(2) i(2) by (auto simp: of_hex_length is_sha256_hex_def)
    have "length (sha256 P (1 # l @ r)) = 32" using assms(1) by (simp add: sha256_digests_def)
    moreover have "\<forall>(s, x) \<in> set sibs'. is_sha256_hex x" using less.prems(3) combine(2) by simp
    ultimately have "sha256 P (1 # l @ r) \<in> ?T \<or> (\<exists>x \<in> set (pre @ tree_inputs P level). \<exists>y \<in> set (loop_inputs P node index width sibs). sha256_collision P x y)"
      using less.IH [OF combine(1) combine(3) [unfolded i(1)]] less.prems(4) unfolding combine(4) i(1) by auto
    then show ?thesis
    proof
      assume "sha256 P (1 # l @ r) \<in> ?T"
      from parent_in_tree [OF assms this len] i(2) show ?thesis unfolding combine(4) i(1) by auto
    qed blast
  qed
qed

text \<open>Whatever the verifier arrives at is the hash of something it hashed.\<close>

lemma verify_loop_image:
  "verify_loop P node index width sibs = Some (root, rest) \<Longrightarrow> root = node \<or> (\<exists>y \<in> set (loop_inputs P node index width sibs). root = sha256 P y \<and> y \<noteq> [])"
proof (induction width arbitrary: node index sibs rule: less_induct)
  case (less width)
  from less.prems show ?case
  proof (cases rule: verify_cases)
    case (combine position hash sibs')
    have "parent_input node index hash \<noteq> []" by (simp add: parent_input_def)
    then show ?thesis using less.IH [OF combine(1,3)] unfolding combine(4) by auto
  qed (use less.IH in \<open>auto\<close>)
qed

text \<open>A leaf determines its head.\<close>

abbreviation valid_head :: "reviewHead \<Rightarrow> bool" where
  "valid_head h \<equiv> is_review_id (hd_review h) \<and> is_sha256_hex (hd_hash h)"

lemma leaf_bytes_inject:
  assumes "valid_head g" "valid_head h" "leaf_bytes P g = Inr x" "leaf_bytes P h = Inr x"
  shows "g = h"
proof -
  have k: "lit ''head_hash'' < lit ''review_id''" by code_simp
  have norm: "norm_js (head_json e) = JObj [(lit ''head_hash'', JStr (hd_hash e)), (lit ''review_id'', JStr (hd_review e))]" for e
    using k by (simp add: head_json_def own_order_names is_digit_def)
  have data: "valid_head e \<Longrightarrow> json_data P (head_json e)" for e
    using review_id_clean [of "hd_review e"] sha256_hex_clean [of "hd_hash e"]
    by (simp add: head_json_def clean_text_def)
  obtain s t where c: "canonicalizeProtocolJson P (head_json g) = Inr s" "canonicalizeProtocolJson P (head_json h) = Inr t" "utf8 s = utf8 t"
    using assms(3,4) by (auto simp: leaf_bytes_def split: sum.splits)
  then have "s = t"
    using canonicalize_clean [OF c(1) data [OF assms(1)]] canonicalize_clean [OF c(2) data [OF assms(2)]]
    by (auto simp: clean_text_def intro: utf8_inject)
  with c canonicalize_eq_iff [OF data [OF assms(1)] data [OF assms(2)] c(1)] have "norm_js (head_json g) = norm_js (head_json h)" by simp
  then show ?thesis unfolding norm by (cases g; cases h) simp
qed

lemma leaf_inputs_smap: "smap (hashReviewHeadLeaf P) hs = Inr leaves \<Longrightarrow> leaves = map (sha256 P) (leaf_inputs P hs)"
  by (induction hs arbitrary: leaves) (auto simp: leaf_inputs_def hashReviewHeadLeaf_def split: sum.splits)

lemma leaf_inputs_mem: "p \<in> set (leaf_inputs P hs) \<longleftrightarrow> (\<exists>h \<in> set hs. leaf_bytes P h = Inr p)"
  by (simp add: leaf_inputs_def) (force split: sum.splits)

lemma leaf_bytes_zero: "leaf_bytes P h = Inr p \<Longrightarrow> \<exists>q. p = 0 # q"
  by (cases "canonicalizeProtocolJson P (head_json h)") (auto simp: leaf_bytes_def)

text \<open>A leaf whose hash is a node of the tree is the leaf of one of its heads, or collides with an input
  of the tree.\<close>

lemma tree_leaf_is_head:
  assumes "sha256 P leaf \<in> set (tree_nodes P leaves)" "leaves = map (sha256 P) (leaf_inputs P hs)" "heads_loop None hs" "isReviewHead head"
    and "leaf_bytes P \<lparr>hd_review = the_str (field head ''review_id''), hd_hash = the_str (field head ''head_hash'')\<rparr> = Inr leaf"
  shows "(\<exists>h \<in> set hs. field head ''review_id'' = JStr (hd_review h) \<and> field head ''head_hash'' = JStr (hd_hash h)) \<or>
    (\<exists>x \<in> set (leaf_inputs P hs @ tree_inputs P leaves). sha256_collision P x leaf)"
proof -
  define g where "g = \<lparr>hd_review = the_str (field head ''review_id''), hd_hash = the_str (field head ''head_hash'')\<rparr>"
  note leaf = assms(5) [folded g_def]
  from tree_node_cases [OF assms(1)] consider "sha256 P leaf \<in> set leaves"
    | a b where "1 # a @ b \<in> set (tree_inputs P leaves)" "sha256 P leaf = sha256 P (1 # a @ b)" by blast
  then show ?thesis
  proof cases
    case 1
    then have "sha256 P leaf \<in> sha256 P ` set (leaf_inputs P hs)" using assms(2) by simp
    then obtain p where p: "p \<in> set (leaf_inputs P hs)" "sha256 P leaf = sha256 P p" by blast
    then obtain h where h: "h \<in> set hs" "leaf_bytes P h = Inr p" using leaf_inputs_mem by blast
    have "p = leaf \<Longrightarrow> g = h"
      using leaf_bytes_inject [of g h P leaf] leaf assms(4) h heads_loop_valid [OF assms(3) h(1)] by (simp add: isReviewHead_def g_def)
    then have "p = leaf \<Longrightarrow> field head ''review_id'' = JStr (hd_review h) \<and> field head ''head_hash'' = JStr (hd_hash h)"
      using assms(4) by (cases "field head ''review_id''"; cases "field head ''head_hash''") (auto simp: isReviewHead_def g_def)
    then show ?thesis using h p by (auto simp: sha256_collision_def)
  next
    case 2
    then show ?thesis using leaf_bytes_zero [OF leaf] by (auto simp: sha256_collision_def)
  qed
qed

text \<open>C9: a verified inclusion proof is evidence. When the client accepts a proof for a review head
  against the Merkle root of a checkpoint, that head is one of the heads of the checkpoint, or two of
  the byte strings that were hashed for the checkpoint and by the verifier are a SHA-256 collision. The
  position and the tree size in the proof are the prover's own and need not be trusted.\<close>

theorem inclusion_proof_sound:
  assumes "sha256_digests P" "computeCheckpoint P heads = Inr cp"
    "verifyInclusionProof P head mproof (JStr (merkle_root cp)) = Included"
  shows "(\<exists>h \<in> set heads. field head ''review_id'' = JStr (hd_review h) \<and> field head ''head_hash'' = JStr (hd_hash h)) \<or>
    (\<exists>x \<in> set (checkpoint_inputs P heads). \<exists>y \<in> set (proof_inputs P head mproof). sha256_collision P x y)"
proof -
  obtain hs leaves where v: "validateAndSortHeads heads = Inr hs" "smap (hashReviewHeadLeaf P) hs = Inr leaves"
    and cp: "merkle_root cp = to_hex (computeMerkleRoot P leaves)" using assms(2) by (auto simp: computeCheckpoint_def)
  note hs = validated_heads [OF v(1)] and lf = leaf_digests [OF assms(1) v(2)]
  define g where "g = \<lparr>hd_review = the_str (field head ''review_id''), hd_hash = the_str (field head ''head_hash'')\<rparr>"
  let ?sibs = "map (\<lambda>s. (sibling_side s, the_str (field s ''hash''))) (the_array (field mproof ''siblings''))"
  obtain leaf node where g: "isReviewHead head" "isMerkleProof mproof" "leaf_bytes P g = Inr leaf"
    "verify_loop P (sha256 P leaf) (nat (the_int (field mproof ''leaf_index''))) (nat (the_int (field mproof ''tree_size''))) ?sibs = Some (node, [])"
    and eq: "hashesEqual (to_hex node) (merkle_root cp)"
    using assms(3) by (auto simp: verifyInclusionProof_def g_def split: if_splits sum.splits option.splits)
  have pin: "proof_inputs P head mproof = leaf # loop_inputs P (sha256 P leaf) (nat (the_int (field mproof ''leaf_index''))) (nat (the_int (field mproof ''tree_size''))) ?sibs"
    using g(3) by (simp add: proof_inputs_def g_def)
  have leaf0: "\<exists>q. leaf = 0 # q" using g(3) by (rule leaf_bytes_zero)
  note image = verify_loop_image [OF g(4)]
  have nd: "byte_string node" using image assms(1) by (auto simp: sha256_digests_def)
  have "of_hex (to_hex node) = of_hex (merkle_root cp)" using eq by (simp add: hashesEqual_def)
  moreover have "byte_string (computeMerkleRoot P leaves)"
    using assms(1) merkle_root_digest [OF assms(1) lf(1)] by (auto simp: computeMerkleRoot_def sha256_digests_def)
  ultimately have root: "node = computeMerkleRoot P leaves" using nd cp by (simp add: of_hex_to_hex)
  show ?thesis
  proof (cases "heads = []")
    case True
    then have "leaves = []" using hs lf(2) by simp
    then obtain y where "y \<in> set (proof_inputs P head mproof)" "y \<noteq> []" "sha256 P [] = sha256 P y"
      using root image leaf0 unfolding pin by (fastforce simp: computeMerkleRoot_def)
    then show ?thesis using True by (auto simp: checkpoint_inputs_def sha256_collision_def)
  next
    case False
    then have ne: "leaves \<noteq> []" using hs lf(2) by auto
    have pre: "leaves = map (sha256 P) (leaf_inputs P hs)" using leaf_inputs_smap [OF v(2)] .
    have zero: "\<forall>p \<in> set (leaf_inputs P hs). \<exists>q. p = 0 # q" by (auto simp: leaf_inputs_mem dest: leaf_bytes_zero)
    have cin: "checkpoint_inputs P heads = leaf_inputs P hs @ tree_inputs P leaves"
      using False hs(1) pre by (simp add: checkpoint_inputs_def Let_def)
    have "length (sha256 P leaf) = 32" using assms(1) by (simp add: sha256_digests_def)
    moreover have "\<forall>(s, x) \<in> set ?sibs. is_sha256_hex x" using g(2) by (auto simp: isMerkleProof_def isSibling_def list_all_iff)
    moreover have "node \<in> set (tree_nodes P leaves)" using root root_in_nodes [OF ne] ne by (simp add: computeMerkleRoot_def)
    ultimately consider "sha256 P leaf \<in> set (tree_nodes P leaves)"
      | "\<exists>x \<in> set (checkpoint_inputs P heads). \<exists>y \<in> set (proof_inputs P head mproof). sha256_collision P x y"
      using verified_path [OF assms(1) pre zero g(4)] unfolding cin pin by auto
    then show ?thesis
    proof cases
      case 1
      from tree_leaf_is_head [OF 1 pre hs(2) g(1) g(3) [unfolded g_def]] show ?thesis
        using hs(3) unfolding cin pin by auto
    qed blast
  qed
qed

theorem inclusion_proof_sound_witness:
  "verifyInclusionProof sample_platform (head_json (sample_head ''bbb'')) (proof_json sample_proof) (JStr (merkle_root sample_checkpoint)) = Included \<and>
   ((\<exists>h \<in> set sample_heads. hd_review h = lit ''review:bbb'') \<or>
    (\<exists>x \<in> set (checkpoint_inputs sample_platform sample_heads).
       \<exists>y \<in> set (proof_inputs sample_platform (head_json (sample_head ''bbb'')) (proof_json sample_proof)). sha256_collision sample_platform x y))"
proof -
  have v: "verifyInclusionProof sample_platform (head_json (sample_head ''bbb'')) (proof_json sample_proof) (JStr (merkle_root sample_checkpoint)) = Included"
    by (rule proof_accepted [OF sample_platform_digests sample_checkpoint_eq sample_proof_eq]) (simp_all add: sample_heads_def)
  have "field (head_json (sample_head ''bbb'')) ''review_id'' = jstr ''review:bbb''" by code_simp
  with v inclusion_proof_sound [OF sample_platform_digests sample_checkpoint_eq v] show ?thesis by auto
qed

section \<open>A chain head binds the log\<close>

definition chain_value :: "platform \<Rightarrow> chainEvent list \<Rightarrow> bytes option" where
  "chain_value P es = foldl (\<lambda>head e. Some (sha256 P (chain_head_bytes P head (ce_seq e) (ce_id e)))) None es"

lemma chain_value_snoc: "chain_value P (es @ [e]) = Some (sha256 P (chain_head_bytes P (chain_value P es) (ce_seq e) (ce_id e)))"
  by (simp add: chain_value_def)

text \<open>What is hashed for a chain, event by event.\<close>

definition chain_inputs :: "platform \<Rightarrow> chainEvent list \<Rightarrow> bytes list" where
  "chain_inputs P es =
     (if es = [] then [REVIEW_LOG_EMPTY_DOMAIN]
      else concat (map (\<lambda>n. [chain_leaf_bytes (ce_seq (es ! n)) (ce_id (es ! n)),
        chain_head_bytes P (chain_value P (take n es)) (ce_seq (es ! n)) (ce_id (es ! n))]) [0..<length es]))"

lemma chain_inputs_snoc:
  "set (chain_inputs P (es @ [e])) = (if es = [] then {} else set (chain_inputs P es)) \<union>
     {chain_leaf_bytes (ce_seq e) (ce_id e), chain_head_bytes P (chain_value P es) (ce_seq e) (ce_id e)}"
proof -
  have "map (\<lambda>n. [chain_leaf_bytes (ce_seq ((es @ [e]) ! n)) (ce_id ((es @ [e]) ! n)),
        chain_head_bytes P (chain_value P (take n (es @ [e]))) (ce_seq ((es @ [e]) ! n)) (ce_id ((es @ [e]) ! n))]) [0..<length es] =
      map (\<lambda>n. [chain_leaf_bytes (ce_seq (es ! n)) (ce_id (es ! n)),
        chain_head_bytes P (chain_value P (take n es)) (ce_seq (es ! n)) (ce_id (es ! n))]) [0..<length es]"
    by (intro map_cong) (auto simp: nth_append)
  then show ?thesis by (auto simp: chain_inputs_def)
qed

definition chain_ok :: "chainEvent \<Rightarrow> bool" where
  "chain_ok e \<longleftrightarrow> is_sha256_id (ce_id e) \<and> 0 \<le> ce_seq e \<and> ce_seq e \<le> MAX_SAFE_INTEGER"

lemma uint64_be_length [simp]: "length (uint64_be n) = 8"
  by (simp add: uint64_be_def)

lemma uint64_be_inject:
  assumes "uint64_be m = uint64_be n" "0 \<le> m" "m < 2 ^ 64" "0 \<le> n" "n < 2 ^ 64"
  shows "m = n"
proof -
  have byte: "m div 256 ^ j mod 256 = n div 256 ^ j mod 256" if "j < 8" for j
  proof -
    have "uint64_be m ! (7 - j) = uint64_be n ! (7 - j)" using assms(1) by simp
    moreover have "7 - j < 8" "7 - (7 - j) = j" using that by simp_all
    ultimately show ?thesis by (simp add: uint64_be_def nth_append del: upt_Suc)
  qed
  have "m mod 256 ^ j = n mod 256 ^ j" if "j \<le> 8" for j
    using that
  proof (induction j)
    case (Suc j)
    have "x mod 256 ^ Suc j = 256 ^ j * (x div 256 ^ j mod 256) + x mod 256 ^ j" for x :: int
      using mod_mult2_eq' [of x "256 ^ j" 256] by (simp add: mult.commute)
    then show ?case using Suc byte by simp
  qed simp
  from this [of 8] show ?thesis using assms by simp
qed

lemma chain_leaf_inject:
  assumes "chain_ok d" "chain_ok e" "chain_leaf_bytes (ce_seq d) (ce_id d) = chain_leaf_bytes (ce_seq e) (ce_id e)"
  shows "ce_seq d = ce_seq e \<and> ce_id d = ce_id e"
proof -
  have s: "uint64_be (ce_seq d) = uint64_be (ce_seq e)" "utf8 (ce_id d) = utf8 (ce_id e)"
    using assms(3) by (auto simp: chain_leaf_bytes_def append_eq_append_conv)
  have "ce_seq d = ce_seq e" using assms(1,2) uint64_be_inject [OF s(1)] by (simp add: chain_ok_def)
  moreover have "clean_text (ce_id x)" if "chain_ok x" for x
    using that by (simp add: chain_ok_def sha256_id_clean)
  then have "ce_id d = ce_id e" using s(2) assms(1,2) utf8_inject by (auto simp: clean_text_def)
  ultimately show ?thesis ..
qed

lemma chain_value_digest: "sha256_digests P \<Longrightarrow> chain_value P es = Some h \<Longrightarrow> length h = 32"
  by (induction es rule: rev_induct) (auto simp: chain_value_snoc sha256_digests_def chain_value_def [of _ "[]"])

lemma chain_value_None: "chain_value P es = None \<longleftrightarrow> es = []"
  by (induction es rule: rev_induct) (auto simp: chain_value_snoc chain_value_def [of _ "[]"])

lemma chain_binds:
  assumes "sha256_digests P"
  shows "chain_value P ds = chain_value P es \<Longrightarrow> ds \<noteq> [] \<Longrightarrow> list_all chain_ok ds \<Longrightarrow> list_all chain_ok es \<Longrightarrow>
    map (\<lambda>e. (ce_seq e, ce_id e)) ds = map (\<lambda>e. (ce_seq e, ce_id e)) es \<or>
    (\<exists>x \<in> set (chain_inputs P ds). \<exists>y \<in> set (chain_inputs P es). sha256_collision P x y)"
proof (induction ds arbitrary: es rule: rev_induct)
  case (snoc d ds)
  have "es \<noteq> []" using snoc.prems(1) chain_value_None [of P es] by (auto simp: chain_value_snoc)
  then obtain fs f where es: "es = fs @ [f]" by (metis rev_exhaust)
  let ?hd = "chain_head_bytes P (chain_value P ds) (ce_seq d) (ce_id d)" and ?hf = "chain_head_bytes P (chain_value P fs) (ce_seq f) (ce_id f)"
  let ?ld = "chain_leaf_bytes (ce_seq d) (ce_id d)" and ?lf = "chain_leaf_bytes (ce_seq f) (ce_id f)"
  have h: "sha256 P ?hd = sha256 P ?hf" using snoc.prems(1) by (simp add: es chain_value_snoc)
  have len: "length (sha256 P x) = 32" for x using assms by (simp add: sha256_digests_def)
  note ins = chain_inputs_snoc [of P ds d] chain_inputs_snoc [of P fs f]
  show ?case
  proof (cases "?hd = ?hf \<and> ?ld = ?lf")
    case False
    moreover have "sha256 P ?ld = sha256 P ?lf" if "?hd = ?hf"
    proof -
      have "(case chain_value P ds of None \<Rightarrow> [] | Some h \<Rightarrow> h) @ sha256 P ?ld = (case chain_value P fs of None \<Rightarrow> [] | Some h \<Rightarrow> h) @ sha256 P ?lf"
        using that by (simp add: chain_head_bytes_def)
      then show ?thesis using len by (metis append_eq_append_conv)
    qed
    ultimately have "sha256_collision P ?hd ?hf \<or> sha256_collision P ?ld ?lf" using h by (auto simp: sha256_collision_def)
    then show ?thesis unfolding es ins by blast
  next
    case True
    have p: "(case chain_value P ds of None \<Rightarrow> [] | Some h \<Rightarrow> h) = (case chain_value P fs of None \<Rightarrow> [] | Some h \<Rightarrow> h)"
      using True by (auto simp: chain_head_bytes_def)
    have vals: "chain_value P ds = chain_value P fs"
      using p chain_value_digest [OF assms, of ds] chain_value_digest [OF assms, of fs]
      by (cases "chain_value P ds"; cases "chain_value P fs") auto
    have e: "ce_seq d = ce_seq f \<and> ce_id d = ce_id f" using chain_leaf_inject [of d f] True snoc.prems(3,4) es by simp
    show ?thesis
    proof (cases "ds = []")
      case True
      then have "fs = []" using vals chain_value_None by metis
      then show ?thesis using True e es by simp
    next
      case False
      then have "fs \<noteq> []" using vals chain_value_None by metis
      from snoc.IH [OF vals False] snoc.prems(3,4) es
      consider "map (\<lambda>e. (ce_seq e, ce_id e)) ds = map (\<lambda>e. (ce_seq e, ce_id e)) fs"
        | "\<exists>x \<in> set (chain_inputs P ds). \<exists>y \<in> set (chain_inputs P fs). sha256_collision P x y" by auto
      then show ?thesis
      proof cases
        case 1
        then show ?thesis using e es by simp
      next
        case 2
        then show ?thesis using False \<open>fs \<noteq> []\<close> unfolding es ins by auto
      qed
    qed
  qed
qed simp

lemma assert_ok: "assertReviewEventChainInput e = Inr u \<longleftrightarrow> is_review_id (ce_review e) \<and> chain_ok e"
  by (auto simp: assertReviewEventChainInput_def chain_ok_def)

lemma chain_loop_sound:
  "chain_loop_head P r q head es = Inr v \<Longrightarrow>
     list_all chain_ok es \<and> v = foldl (\<lambda>head e. Some (sha256 P (chain_head_bytes P head (ce_seq e) (ce_id e)))) head es"
proof (induction P r q head es arbitrary: v rule: chain_loop_head.induct)
  case (2 P r q head e es)
  obtain u where a: "assertReviewEventChainInput e = Inr u" using "2.prems" by (cases "assertReviewEventChainInput e") auto
  then have ok: "chain_ok e" by (simp add: assert_ok)
  obtain r' where "chain_loop_head P r' (Some (ce_seq e)) (Some (sha256 P (chain_head_bytes P head (ce_seq e) (ce_id e)))) es = Inr v"
    "r' = (case r of None \<Rightarrow> Some (ce_review e) | Some r \<Rightarrow> Some r)" "Some (ce_review e) = r'" "Some (ce_seq e) \<noteq> q"
    using "2.prems" a by (auto simp: Let_def split: if_splits)
  with "2.IH" [OF a] show ?case using ok by simp
qed simp

lemma chain_head_cases:
  assumes "computeReviewChainHead P es = Inr h"
  obtains "es = []" "h = to_hex (sha256 P REVIEW_LOG_EMPTY_DOMAIN)"
  | v where "es \<noteq> []" "h = to_hex v" "chain_value P (sort_key ce_seq es) = Some v" "list_all chain_ok (sort_key ce_seq es)"
proof (cases "es = []")
  case False
  then obtain v where l: "chain_loop_head P None None None (sort_key ce_seq es) = Inr v"
    and h: "h = (case v of Some h \<Rightarrow> to_hex h | None \<Rightarrow> to_hex (sha256 P REVIEW_LOG_EMPTY_DOMAIN))"
    using assms by (auto simp: computeReviewChainHead_def split: if_splits)
  have c: "list_all chain_ok (sort_key ce_seq es)" "v = chain_value P (sort_key ce_seq es)"
    using chain_loop_sound [OF l] by (simp_all add: chain_value_def)
  have "sort_key ce_seq es \<noteq> []" using False by (metis length_0_conv length_sort)
  then obtain w where "v = Some w" using c(2) chain_value_None by fastforce
  then show ?thesis using that(2) False h c by simp
qed (use assms that(1) in \<open>simp add: computeReviewChainHead_def\<close>)

lemma chain_value_image: "chain_value P es = Some v \<Longrightarrow> \<exists>y \<in> set (chain_inputs P es). v = sha256 P y \<and> 61 \<le> length y" if "sha256_digests P"
proof (induction es rule: rev_induct)
  case (snoc e es)
  have "length (chain_head_bytes P (chain_value P es) (ce_seq e) (ce_id e)) \<ge> 61"
  proof -
    have "length REVIEW_LOG_HEAD_DOMAIN = 29" by code_simp
    then show ?thesis using that by (simp add: chain_head_bytes_def sha256_digests_def)
  qed
  then show ?case using snoc.prems unfolding chain_inputs_snoc by (auto simp: chain_value_snoc)
qed (simp add: chain_value_def)

text \<open>C19: a chain head binds the whole review log. Two logs with the same head have the same sequence
  numbers and event identifiers in order, whatever the order they were passed in, or two of the byte
  strings hashed for them are a SHA-256 collision. With an event identifier being the hash of the
  event, a published head fixes every event.\<close>

theorem chain_head_binds_log:
  assumes "sha256_digests P" "computeReviewChainHead P ds = Inr h" "computeReviewChainHead P es = Inr h"
  shows "map (\<lambda>e. (ce_seq e, ce_id e)) (sort_key ce_seq ds) = map (\<lambda>e. (ce_seq e, ce_id e)) (sort_key ce_seq es) \<or>
    (\<exists>x \<in> set (chain_inputs P (sort_key ce_seq ds)). \<exists>y \<in> set (chain_inputs P (sort_key ce_seq es)). sha256_collision P x y)"
proof -
  have bs: "byte_string (sha256 P x)" for x using assms(1) by (simp add: sha256_digests_def)
  have empty: "REVIEW_LOG_EMPTY_DOMAIN \<in> set (chain_inputs P [])" by (simp add: chain_inputs_def)
  have el: "length REVIEW_LOG_EMPTY_DOMAIN = 30" by code_simp
  have mixed: "\<exists>y \<in> set (chain_inputs P zs). sha256_collision P REVIEW_LOG_EMPTY_DOMAIN y \<and> sha256_collision P y REVIEW_LOG_EMPTY_DOMAIN"
    if z: "chain_value P zs = Some v" "to_hex v = to_hex (sha256 P REVIEW_LOG_EMPTY_DOMAIN)" for zs v
  proof -
    obtain y where y: "y \<in> set (chain_inputs P zs)" "v = sha256 P y" "61 \<le> length y" using chain_value_image [OF assms(1) z(1)] by blast
    then have "v = sha256 P REVIEW_LOG_EMPTY_DOMAIN" using z(2) bs to_hex_inject by metis
    moreover have "y \<noteq> REVIEW_LOG_EMPTY_DOMAIN" using y(3) el by auto
    ultimately show ?thesis using y unfolding sha256_collision_def by (intro bexI [of _ y]) simp_all
  qed
  show ?thesis
  proof (cases rule: chain_head_cases [OF assms(2)])
    case 1
    then show ?thesis
    proof (cases rule: chain_head_cases [OF assms(3)])
      case (2 w)
      with 1 mixed [of "sort_key ce_seq es" w] empty show ?thesis by auto
    qed simp
  next
    case d: (2 v)
    show ?thesis
    proof (cases rule: chain_head_cases [OF assms(3)])
      case 1
      with d mixed [of "sort_key ce_seq ds" v] empty show ?thesis by auto
    next
      case (2 w)
      have "byte_string v" "byte_string w" using chain_value_image [OF assms(1)] d(3) 2(3) bs by metis+
      then have "chain_value P (sort_key ce_seq ds) = chain_value P (sort_key ce_seq es)" using d 2 to_hex_inject by metis
      moreover have "sort_key ce_seq ds \<noteq> []" using d(1) by (metis length_0_conv length_sort)
      ultimately show ?thesis using chain_binds [OF assms(1)] d(4) 2(4) by blast
    qed
  qed
qed

definition sample_event_id :: "nat \<Rightarrow> ustr" where
  "sample_event_id c = lit ''sha256:'' @ replicate 64 c"

definition sample_chain :: "chainEvent list" where
  "sample_chain = [\<lparr>ce_review = lit ''review:aaa'', ce_id = sample_event_id 97, ce_seq = 0\<rparr>,
     \<lparr>ce_review = lit ''review:aaa'', ce_id = sample_event_id 98, ce_seq = 4\<rparr>]"

theorem chain_head_binds_log_witness:
  "\<exists>h. computeReviewChainHead sample_platform sample_chain = Inr h \<and> computeReviewChainHead sample_platform (rev sample_chain) = Inr h \<and>
     (map (\<lambda>e. (ce_seq e, ce_id e)) (sort_key ce_seq sample_chain) = map (\<lambda>e. (ce_seq e, ce_id e)) (sort_key ce_seq (rev sample_chain)) \<or>
      (\<exists>x \<in> set (chain_inputs sample_platform (sort_key ce_seq sample_chain)).
        \<exists>y \<in> set (chain_inputs sample_platform (sort_key ce_seq (rev sample_chain))). sha256_collision sample_platform x y))"
proof -
  have "\<not> isl (computeReviewChainHead sample_platform sample_chain)" by code_simp
  then obtain h where h: "computeReviewChainHead sample_platform sample_chain = Inr h" by (metis sum.collapse(2))
  have "sort_key ce_seq (rev sample_chain) = sort_key ce_seq sample_chain" by code_simp
  then have "computeReviewChainHead sample_platform (rev sample_chain) = computeReviewChainHead sample_platform sample_chain"
    by (simp add: computeReviewChainHead_def)
  with h have r: "computeReviewChainHead sample_platform (rev sample_chain) = Inr h" by simp
  from h r chain_head_binds_log [OF sample_platform_digests h r] show ?thesis by blast
qed

section \<open>The client recomputes what the server computes\<close>

lemma chain_loop_complete:
  "(\<forall>e \<in> set es. chain_ok e \<and> is_review_id (ce_review e) \<and> ce_review e = rv) \<Longrightarrow> r = None \<or> r = Some rv \<Longrightarrow>
     chain_loop_head P r q head es =
       (if distinct_adj ((case q of None \<Rightarrow> [] | Some x \<Rightarrow> [x]) @ map ce_seq es)
        then Inr (foldl (\<lambda>head e. Some (sha256 P (chain_head_bytes P head (ce_seq e) (ce_id e)))) head es) else Inl Type_error)"
proof (induction P r q head es rule: chain_loop_head.induct)
  case (2 P r q head e es)
  have a: "assertReviewEventChainInput e = Inr ()" using "2.prems"(1) by (auto simp: assert_ok)
  have r: "(case r of None \<Rightarrow> Some (ce_review e) | Some r \<Rightarrow> Some r) = Some rv" using "2.prems" by auto
  have e: "ce_review e = rv" using "2.prems"(1) by simp
  show ?case
    using "2.IH" [OF a refl] "2.prems"(1) a r e by (cases q) (auto simp: Let_def distinct_adj_Cons)
qed (simp split: option.split)

lemma collected_ok:
  "collect_loop E rid evs = Some es \<Longrightarrow> length es = length evs \<and>
     (\<forall>e \<in> set es. chain_ok e \<and> is_review_id (ce_review e) \<and> (case rid of None \<Rightarrow> True | Some r \<Rightarrow> JStr (ce_review e) = r)) \<and>
     (es \<noteq> [] \<longrightarrow> (\<forall>e \<in> set es. ce_review e = ce_review (hd es)))"
proof (induction E rid evs arbitrary: es rule: collect_loop.induct)
  case (2 E rid event events)
  obtain ds where d: "collect_loop E (Some (field event ''review_id'')) events = Some ds"
    "es = \<lparr>ce_review = the_str (field event ''review_id''), ce_id = the_str (field event ''event_id''), ce_seq = the_int (field event ''sequence_number'')\<rparr> # ds"
    and ok: "is_sequence_number (field event ''sequence_number'')" "is_sha256_id (the_str (field event ''event_id''))"
      "is_string (field event ''review_id'')" "is_review_id (the_str (field event ''review_id''))"
      "case rid of None \<Rightarrow> True | Some r \<Rightarrow> field event ''review_id'' = r"
    and IH: "length ds = length events \<and> (\<forall>e \<in> set ds. chain_ok e \<and> is_review_id (ce_review e) \<and> JStr (ce_review e) = field event ''review_id'')"
    using "2.prems" "2.IH" by (auto split: if_splits option.splits)
  obtain r where r: "field event ''review_id'' = JStr r" using ok(3) by (cases "field event ''review_id''") auto
  have n: "0 \<le> the_int (field event ''sequence_number'')" "the_int (field event ''sequence_number'') \<le> MAX_SAFE_INTEGER"
    using ok(1) by (auto simp: is_sequence_number_def elim!: is_safe_integer.elims)
  show ?case using IH ok n r d(2) by (auto simp: chain_ok_def split: option.splits)
qed simp

lemma verify_head_bytes: "verify_head P head e = sha256 P (chain_head_bytes P head (ce_seq e) (ce_id e))"
  by (cases head) (simp_all add: verify_leaf_def chain_head_bytes_def chain_leaf_bytes_def VERIFY_LEAF_DOMAIN_def
    VERIFY_HEAD_DOMAIN_def REVIEW_LOG_LEAF_DOMAIN_def REVIEW_LOG_HEAD_DOMAIN_def)

lemma verifier_chain_value: "foldl (\<lambda>head e. Some (verify_head P head e)) None es = chain_value P es"
  by (simp add: chain_value_def verify_head_bytes)

lemma verifier_constants:
  "VERIFY_MAX_REVIEW_EVENTS = MAX_REVIEW_EVENTS" "utf8 VERIFY_EMPTY_DOMAIN = REVIEW_LOG_EMPTY_DOMAIN"
  by (simp_all add: VERIFY_MAX_REVIEW_EVENTS_def MAX_REVIEW_EVENTS_def VERIFY_EMPTY_DOMAIN_def REVIEW_LOG_EMPTY_DOMAIN_def)

text \<open>C28: the independent verifier agrees with the server. For every list of events that passes the
  verifier's own checks of schema, identity and shape, the head it recomputes is the one
  \<^verbatim>\<open>computeReviewChainHead\<close> computes for the log, and it refuses the list exactly when the server does.\<close>

theorem verifier_agrees_with_chain_head:
  assumes "collect_loop E None evs = Some es"
  shows "recomputeReviewChainHead E (JArr evs) =
    (case computeReviewChainHead (plat E) es of Inr h \<Rightarrow> Some h | Inl _ \<Rightarrow> None)"
proof -
  note c = collected_ok [OF assms]
  have len: "length es = length evs" using c by blast
  have srt: "set (sort_key ce_seq es) = set es" "sort_key ce_seq es = [] \<longleftrightarrow> es = []"
    by (simp, metis length_0_conv length_sort)
  have "\<forall>e \<in> set (sort_key ce_seq es). chain_ok e \<and> is_review_id (ce_review e) \<and> ce_review e = ce_review (hd es)"
    unfolding srt(1) using c by (cases "es = []") (simp, blast)
  from chain_loop_complete [OF this, of None "plat E" None None]
  have loop: "chain_loop_head (plat E) None None None (sort_key ce_seq es) =
      (if distinct_adj (map ce_seq (sort_key ce_seq es)) then Inr (chain_value (plat E) (sort_key ce_seq es)) else Inl Type_error)"
    by (simp add: chain_value_def)
  show ?thesis
  proof (cases "length evs > MAX_REVIEW_EVENTS \<or> es = []")
    case True
    then show ?thesis using assms len by (auto simp: recomputeReviewChainHead_def computeReviewChainHead_def verifier_constants MAX_REVIEW_EVENTS_def)
  next
    case False
    then obtain v where v: "chain_value (plat E) (sort_key ce_seq es) = Some v"
      using srt(2) chain_value_None [of "plat E" "sort_key ce_seq es"] by auto
    show ?thesis
      using False assms len loop v srt(2)
      by (simp add: recomputeReviewChainHead_def computeReviewChainHead_def Let_def verifier_constants verifier_chain_value)
  qed
qed

definition sample_log_env :: review_env where
  "sample_log_env = \<lparr>schema_valid = (\<lambda>i v. True), jcs = (\<lambda>v. JcsUndefined), plat = sample_platform, tx = sample_text\<rparr>"

definition sample_log_event :: "int \<Rightarrow> jsval" where
  "sample_log_event n =
     (let e = [(lit ''review_id'', jstr ''review:aaa''), (lit ''sequence_number'', jint n)] in
      JObj (e @ [(lit ''event_id'', JStr (projr (computeCanonicalSha256Id sample_platform (JObj e))))]))"

theorem verifier_agrees_with_chain_head_witness:
  "\<exists>es h. collect_loop sample_log_env None [sample_log_event 3] = Some es \<and>
     computeReviewChainHead sample_platform es = Inr h \<and>
     recomputeReviewChainHead sample_log_env (JArr [sample_log_event 3]) = Some h"
proof -
  let ?c = "collect_loop sample_log_env None [sample_log_event 3]"
  have "case ?c of None \<Rightarrow> False | Some es \<Rightarrow> \<not> isl (computeReviewChainHead sample_platform es)" by code_simp
  then obtain es h where c: "?c = Some es" and h: "computeReviewChainHead sample_platform es = Inr h"
    by (auto split: option.splits) (metis sum.collapse(2))
  from verifier_agrees_with_chain_head [OF c] c h show ?thesis by (simp add: sample_log_env_def)
qed

section \<open>A checkpoint run reports what it read back\<close>

lemma verify_published:
  assumes "verifyPublishedCheckpoint P (Some A) a expected = (a', Inr (Read_back r))"
  shows "r = expected \<and> an_get A a (checkpoint_id expected) = (a', Some (Some expected)) \<and>
    checkpointId P (tc_root expected) (tc_size expected) (published_at expected) = Inr (checkpoint_id expected)"
  using assms
  by (cases r; cases expected) (auto simp: verifyPublishedCheckpoint_def split: prod.splits option.splits sum.splits if_splits)

lemma publish_result:
  assumes "publishCheckpoint P (Some A) a root treeSize at = (a', Inr (rec, ref))"
  shows "tc_root rec = root \<and> tc_size rec = treeSize \<and> published_at rec = at \<and> ref \<noteq> []"
  using assms
  by (auto simp: publishCheckpoint_def Let_def split: prod.splits option.splits sum.splits if_splits)

text \<open>What the outcome of a run means, for the anchor state it ends in and the list of publications.\<close>

definition run_reported ::
    "platform \<Rightarrow> 'a anchor_port \<Rightarrow> reviewHead list \<Rightarrow> (transparencyCheckpointRecord \<times> ustr) list \<Rightarrow> 'a \<Rightarrow>
     (transparencyCheckpointRecord \<times> ustr) list \<Rightarrow> checkpointRun \<Rightarrow> bool" where
  "run_reported P A heads published a' published' out \<longleftrightarrow>
     (\<exists>cp rec before. computeCheckpoint P heads = Inr cp \<and> an_get A before (checkpoint_id rec) = (a', Some (Some rec)) \<and>
        tc_root rec = merkle_root cp \<and> tc_size rec = NInt (int (cp_size cp)) \<and>
        checkpointId P (tc_root rec) (tc_size rec) (published_at rec) = Inr (checkpoint_id rec) \<and>
        (case out of
           Published i ref n \<Rightarrow> i = checkpoint_id rec \<and> n = cp_size cp \<and> published' = published @ [(rec, ref)] \<and> ref \<noteq> []
         | Unchanged i n \<Rightarrow> i = checkpoint_id rec \<and> n = cp_size cp \<and> published' = published \<and> published \<noteq> [] \<and> fst (last published) = rec))"

lemma fresh_run:
  assumes "(case publishCheckpoint P (Some A) a (merkle_root cp) (NInt (int (cp_size cp))) now of
      (a, Inl e) \<Rightarrow> (a, published, Inl e)
    | (a, Inr (record, anchor_ref)) \<Rightarrow>
        (case verifyPublishedCheckpoint P (Some A) a record of
           (a, Inl e) \<Rightarrow> (a, published, Inl e)
         | (a, Inr (Read_back _)) \<Rightarrow>
             (a, record_publication published (record, anchor_ref), Inr (Published (checkpoint_id record) anchor_ref (cp_size cp)))
         | (a, Inr _) \<Rightarrow> (a, published, Inl Not_read_back))) = (a', published', result)"
    "computeCheckpoint P heads = Inr cp"
  shows "case result of Inl e \<Rightarrow> published' = published | Inr out \<Rightarrow> run_reported P A heads published a' published' out"
proof -
  obtain a1 pub where p: "publishCheckpoint P (Some A) a (merkle_root cp) (NInt (int (cp_size cp))) now = (a1, pub)" by fastforce
  show ?thesis
  proof (cases pub)
    case (Inl e)
    then show ?thesis using assms(1) p by auto
  next
    case (Inr x)
    obtain rec ref where x: "x = (rec, ref)" by (cases x)
    obtain a2 ver where v: "verifyPublishedCheckpoint P (Some A) a1 rec = (a2, ver)" by fastforce
    note pr = publish_result [OF p [unfolded Inr x]]
    show ?thesis
    proof (cases "\<exists>r. ver = Inr (Read_back r)")
      case True
      then obtain r where r: "ver = Inr (Read_back r)" by blast
      note vp = verify_published [OF v [unfolded r]]
      have "a' = a2" "published' = published @ [(rec, ref)]" "result = Inr (Published (checkpoint_id rec) ref (cp_size cp))"
        using assms(1) p Inr x v r by (simp_all add: record_publication_def)
      then show ?thesis using vp pr assms(2) by (auto simp: run_reported_def intro!: exI [of _ rec])
    next
      case False
      then have "published' = published \<and> (\<exists>e. result = Inl e)"
        using assms(1) p Inr x v by (auto split: sum.splits publishedCheck.splits)
      then show ?thesis by auto
    qed
  qed
qed

text \<open>A checkpoint run never reports a publication it could not read back. Whatever the anchor does,
  an outcome names a record with the Merkle root and size of the current heads whose identity is
  recomputed from its content and which the anchor returned last in the run; the record is then added
  to the publications, or is already the last of them. A run that throws adds nothing.\<close>

theorem checkpoint_run_reads_back:
  "case runTransparencyCheckpoint P anchor a heads published now of (a', published', result) \<Rightarrow>
     (case result of
        Inl e \<Rightarrow> published' = published
      | Inr out \<Rightarrow> (\<exists>A. anchor = Some A \<and> run_reported P A heads published a' published' out))"
proof (cases anchor)
  case None
  then show ?thesis by (simp add: runTransparencyCheckpoint_def)
next
  case (Some A)
  obtain a' published' result where run: "runTransparencyCheckpoint P anchor a heads published now = (a', published', result)"
    by (metis prod.exhaust)
  have "case result of Inl e \<Rightarrow> published' = published | Inr out \<Rightarrow> run_reported P A heads published a' published' out"
  proof (cases "computeCheckpoint P heads")
    case (Inl e)
    then show ?thesis using run Some by (auto simp: runTransparencyCheckpoint_def)
  next
    case (Inr cp)
    note run' = run [unfolded runTransparencyCheckpoint_def Some Let_def]
    show ?thesis
    proof (cases "\<exists>latest. published \<noteq> [] \<and> latest = fst (last published) \<and> tc_root latest = merkle_root cp \<and> tc_size latest = NInt (int (cp_size cp))")
      case False
      obtain latest ref where l: "last published = (latest, ref)" by fastforce
      have "published \<noteq> [] \<Longrightarrow> \<not> (tc_root latest = merkle_root cp \<and> tc_size latest = NInt (int (cp_size cp)))" using False l by auto
      then show ?thesis
        using run' Inr l by (intro fresh_run [where a = a and now = now, OF _ Inr]) (simp add: latest_publication_def split: if_splits)
    next
      case True
      obtain latest ref where l: "last published = (latest, ref)" by fastforce
      obtain a1 ver where v: "verifyPublishedCheckpoint P (Some A) a latest = (a1, ver)" by fastforce
      have run2: "(case ver of Inl e \<Rightarrow> (a1, published, Inl e)
          | Inr (Read_back _) \<Rightarrow> (a1, published, Inr (Unchanged (checkpoint_id latest) (cp_size cp)))
          | Inr _ \<Rightarrow> (a1, published, Inl Not_read_back)) = (a', published', result)"
        using run' Inr True l v by (auto simp: latest_publication_def split: sum.splits publishedCheck.splits)
      show ?thesis
      proof (cases "\<exists>r. ver = Inr (Read_back r)")
        case True': True
        then obtain r where r: "ver = Inr (Read_back r)" by blast
        note vp = verify_published [OF v [unfolded r]]
        show ?thesis using run2 r vp True l Inr by (auto simp: run_reported_def intro!: exI [of _ latest])
      next
        case False
        then show ?thesis using run2 by (auto split: sum.splits publishedCheck.splits)
      qed
    qed
  qed
  then show ?thesis using run Some by (simp split: sum.splits)
qed

end
