(* ===== verification/Submission_Outcome.thy ===== *)
theory Submission_Outcome
  imports Review_Event_Log Append_Only_Log
begin

text \<open>
  Submission outcomes in the control plane (\<^verbatim>\<open>apps/control-plane/src/index.ts\<close>, the part on
  failure and quarantine states, with \<^verbatim>\<open>packages/protocol-ts/src/submission-identity-grammar.ts\<close>)
  and the appender of the host that records an outcome in the review log
  (\<^verbatim>\<open>services/host/src/submission/review-events.ts\<close>). \<open>Inl ()\<close> is an exception.
\<close>

section \<open>The grammar of submission identities\<close>

text \<open>The table of patterns is an ordinary object: a name of \<^verbatim>\<open>Object.prototype\<close> finds a function or
  the prototype, whose \<^verbatim>\<open>test\<close> is no function, and calling it throws.\<close>

definition OBJECT_PROTOTYPE_NAMES :: "string list" where
  "OBJECT_PROTOTYPE_NAMES = [''constructor'', ''__defineGetter__'', ''__defineSetter__'', ''hasOwnProperty'', ''__lookupGetter__'',
     ''__lookupSetter__'', ''isPrototypeOf'', ''propertyIsEnumerable'', ''toString'', ''valueOf'', ''__proto__'', ''toLocaleString'']"

definition SUBMISSION_IDENTITY_PATTERNS :: "(ustr \<times> (ustr \<Rightarrow> bool)) list" where
  "SUBMISSION_IDENTITY_PATTERNS =
     [(lit ''manifest_id'', is_sha256_id), (lit ''evidence_bundle_id'', is_sha256_id),
      (lit ''review_request_id'', is_typed_id ''review_request''), (lit ''bundle_instance_id'', is_typed_id ''bundle_instance''),
      (lit ''submission_attempt_id'', is_typed_id ''submission_attempt'')]"

definition submissionIdentityValueMatchesGrammar :: "ustr \<Rightarrow> jsval \<Rightarrow> unit + bool" where
  "submissionIdentityValueMatchesGrammar identityType identityValue =
     (case map_of SUBMISSION_IDENTITY_PATTERNS identityType of
        Some matches \<Rightarrow> Inr (is_string identityValue \<and> matches (the_str identityValue))
      | None \<Rightarrow>
          if identityType \<in> set (map lit OBJECT_PROTOTYPE_NAMES) \<and> is_string identityValue then Inl () else Inr False)"

section \<open>What an outcome must satisfy\<close>

datatype outcomeRejection =
    Outcome_schema_invalid | Outcome_receipt_required | Outcome_failure_must_not_reference_receipt
  | Outcome_failure_requires_reason_codes | Outcome_received_must_not_carry_reason_codes
  | Outcome_next_path_state_mismatch | Outcome_summary_implies_review | Outcome_summary_text_forbidden
  | Outcome_identity_value_text_forbidden | Outcome_duplicate_identity_type | Outcome_identity_field_mismatch
  | Event_state_not_a_failure | Event_type_state_mismatch | Event_missing_outcome_ref
  | Event_idempotency_key_not_derived | Event_schema_invalid

definition SUBMISSION_OUTCOME_STATE_NEXT_PATHS :: "(jsval \<times> string list) list" where
  "SUBMISSION_OUTCOME_STATE_NEXT_PATHS =
     [(jstr ''received_with_receipt'', [''verify_receipt'']),
      (jstr ''rejected_no_receipt'', [''retry'', ''contact_support'']),
      (jstr ''quarantined_no_receipt'', [''quarantine_support'', ''contact_support''])]"

definition SUBMISSION_FAILURE_EVENT_TYPE_BY_STATE :: "(jsval \<times> string) list" where
  "SUBMISSION_FAILURE_EVENT_TYPE_BY_STATE =
     [(jstr ''rejected_no_receipt'', ''submission_rejected''), (jstr ''quarantined_no_receipt'', ''submission_quarantined'')]"

abbreviation outcome_schema :: string where
  "outcome_schema \<equiv> ''urn:codeattest:protocol:v0:submission-outcome''"

text \<open>The loop over the identity rows: whether every row is well formed.\<close>

fun identity_rows :: "jsval list \<Rightarrow> unit + bool" where
  "identity_rows [] = Inr True"
| "identity_rows (row # rows) =
     (if \<not> is_record row \<or> \<not> is_string (field row ''identity_type'') then Inr False
      else sbind (submissionIdentityValueMatchesGrammar (the_str (field row ''identity_type'')) (field row ''identity_value'')) (\<lambda>ok.
        if \<not> ok then Inr False else identity_rows rows))"

definition identity_row :: "string \<Rightarrow> jsval list \<Rightarrow> jsval option" where
  "identity_row ty rows = find_first (\<lambda>row. is_record row \<and> field row ''identity_type'' = jstr ty) rows"

definition rejectionForSubmissionIdentities :: "jsval \<Rightarrow> unit + outcomeRejection option" where
  "rejectionForSubmissionIdentities oc =
     (if \<not> is_array (field oc ''submission_identities'') then Inr (Some Outcome_schema_invalid)
      else
        (let rows = the_array (field oc ''submission_identities'') in
         sbind (identity_rows rows) (\<lambda>ok.
         if \<not> ok then Inr (Some Outcome_schema_invalid)
         else if \<not> distinct (map (\<lambda>row. field row ''identity_type'') rows) then Inr (Some Outcome_duplicate_identity_type)
         else
           (case (identity_row ''bundle_instance_id'' rows, identity_row ''submission_attempt_id'' rows) of
              (Some b, Some a) \<Rightarrow>
                Inr (reject_if (\<not> strict_eq (field b ''identity_value'') (field oc ''bundle_instance_id'')
                                \<or> \<not> strict_eq (field a ''identity_value'') (field oc ''submission_attempt_id''))
                      Outcome_identity_field_mismatch)
            | _ \<Rightarrow> Inr (Some Outcome_identity_field_mismatch)))))"

definition is_failure_state :: "jsval \<Rightarrow> bool" where
  "is_failure_state oc \<longleftrightarrow>
     field oc ''outcome_state'' = jstr ''rejected_no_receipt'' \<or> field oc ''outcome_state'' = jstr ''quarantined_no_receipt''"

definition rejectionForSubmissionOutcome :: "('a review_env_scheme) \<Rightarrow> jsval \<Rightarrow> unit + outcomeRejection option" where
  "rejectionForSubmissionOutcome E oc =
     (if \<not> is_record oc then Inr (Some Outcome_schema_invalid)
      else sbind (rejectionForSubmissionIdentities oc) (\<lambda>identityRejection.
        case identityRejection of
          Some r \<Rightarrow> Inr (Some r)
        | None \<Rightarrow>
            (let isFailure = is_failure_state oc;
                 received = (field oc ''outcome_state'' = jstr ''received_with_receipt'');
                 reasonCodes = the_array (field oc ''failure_reason_codes'') in
             Inr (first_of
               [reject_if (received \<and> field oc ''vendor_receipt_ref'' = JUndef) Outcome_receipt_required,
                reject_if (isFailure \<and> field oc ''vendor_receipt_ref'' \<noteq> JUndef) Outcome_failure_must_not_reference_receipt,
                reject_if (isFailure \<and> reasonCodes = []) Outcome_failure_requires_reason_codes,
                reject_if (received \<and> reasonCodes \<noteq> []) Outcome_received_must_not_carry_reason_codes,
                reject_if (case map_of SUBMISSION_OUTCOME_STATE_NEXT_PATHS (field oc ''outcome_state'') of
                    None \<Rightarrow> False | Some paths \<Rightarrow> \<not> one_of paths (field oc ''next_path'')) Outcome_next_path_state_mismatch,
                reject_if (isFailure \<and> claimSafeForbiddenPhrase (tx E) (field oc ''customer_facing_summary'') \<noteq> None)
                  Outcome_summary_implies_review,
                reject_if (isFailure \<and> epic5NarrativeTextForbidden (tx E) (field oc ''customer_facing_summary''))
                  Outcome_summary_text_forbidden,
                reject_if (isFailure \<and> list_ex (\<lambda>row. is_record row \<and> epic5NarrativeTextForbidden (tx E) (field row ''identity_value''))
                    (the_array (field oc ''submission_identities''))) Outcome_identity_value_text_forbidden]))))"

section \<open>The event that records a failure\<close>

text \<open>\<^verbatim>\<open>v ?? d\<close>.\<close>

definition nullish :: "jsval \<Rightarrow> jsval \<Rightarrow> jsval" where
  "nullish v d = (if v = JUndef \<or> v = JNull then d else v)"

definition submissionOutcomeArtifactRef :: "jsval \<Rightarrow> ustr" where
  "submissionOutcomeArtifactRef oc = lit ''artifact_ref:'' @ slice_from 19 (the_str (field oc ''submission_outcome_id''))"

definition submissionEventIdempotencyKey :: "platform \<Rightarrow> jsval \<Rightarrow> ustr" where
  "submissionEventIdempotencyKey P oc =
     lit ''submission_attempt:'' @ js_string P (field oc ''bundle_instance_id'') @ lit '':'' @ js_string P (field oc ''submission_attempt_id'')"

definition exactSingletonRef :: "jsval \<Rightarrow> ustr \<Rightarrow> bool" where
  "exactSingletonRef refs expected \<longleftrightarrow>
     is_array refs \<and> length (the_array refs) = 1 \<and> strict_eq (hd (the_array refs)) (JStr expected)"

definition outcome_event :: "platform \<Rightarrow> jsval \<Rightarrow> jsval \<Rightarrow> string \<Rightarrow> jsval \<Rightarrow> jsval \<Rightarrow> jsval" where
  "outcome_event P oc envelope ty key refs =
     JObj [(lit ''protocol_version'', field oc ''protocol_version''), (lit ''event_id'', field envelope ''event_id''),
           (lit ''review_id'', field oc ''review_id''), (lit ''sequence_number'', field envelope ''sequence_number''),
           (lit ''idempotency_key'', key), (lit ''event_type'', jstr ty), (lit ''actor'', field envelope ''actor''),
           (lit ''event_timestamp'', nullish (field envelope ''event_timestamp'') (field oc ''occurred_at'')),
           (lit ''artifact_refs'', refs), (lit ''visibility'', field envelope ''visibility''),
           (lit ''canonicalization'', jstr ''rfc8785''), (lit ''identity_hash_algorithm'', jstr ''sha256''),
           (lit ''identity_input_excludes'', JArr [jstr ''event_id'']), (lit ''reason'', field oc ''customer_facing_summary'')]"

definition buildSubmissionOutcomeEvent ::
  "('a review_env_scheme) \<Rightarrow> jsval \<Rightarrow> jsval \<Rightarrow> unit + (outcomeRejection + jsval)" where
  "buildSubmissionOutcomeEvent E oc envelope =
     (if \<not> is_record oc \<or> \<not> is_record envelope then Inr (Inl Outcome_schema_invalid)
      else sbind (rejectionForSubmissionOutcome E oc) (\<lambda>outcomeRejection.
        Inr (case outcomeRejection of
          Some r \<Rightarrow> Inl r
        | None \<Rightarrow>
            if \<not> schema_valid E outcome_schema oc then Inl Outcome_schema_invalid
            else
              (case map_of SUBMISSION_FAILURE_EVENT_TYPE_BY_STATE (field oc ''outcome_state'') of
                 None \<Rightarrow> Inl Event_state_not_a_failure
               | Some expectedEventType \<Rightarrow>
                   (let ref = submissionOutcomeArtifactRef oc; refs = nullish (field envelope ''artifact_refs'') (JArr [JStr ref]);
                        key = submissionEventIdempotencyKey (plat E) oc;
                        used_key = nullish (field envelope ''idempotency_key'') (JStr key);
                        event = outcome_event (plat E) oc envelope expectedEventType used_key refs in
                    if \<not> strict_eq (nullish (field envelope ''event_type'') (jstr expectedEventType)) (jstr expectedEventType) then
                      Inl Event_type_state_mismatch
                    else if \<not> exactSingletonRef refs ref then Inl Event_missing_outcome_ref
                    else if \<not> strict_eq used_key (JStr key) then Inl Event_idempotency_key_not_derived
                    else if \<not> schema_valid E review_event_schema event then Inl Event_schema_invalid
                    else Inr event)))))"

section \<open>The notice a failed submission shows\<close>

definition isSubmissionFailureNoticeAudience :: "jsval \<Rightarrow> bool" where
  "isSubmissionFailureNoticeAudience v \<longleftrightarrow> one_of [''customer'', ''vendor'', ''ops''] v"

definition projectSubmissionFailureNotice :: "('a review_env_scheme) \<Rightarrow> jsval \<Rightarrow> jsval \<Rightarrow> unit + jsval" where
  "projectSubmissionFailureNotice E oc audience =
     (if \<not> is_record oc \<or> \<not> is_failure_state oc then Inr JNull
      else sbind (rejectionForSubmissionOutcome E oc) (\<lambda>r.
        if r \<noteq> None \<or> \<not> schema_valid E outcome_schema oc then Inr JNull
        else
          (let next_path = field oc ''next_path'' in
           Inr (JObj [(lit ''outcome_state'', field oc ''outcome_state''), (lit ''review_id'', field oc ''review_id''),
             (lit ''submission_outcome_id'', field oc ''submission_outcome_id''), (lit ''occurred_at'', field oc ''occurred_at''),
             (lit ''submission_identities'', field oc ''submission_identities''),
             (lit ''failure_reason_codes'', field oc ''failure_reason_codes''),
             (lit ''next_paths'', JArr (if next_path = jstr ''contact_support'' then [next_path] else [next_path, jstr ''contact_support''])),
             (lit ''customer_facing_summary'', field oc ''customer_facing_summary''),
             (lit ''audience'', if isSubmissionFailureNoticeAudience audience then audience else jstr ''customer'')]))))"

section \<open>The appender of the host\<close>

record appendSubmissionInput =
  a_reviewId :: ustr
  a_eventType :: string
  a_eventTimestamp :: ustr
  a_outcome :: jsval

definition VENDOR_SERVICE_ACTOR :: jsval where
  "VENDOR_SERVICE_ACTOR =
     JObj [(lit ''actor_type'', jstr ''vendor_service''), (lit ''actor_id'', jstr ''vendor_service:codeattest-intake'')]"

definition blank_event_id :: jsval where
  "blank_event_id = JStr (lit ''sha256:'' @ replicate 64 48)"

text \<open>The second copy of the key, in the host.\<close>

definition host_submissionEventIdempotencyKey :: "platform \<Rightarrow> jsval \<Rightarrow> ustr" where
  "host_submissionEventIdempotencyKey P oc =
     lit ''submission_attempt:'' @ js_string P (field oc ''bundle_instance_id'') @ lit '':'' @ js_string P (field oc ''submission_attempt_id'')"

definition draftEvent :: "('a review_env_scheme) \<Rightarrow> appendSubmissionInput \<Rightarrow> jsval \<Rightarrow> unit + jsval" where
  "draftEvent E input seq_no =
     (if a_eventType input = ''receipt_issued'' then
        Inr (JObj [(lit ''protocol_version'', field (a_outcome input) ''protocol_version''), (lit ''event_id'', blank_event_id),
           (lit ''review_id'', JStr (a_reviewId input)), (lit ''sequence_number'', seq_no),
           (lit ''idempotency_key'', JStr (host_submissionEventIdempotencyKey (plat E) (a_outcome input))),
           (lit ''event_type'', jstr ''receipt_issued''), (lit ''actor'', VENDOR_SERVICE_ACTOR),
           (lit ''event_timestamp'', JStr (a_eventTimestamp input)), (lit ''artifact_refs'', JArr [jstr ''artifact_ref:vendor_receipt'']),
           (lit ''visibility'', jstr ''customer_facing''), (lit ''canonicalization'', jstr ''rfc8785''),
           (lit ''identity_hash_algorithm'', jstr ''sha256''), (lit ''identity_input_excludes'', JArr [jstr ''event_id''])])
      else
        sbind (buildSubmissionOutcomeEvent E (a_outcome input)
            (JObj [(lit ''event_id'', blank_event_id), (lit ''sequence_number'', seq_no), (lit ''actor'', VENDOR_SERVICE_ACTOR),
                   (lit ''visibility'', jstr ''customer_facing'')])) (\<lambda>built.
          case built of Inl _ \<Rightarrow> Inl () | Inr event \<Rightarrow> Inr event))"

datatype appendSubmissionResult =
    AS_appended | AS_noop | AS_rejected "reviewRejection + appendRejectionReason"

definition with_event_id :: "jsval \<Rightarrow> ustr \<Rightarrow> jsval" where
  "with_event_id draft i = (case draft of JObj kvs \<Rightarrow> JObj (jm_set kvs (lit ''event_id'') (JStr i)) | v \<Rightarrow> v)"

text \<open>The event offered to a log that holds \<open>events\<close>.\<close>

definition submission_event :: "('a review_env_scheme) \<Rightarrow> jsval list \<Rightarrow> appendSubmissionInput \<Rightarrow> unit + jsval" where
  "submission_event E events input =
     (let existing = find_first (\<lambda>e. strict_eq (field e ''idempotency_key'')
            (JStr (host_submissionEventIdempotencyKey (plat E) (a_outcome input)))) events;
          count = jint (int (length events));
          seq_no = (case existing of None \<Rightarrow> count | Some e \<Rightarrow> nullish (field e ''sequence_number'') count) in
      sbind (draftEvent E input seq_no) (\<lambda>draft.
      sbind (computeReviewEventId E draft) (\<lambda>eventId. Inr (with_event_id draft eventId))))"

definition unit_throw :: "'t + 'a \<Rightarrow> unit + 'a" where
  "unit_throw r = (case r of Inl _ \<Rightarrow> Inl () | Inr x \<Rightarrow> Inr x)"

definition appendSubmissionReviewEvent ::
  "('a review_env_scheme) \<Rightarrow> log_state \<Rightarrow> appendSubmissionInput \<Rightarrow> unit + log_state \<times> appendSubmissionResult" where
  "appendSubmissionReviewEvent E logs input =
     sbind (unit_throw (loadLog (plat E) logs (a_reviewId input))) (\<lambda>events.
     sbind (submission_event E events input) (\<lambda>event.
     sbind (appendReviewEvent E (review_log (field event ''protocol_version'') (JStr (a_reviewId input)) events) event) (\<lambda>appended.
     case appended of
       RA_rejected r _ \<Rightarrow> Inr (logs, AS_rejected (Inl r))
     | RA_noop _ \<Rightarrow> Inr (logs, AS_noop)
     | RA_appended _ \<Rightarrow>
         sbind (unit_throw (log_append (plat E) logs (a_reviewId input) event)) (\<lambda>(logs', persisted).
         Inr (logs', case persisted of Rejected r \<Rightarrow> AS_rejected (Inr r) | Idempotent_noop _ \<Rightarrow> AS_noop | Appended _ \<Rightarrow> AS_appended)))))"


section \<open>What a recorded failure says\<close>

lemma failure_type_table:
  "map_of SUBMISSION_FAILURE_EVENT_TYPE_BY_STATE (field oc ''outcome_state'') = Some ty \<Longrightarrow>
   is_failure_state oc \<and> (ty = ''submission_rejected'' \<longleftrightarrow> field oc ''outcome_state'' = jstr ''rejected_no_receipt'') \<and>
   (ty = ''submission_quarantined'' \<longleftrightarrow> field oc ''outcome_state'' = jstr ''quarantined_no_receipt'')"
  by (auto simp: SUBMISSION_FAILURE_EVENT_TYPE_BY_STATE_def is_failure_state_def split: if_splits)

lemma outcome_accepted:
  assumes "rejectionForSubmissionOutcome E oc = Inr None" "is_failure_state oc"
  shows "field oc ''vendor_receipt_ref'' = JUndef" "the_array (field oc ''failure_reason_codes'') \<noteq> []"
    "claimSafeForbiddenPhrase (tx E) (field oc ''customer_facing_summary'') = None"
    "\<not> epic5NarrativeTextForbidden (tx E) (field oc ''customer_facing_summary'')"
    "rejectionForSubmissionIdentities oc = Inr None"
  using assms by (auto simp: rejectionForSubmissionOutcome_def Let_def split: if_splits option.splits)

lemma built_cases:
  assumes "buildSubmissionOutcomeEvent E oc envelope = Inr (Inr event)"
  obtains ty where "rejectionForSubmissionOutcome E oc = Inr None"
    "map_of SUBMISSION_FAILURE_EVENT_TYPE_BY_STATE (field oc ''outcome_state'') = Some ty"
    "event = outcome_event (plat E) oc envelope ty (JStr (submissionEventIdempotencyKey (plat E) oc))
       (JArr [JStr (submissionOutcomeArtifactRef oc)])"
    "schema_valid E review_event_schema event"
proof -
  have sing: "refs = JArr [JStr r]" if "exactSingletonRef refs r" for refs r
    using that by (cases refs) (auto simp: exactSingletonRef_def length_Suc_conv)
  show thesis
    using assms
    by (auto simp: buildSubmissionOutcomeEvent_def Let_def split: if_splits option.splits dest!: sing intro!: that)
qed

lemma failure_outcome:
  assumes "rejectionForSubmissionOutcome E oc = Inr None" "is_failure_state oc"
  shows "field oc ''vendor_receipt_ref'' = JUndef \<and> the_array (field oc ''failure_reason_codes'') \<noteq> [] \<and>
    claimSafeForbiddenPhrase (tx E) (field oc ''customer_facing_summary'') = None"
  using outcome_accepted [OF assms] by simp

text \<open>What an event about a failed submission says. An event is built only for an outcome in a
  failure state, without a receipt, with reason codes and with a summary that claims nothing it must
  not; the event has the type of that state, the key derived from the outcome's own bundle and attempt,
  and refers to exactly the outcome.\<close>

theorem failure_event_exact:
  assumes "buildSubmissionOutcomeEvent E oc envelope = Inr (Inr event)"
  shows "is_failure_state oc \<and> field oc ''vendor_receipt_ref'' = JUndef \<and> the_array (field oc ''failure_reason_codes'') \<noteq> [] \<and>
    claimSafeForbiddenPhrase (tx E) (field oc ''customer_facing_summary'') = None \<and>
    field event ''event_type'' = jstr (if field oc ''outcome_state'' = jstr ''rejected_no_receipt'' then ''submission_rejected'' else ''submission_quarantined'') \<and>
    field event ''idempotency_key'' = JStr (submissionEventIdempotencyKey (plat E) oc) \<and>
    field event ''artifact_refs'' = JArr [JStr (submissionOutcomeArtifactRef oc)] \<and>
    field event ''review_id'' = field oc ''review_id'' \<and> field event ''reason'' = field oc ''customer_facing_summary''"
  using assms
proof (rule built_cases)
  fix ty
  assume ok: "rejectionForSubmissionOutcome E oc = Inr None"
    and ty: "map_of SUBMISSION_FAILURE_EVENT_TYPE_BY_STATE (field oc ''outcome_state'') = Some ty"
    and ev: "event = outcome_event (plat E) oc envelope ty (JStr (submissionEventIdempotencyKey (plat E) oc)) (JArr [JStr (submissionOutcomeArtifactRef oc)])"
  have "ty = (if field oc ''outcome_state'' = jstr ''rejected_no_receipt'' then ''submission_rejected'' else ''submission_quarantined'')"
    using ty by (auto simp: SUBMISSION_FAILURE_EVENT_TYPE_BY_STATE_def split: if_splits)
  moreover have "is_failure_state oc" using failure_type_table [OF ty] by blast
  ultimately show ?thesis using failure_outcome [OF ok] ev by (simp add: outcome_event_def)
qed

text \<open>The notice shown for a failed submission: only for failures, always with the way to support.\<close>

lemma failure_notice:
  assumes "projectSubmissionFailureNotice E oc audience = Inr notice" "notice \<noteq> JNull"
  shows "is_failure_state oc \<and> field oc ''vendor_receipt_ref'' = JUndef \<and> the_array (field oc ''failure_reason_codes'') \<noteq> [] \<and>
    claimSafeForbiddenPhrase (tx E) (field oc ''customer_facing_summary'') = None \<and>
    jstr ''contact_support'' \<in> set (the_array (field notice ''next_paths'')) \<and>
    isSubmissionFailureNoticeAudience (field notice ''audience'')"
proof -
  have f: "is_failure_state oc" and r: "rejectionForSubmissionOutcome E oc = Inr None"
    using assms by (auto simp: projectSubmissionFailureNotice_def split: if_splits)
  have "isSubmissionFailureNoticeAudience (jstr ''customer'')" by code_simp
  with assms f failure_outcome [OF r f] show ?thesis
    by (auto simp: projectSubmissionFailureNotice_def Let_def split: if_splits)
qed

text \<open>A hostile identity type throws. When the first identity row of an outcome names a property of
  \<^verbatim>\<open>Object.prototype\<close> as its type and carries a string, building the event throws instead of
  answering with one of its rejections.\<close>

theorem prototype_identity_type_throws:
  assumes "field oc ''submission_identities'' = JArr (row # rows)" "is_record row" "is_record envelope"
    and "field row ''identity_type'' = JStr (lit name)" "name \<in> set OBJECT_PROTOTYPE_NAMES" "is_string (field row ''identity_value'')"
  shows "buildSubmissionOutcomeEvent E oc envelope = Inl ()"
proof -
  have "map_of SUBMISSION_IDENTITY_PATTERNS (lit name) = None"
    using assms(5) by (auto simp: SUBMISSION_IDENTITY_PATTERNS_def OBJECT_PROTOTYPE_NAMES_def)
  then have "submissionIdentityValueMatchesGrammar (lit name) (field row ''identity_value'') = Inl ()"
    using assms(5,6) by (simp add: submissionIdentityValueMatchesGrammar_def)
  then have "rejectionForSubmissionIdentities oc = Inl ()"
    using assms(1,2,4) by (simp add: rejectionForSubmissionIdentities_def)
  moreover have "is_record oc" using assms(1) by (cases oc) simp_all
  ultimately show ?thesis
    using assms(3) by (simp add: buildSubmissionOutcomeEvent_def rejectionForSubmissionOutcome_def)
qed

theorem prototype_identity_type_throws_witness:
  "buildSubmissionOutcomeEvent sample_review (JObj [(lit ''submission_identities'', JArr
     [JObj [(lit ''identity_type'', jstr ''constructor''), (lit ''identity_value'', jstr ''x'')]])]) (JObj []) = Inl ()"
  by (rule prototype_identity_type_throws [where name = "''constructor''" and rows = "[]" and
        row = "JObj [(lit ''identity_type'', jstr ''constructor''), (lit ''identity_value'', jstr ''x'')]"])
    (simp_all add: OBJECT_PROTOTYPE_NAMES_def)

section \<open>An outcome is recorded once\<close>

text \<open>What the \<^verbatim>\<open>canonicalize\<close> package documents: RFC 8785. It writes the text the protocol's own
  canonicalizer writes wherever that one answers, and the text determines the data.\<close>

definition jcs_rfc8785 :: "('a review_env_scheme) \<Rightarrow> bool" where
  "jcs_rfc8785 E \<longleftrightarrow>
     (\<forall>v t. json_data (plat E) v \<longrightarrow> canonicalizeProtocolJson (plat E) v = Inr t \<longrightarrow> jcs E v = JcsText t) \<and>
     (\<forall>v w t. json_data (plat E) v \<longrightarrow> json_data (plat E) w \<longrightarrow> jcs E v = JcsText t \<longrightarrow> jcs E w = JcsText t \<longrightarrow> norm_js v = norm_js w)"

lemma jcs_text:
  "jcs_rfc8785 E \<Longrightarrow> json_data (plat E) v \<Longrightarrow> canonicalizeProtocolJson (plat E) v = Inr t \<Longrightarrow> jcs E v = JcsText t"
  unfolding jcs_rfc8785_def by blast

lemma append_under_used_key:
  assumes "find_first (\<lambda>e. strict_eq (field e ''idempotency_key'') (field event ''idempotency_key'')) events = Some x"
    and "appendReviewEvent E (review_log pv rid events) event = Inr r"
  shows "(\<exists>q l. r = RA_rejected q l) \<or> (\<exists>l. r = RA_noop l \<and> stableEquals E x event = Inr True)"
  using assms by (auto simp: appendReviewEvent_def split: if_splits)

lemma append_noop_intro:
  assumes "find_first (\<lambda>e. strict_eq (field e ''idempotency_key'') (field event ''idempotency_key'')) events = Some x"
    and "strict_eq (field x ''event_id'') (field event ''event_id'')" "stableEquals E x event = Inr True"
    and "cloneable (review_log pv rid events)" "cloneable event" "reviewEventLogIsValid E (review_log pv rid events)" "is_record event"
    and "strict_eq (field event ''protocol_version'') pv" "strict_eq (field event ''review_id'') rid"
    and "is_sequence_number (field event ''sequence_number'')"
  shows "appendReviewEvent E (review_log pv rid events) event = Inr (RA_noop (review_log pv rid events))"
  using assms by (simp add: appendReviewEvent_def cloneJson_def cloneAndFreezeReviewEventLog_def)

lemma stableEquals_text:
  "stableEquals E v w = Inr True \<longleftrightarrow> (\<exists>t. jcs E v = JcsText t \<and> jcs E w = JcsText t)"
  by (auto simp: stableEquals_def split: jcs_result.splits)


lemma cloneable_norm [simp]: "cloneable (norm_js v) \<longleftrightarrow> cloneable v"
  by (induction v rule: norm_js.induct) auto

text \<open>An outcome of the declared type: JSON data with the string members the schema requires; and strings
  of 16-bit code units, as every string of the program is.\<close>

definition OUTCOME_STRINGS :: "string list" where
  "OUTCOME_STRINGS = [''protocol_version'', ''review_id'', ''submission_outcome_id'', ''bundle_instance_id'', ''submission_attempt_id'',
     ''occurred_at'', ''customer_facing_summary'']"

definition outcome_input_ok :: "('a review_env_scheme) \<Rightarrow> appendSubmissionInput \<Rightarrow> bool" where
  "outcome_input_ok E input \<longleftrightarrow> json_data (plat E) (a_outcome input) \<and> code_units (a_reviewId input) \<and>
     code_units (a_eventTimestamp input) \<and> list_all (\<lambda>k. is_string (field (a_outcome input) k)) OUTCOME_STRINGS"

lemma host_key_same: "submissionEventIdempotencyKey = host_submissionEventIdempotencyKey"
  by (simp add: fun_eq_iff submissionEventIdempotencyKey_def host_submissionEventIdempotencyKey_def)

lemma code_units_append [simp]: "code_units (s @ t) \<longleftrightarrow> code_units s \<and> code_units t"
  by (auto simp: code_units_def)

lemma host_key_units:
  assumes "outcome_input_ok E input"
  shows "code_units (host_submissionEventIdempotencyKey (plat E) (a_outcome input))"
proof -
  have "code_units (the_str (field (a_outcome input) k))" for k
    using assms json_data_field_str [of "plat E"] by (auto simp: outcome_input_ok_def)
  then show ?thesis
    using assms by (simp add: outcome_input_ok_def OUTCOME_STRINGS_def host_submissionEventIdempotencyKey_def js_string_JStr_iff)
qed

lemma draft_failure:
  assumes "draftEvent E input n = Inr draft" "a_eventType input \<noteq> ''receipt_issued''"
  obtains ty envelope where
    "draft = outcome_event (plat E) (a_outcome input) envelope ty (JStr (host_submissionEventIdempotencyKey (plat E) (a_outcome input)))
       (JArr [JStr (submissionOutcomeArtifactRef (a_outcome input))])"
    "envelope = JObj [(lit ''event_id'', blank_event_id), (lit ''sequence_number'', n), (lit ''actor'', VENDOR_SERVICE_ACTOR),
       (lit ''visibility'', jstr ''customer_facing'')]"
    "map_of SUBMISSION_FAILURE_EVENT_TYPE_BY_STATE (field (a_outcome input) ''outcome_state'') = Some ty"
proof -
  obtain envelope where env: "envelope = JObj [(lit ''event_id'', blank_event_id), (lit ''sequence_number'', n), (lit ''actor'', VENDOR_SERVICE_ACTOR),
       (lit ''visibility'', jstr ''customer_facing'')]" by simp
  with assms have "buildSubmissionOutcomeEvent E (a_outcome input) envelope = Inr (Inr draft)"
    by (auto simp: draftEvent_def) (metis sum.case(1,2) old.sum.exhaust Inr_inject Inl_Inr_False)
  then show thesis using env that by (elim built_cases) (simp add: host_key_same)
qed

lemma draft_cases:
  assumes "draftEvent E input n = Inr draft"
  shows "\<exists>kvs. draft = JObj kvs \<and> map_of kvs (lit ''event_id'') \<noteq> None"
    "field draft ''idempotency_key'' = JStr (host_submissionEventIdempotencyKey (plat E) (a_outcome input))"
    "field draft ''sequence_number'' = n"
    "a_eventType input = ''receipt_issued'' \<longrightarrow> field draft ''event_timestamp'' = JStr (a_eventTimestamp input)"
  using assms
  by (cases "a_eventType input = ''receipt_issued''";
      force simp: draftEvent_def outcome_event_def elim!: draft_failure [OF assms])+

lemma draft_json:
  assumes "draftEvent E input n = Inr draft" "outcome_input_ok E input" "json_data (plat E) n"
  shows "json_data (plat E) draft"
proof -
  have k: "code_units (host_submissionEventIdempotencyKey (plat E) (a_outcome input))"
    using assms(2) by (rule host_key_units)
  have "json_data (plat E) (field (a_outcome input) k)" if "k \<in> set OUTCOME_STRINGS" for k
  proof -
    have "is_string (field (a_outcome input) k)" using assms(2) that by (auto simp: outcome_input_ok_def list_all_iff)
    then show ?thesis using assms(2) by (intro json_data_field) (auto simp: outcome_input_ok_def)
  qed
  then have o: "json_data (plat E) (field (a_outcome input) ''protocol_version'')" "json_data (plat E) (field (a_outcome input) ''review_id'')"
    "json_data (plat E) (field (a_outcome input) ''occurred_at'')" "json_data (plat E) (field (a_outcome input) ''customer_facing_summary'')"
    by (simp_all add: OUTCOME_STRINGS_def)
  have r: "code_units (submissionOutcomeArtifactRef (a_outcome input))"
    using assms(2) json_data_field_str [of "plat E" "a_outcome input" "lit ''submission_outcome_id''"]
    by (auto simp: submissionOutcomeArtifactRef_def slice_from_def outcome_input_ok_def code_units_def [of "drop _ _"]
        code_units_def [of "the_str _"] dest!: in_set_dropD)
  show ?thesis
  proof (cases "a_eventType input = ''receipt_issued''")
    case True
    then show ?thesis using assms k o by (auto simp: draftEvent_def outcome_input_ok_def VENDOR_SERVICE_ACTOR_def blank_event_id_def
        code_units_def [of "replicate _ _"])
  next
    case False
    from assms(1) this show ?thesis
    proof (rule draft_failure)
      fix ty envelope
      assume "draft = outcome_event (plat E) (a_outcome input) envelope ty
          (JStr (host_submissionEventIdempotencyKey (plat E) (a_outcome input))) (JArr [JStr (submissionOutcomeArtifactRef (a_outcome input))])"
        "envelope = JObj [(lit ''event_id'', blank_event_id), (lit ''sequence_number'', n), (lit ''actor'', VENDOR_SERVICE_ACTOR),
          (lit ''visibility'', jstr ''customer_facing'')]"
      then show ?thesis using assms(3) k o r
        by (simp add: outcome_event_def VENDOR_SERVICE_ACTOR_def blank_event_id_def nullish_def code_units_def [of "replicate _ _"])
    qed
  qed
qed


lemma submission_event_cases:
  assumes "submission_event E events input = Inr event"
  obtains n draft i where "draftEvent E input n = Inr draft" "computeReviewEventId E draft = Inr i" "event = with_event_id draft i"
    "n = (case find_first (\<lambda>e. strict_eq (field e ''idempotency_key'')
            (JStr (host_submissionEventIdempotencyKey (plat E) (a_outcome input)))) events of
          None \<Rightarrow> jint (int (length events)) | Some e \<Rightarrow> nullish (field e ''sequence_number'') (jint (int (length events))))"
  using assms by (auto simp: submission_event_def Let_def)

lemma with_event_id_field: "(\<exists>kvs. draft = JObj kvs) \<Longrightarrow> k \<noteq> ''event_id'' \<Longrightarrow> field (with_event_id draft i) k = field draft k"
  by (auto simp: with_event_id_def)

lemma with_event_id_json:
  assumes "json_data P (JObj kvs)" "code_units i"
  shows "json_data P (with_event_id (JObj kvs) i)"
proof -
  have "distinct (map fst (jm_set kvs (lit ''event_id'') (JStr i)))"
    using assms(1) jm_wf_set by (auto simp: jm_wf_def)
  moreover have "set (jm_set kvs (lit ''event_id'') (JStr i)) \<subseteq> insert (lit ''event_id'', JStr i) (set kvs)"
    by (induction kvs "lit ''event_id''" "JStr i" rule: jm_set.induct) auto
  ultimately show ?thesis using assms by (auto simp: with_event_id_def)
qed

lemma submission_event_facts:
  assumes "submission_event E events input = Inr event"
  shows "is_record event" "field event ''idempotency_key'' = JStr (host_submissionEventIdempotencyKey (plat E) (a_outcome input))"
    "a_eventType input = ''receipt_issued'' \<Longrightarrow> field event ''event_timestamp'' = JStr (a_eventTimestamp input)"
    "is_string (field event ''event_id'')"
proof -
  from assms obtain n draft i where d: "draftEvent E input n = Inr draft" and ev: "event = with_event_id draft i"
    by (rule submission_event_cases)
  from draft_cases(1) [OF d] obtain kvs where kvs: "draft = JObj kvs" by blast
  note f = draft_cases [OF d] with_event_id_field [of draft _ i] ev kvs
  show "is_record event" "field event ''idempotency_key'' = JStr (host_submissionEventIdempotencyKey (plat E) (a_outcome input))"
    "a_eventType input = ''receipt_issued'' \<Longrightarrow> field event ''event_timestamp'' = JStr (a_eventTimestamp input)"
    "is_string (field event ''event_id'')"
    using f by (simp_all add: with_event_id_def)
qed

lemma sha256ProtocolText_units: "sha256_digests P \<Longrightarrow> code_units (sha256ProtocolText P t)"
proof -
  assume "sha256_digests P"
  then have "list_all is_lower_hex (to_hex (sha256 P (utf8 t)))"
    by (intro to_hex_lower) (simp add: sha256_digests_def)
  then show ?thesis by (auto simp: sha256ProtocolText_def code_units_def [of "to_hex _"] list_all_iff is_lower_hex_def)
qed

lemma submission_event_json:
  assumes "submission_event E events input = Inr event" "outcome_input_ok E input" "sha256_digests (plat E)"
    and "\<forall>e \<in> set events. json_data (plat E) e"
  shows "json_data (plat E) event"
  using assms(1)
proof (rule submission_event_cases)
  fix n draft i
  assume d: "draftEvent E input n = Inr draft" and i: "computeReviewEventId E draft = Inr i" and ev: "event = with_event_id draft i"
    and n: "n = (case find_first (\<lambda>e. strict_eq (field e ''idempotency_key'')
            (JStr (host_submissionEventIdempotencyKey (plat E) (a_outcome input)))) events of
          None \<Rightarrow> jint (int (length events)) | Some e \<Rightarrow> nullish (field e ''sequence_number'') (jint (int (length events))))"
  have "json_data (plat E) n"
    using assms(4) by (auto simp: n nullish_def json_data_field split: option.split dest!: find_first_SomeD)
  from draft_json [OF d assms(2) this] draft_cases(1) [OF d] obtain kvs where "draft = JObj kvs" "json_data (plat E) (JObj kvs)" by auto
  moreover have "code_units i"
    using i sha256ProtocolText_units [OF assms(3)] by (auto simp: computeReviewEventId_def split: jcs_result.splits)
  ultimately show ?thesis using ev with_event_id_json by simp
qed


lemma log_events_json:
  assumes "log_inv P logs" "loadLog P logs r = Inr events"
  shows "events = log_events P logs r" "\<forall>e \<in> set events. json_data P e"
proof -
  show ev: "events = log_events P logs r" using assms(2) by (simp add: log_events_def)
  show "\<forall>e \<in> set events. json_data P e"
    using log_events_append(2) [OF assms(1), of r] unfolding ev
    by (induction rule: list_all2_induct) (auto simp: entry_of_def json_data_norm)
qed

text \<open>What the drafted event says, whichever of the two ways it was built.\<close>

lemma draft_members:
  assumes "draftEvent E input n = Inr draft"
  shows "field draft ''actor'' = VENDOR_SERVICE_ACTOR"
    "a_eventType input = ''receipt_issued'' \<Longrightarrow> field draft ''event_type'' = jstr ''receipt_issued''"
    "a_eventType input \<noteq> ''receipt_issued'' \<Longrightarrow>
       \<exists>ty. map_of SUBMISSION_FAILURE_EVENT_TYPE_BY_STATE (field (a_outcome input) ''outcome_state'') = Some ty \<and> field draft ''event_type'' = jstr ty"
  using assms
  by (cases "a_eventType input = ''receipt_issued''"; force simp: draftEvent_def outcome_event_def elim!: draft_failure [OF assms])+

lemma content_addressed_with_id:
  assumes "computeReviewEventId E (JObj kvs) = Inr i"
  shows "content_addressed E (with_event_id (JObj kvs) i)"
proof -
  have "filter (\<lambda>p. fst p \<noteq> k) (jm_set m k v) = filter (\<lambda>p. fst p \<noteq> k) m" for m and k :: ustr and v :: jsval
    by (induction m k v rule: jm_set.induct) auto
  then have "computeReviewEventId E (with_event_id (JObj kvs) i) = Inr i"
    using assms by (simp add: computeReviewEventId_def without_field_def with_event_id_def)
  then show ?thesis by (simp add: content_addressed_def with_event_id_def)
qed

text \<open>C35: what is offered to the review log is a well-typed event, whatever the log holds: JSON data at every
  depth, whose identity is the hash of the rest of it in the form of a SHA-256 identity (not the
  placeholder of the draft, unless that is the hash), under the key of the outcome's bundle and attempt,
  by the vendor service, of the type that was asked for a receipt and of the type of the outcome's state
  otherwise, and with the number of events as its sequence number when the key is new.\<close>

theorem submission_event_well_typed:
  assumes "submission_event E events input = Inr event" "outcome_input_ok E input" "sha256_digests (plat E)"
    and "log_inv (plat E) logs" "loadLog (plat E) logs rid = Inr events"
  shows "json_data (plat E) event \<and> content_addressed E event \<and> (\<exists>i. field event ''event_id'' = JStr i \<and> is_sha256_id i) \<and>
    field event ''idempotency_key'' = JStr (lit ''submission_attempt:'' @ the_str (field (a_outcome input) ''bundle_instance_id'') @ lit '':''
      @ the_str (field (a_outcome input) ''submission_attempt_id'')) \<and>
    field event ''actor'' = VENDOR_SERVICE_ACTOR \<and>
    (if a_eventType input = ''receipt_issued'' then field event ''event_type'' = jstr ''receipt_issued''
     else \<exists>ty. map_of SUBMISSION_FAILURE_EVENT_TYPE_BY_STATE (field (a_outcome input) ''outcome_state'') = Some ty \<and> field event ''event_type'' = jstr ty) \<and>
    ((\<forall>e \<in> set events. field e ''idempotency_key'' \<noteq> field event ''idempotency_key'') \<longrightarrow>
      field event ''sequence_number'' = jint (int (length events)))"
  using assms(1)
proof (rule submission_event_cases)
  fix n draft i
  let ?key = "JStr (host_submissionEventIdempotencyKey (plat E) (a_outcome input))"
  assume d: "draftEvent E input n = Inr draft" and i: "computeReviewEventId E draft = Inr i" and ev: "event = with_event_id draft i"
    and n: "n = (case find_first (\<lambda>e. strict_eq (field e ''idempotency_key'') ?key) events of
          None \<Rightarrow> jint (int (length events)) | Some e \<Rightarrow> nullish (field e ''sequence_number'') (jint (int (length events))))"
  obtain kvs where kvs: "draft = JObj kvs" using draft_cases(1) [OF d] by blast
  have "is_sha256_id i"
    using i sha256ProtocolText_id [OF assms(3)] by (auto simp: computeReviewEventId_def split: jcs_result.splits)
  moreover have "field event ''event_id'' = JStr i" using kvs ev by (simp add: with_event_id_def)
  moreover have "json_data (plat E) event"
    using submission_event_json [OF assms(1-3)] log_events_json(2) [OF assms(4,5)] by blast
  moreover have "content_addressed E event" using content_addressed_with_id i ev kvs by simp
  moreover have "?key = JStr (lit ''submission_attempt:'' @ the_str (field (a_outcome input) ''bundle_instance_id'') @ lit '':''
      @ the_str (field (a_outcome input) ''submission_attempt_id''))"
    using assms(2) by (simp add: host_submissionEventIdempotencyKey_def outcome_input_ok_def OUTCOME_STRINGS_def js_string_JStr_iff)
  moreover have "n = jint (int (length events))" if "\<forall>e \<in> set events. field e ''idempotency_key'' \<noteq> ?key"
    using that n by (auto split: option.split dest!: find_first_SomeD)
  ultimately show ?thesis
    using draft_members [OF d] draft_cases(2,3) [OF d] with_event_id_field [of draft _ i] kvs ev by simp
qed

lemma unit_throw_Inr [simp]: "unit_throw r = Inr x \<longleftrightarrow> r = Inr x"
  by (auto simp: unit_throw_def split: sum.splits)

lemma unit_throw_of_Inr [simp]: "unit_throw (Inr x) = Inr x"
  by (simp add: unit_throw_def)

lemma appended_cases:
  assumes "appendSubmissionReviewEvent E logs input = Inr (logs', AS_appended)"
  obtains events event l x where "loadLog (plat E) logs (a_reviewId input) = Inr events" "submission_event E events input = Inr event"
    "appendReviewEvent E (review_log (field event ''protocol_version'') (JStr (a_reviewId input)) events) event = Inr (RA_appended l)"
    "log_append (plat E) logs (a_reviewId input) event = Inr (logs', Appended x)"
proof -
  from assms obtain events event a where s: "loadLog (plat E) logs (a_reviewId input) = Inr events" "submission_event E events input = Inr event"
    and a: "appendReviewEvent E (review_log (field event ''protocol_version'') (JStr (a_reviewId input)) events) event = Inr a"
    and r: "(case a of RA_rejected r _ \<Rightarrow> Inr (logs, AS_rejected (Inl r)) | RA_noop _ \<Rightarrow> Inr (logs, AS_noop)
      | RA_appended _ \<Rightarrow> sbind (unit_throw (log_append (plat E) logs (a_reviewId input) event)) (\<lambda>(logs', persisted).
          Inr (logs', case persisted of Rejected r \<Rightarrow> AS_rejected (Inr r) | Idempotent_noop _ \<Rightarrow> AS_noop | Appended _ \<Rightarrow> AS_appended)))
      = Inr (logs', AS_appended)"
    by (auto simp: appendSubmissionReviewEvent_def)
  then obtain l p where "a = RA_appended l" "log_append (plat E) logs (a_reviewId input) event = Inr (logs', p)"
    "(case p of Rejected r \<Rightarrow> AS_rejected (Inr r) | Idempotent_noop _ \<Rightarrow> AS_noop | Appended _ \<Rightarrow> AS_appended) = AS_appended"
    by (cases a) auto
  with s a show thesis by (cases p) (auto intro: that)
qed

text \<open>The log after an outcome was recorded: its last event is the one of the outcome, under a key no
  other event has.\<close>

lemma recorded_log:
  assumes "appendSubmissionReviewEvent E logs input = Inr (logs', AS_appended)"
    and "log_inv (plat E) logs" "outcome_input_ok E input" "sha256_digests (plat E)"
  obtains events event where "submission_event E events input = Inr event" "json_data (plat E) event" "log_inv (plat E) logs'"
    "loadLog (plat E) logs' (a_reviewId input) = Inr (events @ [norm_js event])"
    "event_admitted E (review_log (field event ''protocol_version'') (JStr (a_reviewId input)) events) event"
    "cloneable (review_log (field event ''protocol_version'') (JStr (a_reviewId input)) events)" "cloneable event"
    "\<exists>t. canonicalizeProtocolJson (plat E) event = Inr t" "field event ''protocol_version'' = jstr ''codeattest.v0''"
  using assms(1)
proof (rule appended_cases)
  fix events event l x
  assume ld: "loadLog (plat E) logs (a_reviewId input) = Inr events" and ev: "submission_event E events input = Inr event"
    and ap: "appendReviewEvent E (review_log (field event ''protocol_version'') (JStr (a_reviewId input)) events) event = Inr (RA_appended l)"
    and lg: "log_append (plat E) logs (a_reviewId input) event = Inr (logs', Appended x)"
  have j: "json_data (plat E) event"
    using submission_event_json [OF ev assms(3,4)] log_events_json(2) [OF assms(2) ld] by blast
  have c: "\<exists>t. canonicalizeProtocolJson (plat E) event = Inr t"
    using lg by (auto simp: log_append_def Let_def toCanonicalRow_iff)
  with j have st: "storable (plat E) event" by (simp add: storable_def)
  from memory_log.append_appended [OF assms(2) st lg] memory_log.append_inv [OF assms(2) st lg] log_events_json(1) [OF assms(2) ld]
  have "log_events (plat E) logs' (a_reviewId input) = events @ [norm_js event]" "log_inv (plat E) logs'" by simp_all
  moreover have "loadLog (plat E) logs' r = Inr (log_events (plat E) logs' r)" for r
    using log_events_append(1) [OF calculation(2), of r] by (simp add: loadLog_def)
  ultimately show thesis
    using that [OF ev j] ap c by (auto simp: review_appended_iff reviewEventLogIsValid_def)
qed

text \<open>The first event under the key of a recorded outcome.\<close>

lemma recorded_key:
  assumes "event_admitted E (review_log pv rid events) event" "json_data (plat E) event" "field event ''idempotency_key'' = JStr k"
  shows "find_first (\<lambda>e. strict_eq (field e ''idempotency_key'') (JStr k)) (events @ norm_js event # rest) = Some (norm_js event)"
proof -
  have "find_first (\<lambda>e. strict_eq (field e ''idempotency_key'') (JStr k)) events = None"
    using assms(1,3) by (simp add: event_admitted_def find_first_None)
  then show ?thesis
    using assms(3) field_norm_js [OF assms(2)] by (simp add: find_first_append)
qed


lemma same_sequence:
  assumes "submission_event E events input = Inr event" "event_admitted E (review_log pv rid events) event" "json_data (plat E) event"
  shows "submission_event E (events @ [norm_js event]) input = Inr event"
proof -
  let ?k = "host_submissionEventIdempotencyKey (plat E) (a_outcome input)"
  have k: "field event ''idempotency_key'' = JStr ?k" by (rule submission_event_facts(2) [OF assms(1)])
  have none: "find_first (\<lambda>e. strict_eq (field e ''idempotency_key'') (JStr ?k)) events = None"
    using assms(2) k by (simp add: event_admitted_def find_first_None)
  from assms(1) obtain n draft i where d: "draftEvent E input n = Inr draft" "computeReviewEventId E draft = Inr i" "event = with_event_id draft i"
    and n: "n = jint (int (length events))"
    using none by (auto simp: submission_event_def)
  from draft_cases(1,3) [OF d(1)] d(3) with_event_id_field [of draft "''sequence_number''" i] have "field event ''sequence_number'' = n" by auto
  then have "field (norm_js event) ''sequence_number'' = n" using field_norm_js [OF assms(3)] n by simp
  with recorded_key [OF assms(2,3) k] n d show ?thesis
    by (simp add: submission_event_def nullish_def)
qed

text \<open>Recording an outcome is idempotent. Once the event of an outcome has been appended, offering
  the same outcome with the same timestamp again leaves the log as it is and answers that the event is
  already there, provided the stored log reads back as a valid review log.\<close>

theorem outcome_recorded_once:
  assumes "appendSubmissionReviewEvent E logs input = Inr (logs', AS_appended)"
    and "log_inv (plat E) logs" "outcome_input_ok E input" "sha256_digests (plat E)" "jcs_rfc8785 E"
    and "reviewEventLogIsValid E (review_log (jstr ''codeattest.v0'') (JStr (a_reviewId input)) (log_events (plat E) logs' (a_reviewId input)))"
  shows "appendSubmissionReviewEvent E logs' input = Inr (logs', AS_noop)"
  using assms(1-4)
proof (rule recorded_log)
  fix events event
  let ?log = "review_log (field event ''protocol_version'') (JStr (a_reviewId input))"
  assume ev: "submission_event E events input = Inr event" and j: "json_data (plat E) event" and inv: "log_inv (plat E) logs'"
    and ld: "loadLog (plat E) logs' (a_reviewId input) = Inr (events @ [norm_js event])"
    and adm: "event_admitted E (?log events) event" and cl: "cloneable (?log events)" "cloneable event"
    and can: "\<exists>t. canonicalizeProtocolJson (plat E) event = Inr t" and pv: "field event ''protocol_version'' = jstr ''codeattest.v0''"
  have same: "stableEquals E (norm_js event) event = Inr True"
  proof -
    obtain t where t: "canonicalizeProtocolJson (plat E) event = Inr t" using can by blast
    have "jcs E event = JcsText t" by (rule jcs_text [OF assms(5) j t])
    moreover have "jcs E (norm_js event) = JcsText t"
      using t by (intro jcs_text [OF assms(5) json_data_norm [OF j]]) (simp add: canonicalize_norm)
    ultimately show ?thesis by (simp add: stableEquals_text)
  qed
  have "appendReviewEvent E (?log (events @ [norm_js event])) event = Inr (RA_noop (?log (events @ [norm_js event])))"
  proof (rule append_noop_intro)
    show "find_first (\<lambda>e. strict_eq (field e ''idempotency_key'') (field event ''idempotency_key'')) (events @ [norm_js event]) = Some (norm_js event)"
      using recorded_key [OF adm j] submission_event_facts(2) [OF ev] by simp
    show "reviewEventLogIsValid E (?log (events @ [norm_js event]))"
      using assms(6) log_events_json(1) [OF inv ld] pv by simp
    show "strict_eq (field (norm_js event) ''event_id'') (field event ''event_id'')"
      using submission_event_facts(4) [OF ev] field_norm_js [OF j] by (auto simp: is_string_iff)
    show "cloneable (?log (events @ [norm_js event]))"
      using cl by (auto simp: review_log_def)
  qed (use adm same cl in \<open>auto simp: event_admitted_def\<close>)
  with ld same_sequence [OF ev adm j] show ?thesis
    by (simp add: appendSubmissionReviewEvent_def)
qed

text \<open>C39: the retry of a receipt needs the old timestamp. Once the event of an issued receipt has been
  appended, and whatever else has been appended to any log since, every attempt to record the same
  outcome with another timestamp is refused, or throws, and the log stays as it is: whoever retries with
  the current time can never succeed.\<close>

theorem outcome_retry_needs_same_timestamp:
  assumes "appendSubmissionReviewEvent E logs input = Inr (logs', AS_appended)"
    and "log_inv (plat E) logs" "outcome_input_ok E input" "sha256_digests (plat E)" "jcs_rfc8785 E"
    and "a_eventType input = ''receipt_issued''" "code_units later" "later \<noteq> a_eventTimestamp input"
    and "\<forall>op \<in> set ops. storable (plat E) (snd op)" "logs2 = run_appends (log_append (plat E)) logs' ops"
  shows "appendSubmissionReviewEvent E logs2 (input\<lparr>a_eventTimestamp := later\<rparr>) = Inl () \<or>
    (\<exists>reason. appendSubmissionReviewEvent E logs2 (input\<lparr>a_eventTimestamp := later\<rparr>) = Inr (logs2, AS_rejected (Inl reason)))"
  using assms(1-4)
proof (rule recorded_log)
  fix events event
  let ?in = "input\<lparr>a_eventTimestamp := later\<rparr>"
  assume ev: "submission_event E events input = Inr event" and j: "json_data (plat E) event" and inv': "log_inv (plat E) logs'"
    and ld': "loadLog (plat E) logs' (a_reviewId input) = Inr (events @ [norm_js event])"
    and adm: "event_admitted E (review_log (field event ''protocol_version'') (JStr (a_reviewId input)) events) event"
  obtain new where inv: "log_inv (plat E) logs2" and ld: "loadLog (plat E) logs2 (a_reviewId input) = Inr (events @ norm_js event # new)"
    using memory_log.run_extends [OF inv' assms(9), of "a_reviewId input"] log_events_json(1) [OF inv' ld', symmetric]
      log_events_append(1) [of "plat E" logs2 "a_reviewId input"] by (auto simp: assms(10) loadLog_def)
  show ?thesis
  proof (cases "submission_event E (events @ norm_js event # new) ?in")
    case (Inl u)
    then show ?thesis using ld by (simp add: appendSubmissionReviewEvent_def)
  next
    case (Inr retry)
    have rj: "json_data (plat E) retry"
      using submission_event_json [OF Inr _ assms(4)] assms(3,7) log_events_json(2) [OF inv ld] by (simp add: outcome_input_ok_def)
    have t: "field retry ''event_timestamp'' \<noteq> field event ''event_timestamp''"
      using submission_event_facts(3) [OF Inr] submission_event_facts(3) [OF ev] assms(6,8) by simp
    have differ: "\<not> stableEquals E (norm_js event) retry = Inr True"
    proof
      assume "stableEquals E (norm_js event) retry = Inr True"
      then have "norm_js (norm_js event) = norm_js retry"
        using assms(5) json_data_norm [OF j] rj unfolding stableEquals_text jcs_rfc8785_def by blast
      then have "norm_js (field (norm_js event) ''event_timestamp'') = norm_js (field retry ''event_timestamp'')"
        using field_norm_js [OF json_data_norm [OF j]] field_norm_js [OF rj] by metis
      then show False
        using t submission_event_facts(3) [OF Inr] submission_event_facts(3) [OF ev] assms(6) field_norm_js [OF j] by simp
    qed
    have key: "find_first (\<lambda>e. strict_eq (field e ''idempotency_key'') (field retry ''idempotency_key'')) (events @ norm_js event # new) = Some (norm_js event)"
      using recorded_key [OF adm j] submission_event_facts(2) [OF ev] submission_event_facts(2) [OF Inr] by simp
    let ?ap = "appendReviewEvent E (review_log (field retry ''protocol_version'') (JStr (a_reviewId input)) (events @ norm_js event # new)) retry"
    show ?thesis
    proof (cases ?ap)
      case (Inl u)
      then show ?thesis using ld \<open>submission_event E _ ?in = Inr retry\<close> by (simp add: appendSubmissionReviewEvent_def)
    next
      case (Inr r)
      from append_under_used_key [OF key this] differ obtain q l where "r = RA_rejected q l" by blast
      with Inr ld \<open>submission_event E _ ?in = Inr retry\<close> show ?thesis by (simp add: appendSubmissionReviewEvent_def)
    qed
  qed
qed


section \<open>A log small enough to evaluate\<close>

definition sample_constant :: platform where
  "sample_constant = sample_platform\<lparr>sha256 := (\<lambda>_. replicate 32 7)\<rparr>"

definition sample_outcome_env :: review_env where
  "sample_outcome_env = \<lparr>schema_valid = (\<lambda>_ _. True),
     jcs = (\<lambda>v. case canonicalizeProtocolJson sample_constant v of Inr t \<Rightarrow> JcsText t | Inl _ \<Rightarrow> JcsThrow),
     plat = sample_constant, tx = sample_text\<rparr>"

definition sample_outcome_input :: appendSubmissionInput where
  "sample_outcome_input = \<lparr>a_reviewId = lit ''review:abc'', a_eventType = ''receipt_issued'', a_eventTimestamp = lit ''2024-01-01T00:00:00Z'',
     a_outcome = JObj [(lit ''protocol_version'', jstr ''codeattest.v0''), (lit ''review_id'', jstr ''review:abc''),
       (lit ''submission_outcome_id'', jstr ''submission_outcome:a''), (lit ''bundle_instance_id'', jstr ''b''), (lit ''submission_attempt_id'', jstr ''a''),
       (lit ''occurred_at'', jstr ''2024-01-01T00:00:00Z''), (lit ''customer_facing_summary'', jstr ''received'')]\<rparr>"

lemma sample_outcome_hyps:
  "jcs_rfc8785 sample_outcome_env" "outcome_input_ok sample_outcome_env sample_outcome_input"
  "sha256_digests (plat sample_outcome_env)" "log_inv (plat sample_outcome_env) []"
proof -
  show "jcs_rfc8785 sample_outcome_env"
    using canonicalize_eq_iff [of sample_constant]
    by (auto simp: jcs_rfc8785_def sample_outcome_env_def split: sum.splits)
  show "outcome_input_ok sample_outcome_env sample_outcome_input"
    by (simp add: outcome_input_ok_def OUTCOME_STRINGS_def sample_outcome_input_def)
  show "sha256_digests (plat sample_outcome_env)" by (simp add: sample_outcome_env_def sample_constant_def sha256_digests_def byte_string_def)
  show "log_inv (plat sample_outcome_env) []" by (simp add: log_inv_def log_entries_def)
qed

definition sample_outcome_event :: jsval where
  "sample_outcome_event =
     JObj [(lit ''protocol_version'', jstr ''codeattest.v0''), (lit ''event_id'', JStr (lit ''sha256:'' @ concat (replicate 32 (lit ''07'')))),
           (lit ''review_id'', jstr ''review:abc''), (lit ''sequence_number'', jint 0), (lit ''idempotency_key'', jstr ''submission_attempt:b:a''),
           (lit ''event_type'', jstr ''receipt_issued''), (lit ''actor'', VENDOR_SERVICE_ACTOR),
           (lit ''event_timestamp'', jstr ''2024-01-01T00:00:00Z''), (lit ''artifact_refs'', JArr [jstr ''artifact_ref:vendor_receipt'']),
           (lit ''visibility'', jstr ''customer_facing''), (lit ''canonicalization'', jstr ''rfc8785''),
           (lit ''identity_hash_algorithm'', jstr ''sha256''), (lit ''identity_input_excludes'', JArr [jstr ''event_id''])]"

lemma sample_outcome_step:
  "submission_event sample_outcome_env [] sample_outcome_input = Inr sample_outcome_event"
  "\<exists>l. appendReviewEvent sample_outcome_env (review_log (field sample_outcome_event ''protocol_version'') (jstr ''review:abc'') [])
     sample_outcome_event = Inr (RA_appended l)"
  "\<exists>t. canonicalizeProtocolJson sample_constant sample_outcome_event = Inr t"
proof -
  show "submission_event sample_outcome_env [] sample_outcome_input = Inr sample_outcome_event" by code_simp
  have "case appendReviewEvent sample_outcome_env (review_log (field sample_outcome_event ''protocol_version'') (jstr ''review:abc'') [])
     sample_outcome_event of Inr (RA_appended _) \<Rightarrow> True | _ \<Rightarrow> False" by code_simp
  then show "\<exists>l. appendReviewEvent sample_outcome_env (review_log (field sample_outcome_event ''protocol_version'') (jstr ''review:abc'') [])
     sample_outcome_event = Inr (RA_appended l)"
    by (auto split: sum.splits reviewAppendResult.splits)
  have "\<not> isl (canonicalizeProtocolJson sample_constant sample_outcome_event)" by code_simp
  then show "\<exists>t. canonicalizeProtocolJson sample_constant sample_outcome_event = Inr t"
    by (metis sum.collapse(2))
qed

lemma sample_outcome_appended: "\<exists>logs'. appendSubmissionReviewEvent sample_outcome_env [] sample_outcome_input = Inr (logs', AS_appended)"
proof -
  obtain l t where l: "appendReviewEvent sample_outcome_env (review_log (field sample_outcome_event ''protocol_version'') (jstr ''review:abc'') [])
     sample_outcome_event = Inr (RA_appended l)" and t: "canonicalizeProtocolJson sample_constant sample_outcome_event = Inr t"
    using sample_outcome_step(2,3) by blast
  have "json_data sample_constant sample_outcome_event"
    using submission_event_json [OF sample_outcome_step(1) sample_outcome_hyps(2,3)] by (simp add: sample_outcome_env_def)
  with t have "\<exists>logs'. log_append sample_constant [] (lit ''review:abc'') sample_outcome_event = Inr (logs', Appended (norm_js sample_outcome_event))"
    by (simp add: log_append_def log_entries_def toCanonicalRow_def computeCanonicalSha256Id_def parse_body_canonical)
  with l sample_outcome_step(1) show ?thesis
    by (auto simp: appendSubmissionReviewEvent_def sample_outcome_input_def loadLog_def log_entries_def sample_outcome_env_def)
qed

theorem submission_event_well_typed_witness:
  "json_data sample_constant sample_outcome_event \<and> content_addressed sample_outcome_env sample_outcome_event"
  using submission_event_well_typed [OF sample_outcome_step(1) sample_outcome_hyps(2,3,4), of "[]"]
  by (simp add: loadLog_def log_entries_def sample_outcome_env_def)

theorem outcome_retry_needs_same_timestamp_witness:
  "\<exists>logs'. appendSubmissionReviewEvent sample_outcome_env [] sample_outcome_input = Inr (logs', AS_appended) \<and>
     \<not> (\<exists>logs''. appendSubmissionReviewEvent sample_outcome_env logs'
          (sample_outcome_input\<lparr>a_eventTimestamp := lit ''2024-01-01T00:00:01Z''\<rparr>) = Inr (logs'', AS_appended))"
proof -
  obtain logs' where a: "appendSubmissionReviewEvent sample_outcome_env [] sample_outcome_input = Inr (logs', AS_appended)"
    using sample_outcome_appended by blast
  have "a_eventType sample_outcome_input = ''receipt_issued''" "lit ''2024-01-01T00:00:01Z'' \<noteq> a_eventTimestamp sample_outcome_input"
    by (simp_all add: sample_outcome_input_def)
  from outcome_retry_needs_same_timestamp [OF a sample_outcome_hyps(4,2,3,1) this(1) code_units_lit this(2), of "[]" logs'] a show ?thesis by auto
qed

end
