(* ===== verification/Submission_Routes.thy ===== *)
theory Submission_Routes
  imports Submission_Outcome Identity_Store Evidence_Stores
begin

text \<open>
  The submission routes of the host (\<^verbatim>\<open>services/host/src/routes/submissions.ts\<close>) with the stores and
  helpers of \<^verbatim>\<open>services/host/src/submission\<close>: opening an attempt, uploading an artifact, finalizing.
  A handler returns the new state and its reply; \<open>Threw\<close> is an exception, with the state it left. The
  functions of the intake service, the signing service and the clock are parameters of the environment.
\<close>

section \<open>The attempt and receipt stores\<close>

record attemptRecord =
  at_id :: ustr
  at_review_id :: ustr
  at_tenant_id :: ustr
  at_token_key_id :: ustr
  at_manifest_id :: ustr
  at_evidence_bundle_id :: ustr
  at_bundle_manifest_body :: ustr
  at_signature_envelope_body :: ustr
  at_customer_approval_body :: ustr
  at_approved_outbound_manifest_body :: ustr

datatype openAttemptResult = Opened attemptRecord | Already_open attemptRecord | Open_conflict

record attempt_store =
  att_rows :: "(ustr, attemptRecord) jmap"
  att_outcomes :: "(ustr, ustr) jmap"

definition sameAttemptBody :: "attemptRecord \<Rightarrow> attemptRecord \<Rightarrow> bool" where
  "sameAttemptBody existing r \<longleftrightarrow>
     at_manifest_id existing = at_manifest_id r \<and> at_evidence_bundle_id existing = at_evidence_bundle_id r \<and>
     at_bundle_manifest_body existing = at_bundle_manifest_body r \<and> at_signature_envelope_body existing = at_signature_envelope_body r \<and>
     at_customer_approval_body existing = at_customer_approval_body r \<and>
     at_approved_outbound_manifest_body existing = at_approved_outbound_manifest_body r"

definition attempt_open :: "attempt_store \<Rightarrow> attemptRecord \<Rightarrow> attempt_store \<times> openAttemptResult" where
  "attempt_open A r =
     (case jm_get (att_rows A) (at_id r) of
        None \<Rightarrow> (A\<lparr>att_rows := jm_set (att_rows A) (at_id r) r\<rparr>, Opened r)
      | Some existing \<Rightarrow> (A, if sameAttemptBody existing r then Already_open existing else Open_conflict))"

definition attempt_find :: "attempt_store \<Rightarrow> ustr \<Rightarrow> attemptRecord option" where
  "attempt_find A i = jm_get (att_rows A) i"

definition findOutcome :: "attempt_store \<Rightarrow> ustr \<Rightarrow> ustr option" where
  "findOutcome A i = jm_get (att_outcomes A) i"

definition attempt_recordOutcome :: "attempt_store \<Rightarrow> ustr \<Rightarrow> ustr \<Rightarrow> attempt_store \<times> recordOutcome" where
  "attempt_recordOutcome A i outcomeBody =
     (if jm_has (att_outcomes A) i then (A, Already_present)
      else (A\<lparr>att_outcomes := jm_set (att_outcomes A) i outcomeBody\<rparr>, Recorded))"

section \<open>JSON.stringify\<close>

text \<open>\<open>None\<close> is \<^verbatim>\<open>undefined\<close>. Integers of the data are safe integers.\<close>

fun json_stringify :: "platform \<Rightarrow> jsval \<Rightarrow> ustr option" where
  "json_stringify P JNull = Some (lit ''null'')"
| "json_stringify P (JBool b) = Some (if b then lit ''true'' else lit ''false'')"
| "json_stringify P (JNum x) = Some (number_text P x)"
| "json_stringify P (JStr s) = Some (json_quote s)"
| "json_stringify P (JArr vs) =
     Some (91 # join_with [44] (map (\<lambda>v. case json_stringify P v of None \<Rightarrow> lit ''null'' | Some t \<Rightarrow> t) vs) @ [93])"
| "json_stringify P (JObj kvs) =
     Some (123 # join_with [44] (concat (map (\<lambda>p. case json_stringify P (snd p) of None \<Rightarrow> [] | Some t \<Rightarrow> [json_quote (fst p) @ 58 # t]) kvs)) @ [125])"
| "json_stringify P JUndef = None"
| "json_stringify P JOther = None"

definition receipt_record :: "platform \<Rightarrow> (ustr, ustr \<times> ustr) jmap \<Rightarrow> ustr \<Rightarrow> jsval \<Rightarrow> (ustr, ustr \<times> ustr) jmap \<times> recordOutcome" where
  "receipt_record P receipts attemptId receipt =
     (let i = the_str (field receipt ''vendor_receipt_id'') in
      if jm_has receipts i then (receipts, Already_present)
      else (jm_set receipts i (attemptId, case json_stringify P receipt of None \<Rightarrow> [] | Some t \<Rightarrow> t), Recorded))"

definition receipt_find :: "platform \<Rightarrow> (ustr, ustr \<times> ustr) jmap \<Rightarrow> ustr \<Rightarrow> thrown + (ustr \<times> jsval) option" where
  "receipt_find P receipts i =
     (case jm_get receipts i of
        None \<Rightarrow> Inr None
      | Some (attemptId, b) \<Rightarrow> sbind (parse_body P b) (\<lambda>v. Inr (Some (attemptId, v))))"

section \<open>Credentials\<close>

text \<open>\<^verbatim>\<open>Buffer.from(s, "hex")\<close> stops at the first pair that is not hexadecimal.\<close>

fun from_hex :: "ustr \<Rightarrow> bytes" where
  "from_hex (a # b # s) =
     (if is_lower_hex (ascii_lower a) \<and> is_lower_hex (ascii_lower b) then
        (16 * hex_value (ascii_lower a) + hex_value (ascii_lower b)) # from_hex s
      else [])"
| "from_hex _ = []"

record scryptParts =
  sp_N :: int
  sp_r :: int
  sp_p :: int
  sp_salt :: bytes
  sp_hash :: bytes

definition parseScryptHash :: "id_crypto \<Rightarrow> ustr \<Rightarrow> scryptParts option" where
  "parseScryptHash C stored =
     (case split_on 36 stored of
        [p0, p1, p2, p3, p4, p5] \<Rightarrow>
          if p0 \<noteq> lit ''scrypt'' then None
          else
            (case (number_int C p1, number_int C p2, number_int C p3) of
               (Some N, Some r, Some p) \<Rightarrow> Some \<lparr>sp_N = N, sp_r = r, sp_p = p, sp_salt = from_hex p4, sp_hash = from_hex p5\<rparr>
             | _ \<Rightarrow> None)
      | _ \<Rightarrow> None)"

text \<open>\<open>scrypt_64m\<close> is \<^verbatim>\<open>scryptSync\<close> with a memory limit of 64 MiB; \<open>None\<close> when it throws.\<close>

type_synonym scrypt_call = "ustr \<Rightarrow> bytes \<Rightarrow> int \<Rightarrow> int \<Rightarrow> int \<Rightarrow> nat \<Rightarrow> bytes option"

definition verifyCredentialSecret :: "id_crypto \<Rightarrow> scrypt_call \<Rightarrow> submissionCredential \<Rightarrow> ustr \<Rightarrow> bool" where
  "verifyCredentialSecret C scrypt_64m cred presented =
     (case parseScryptHash C (c_secret_hash cred) of
        None \<Rightarrow> False
      | Some parsed \<Rightarrow>
          if sp_hash parsed = [] \<or> sp_salt parsed = [] then False
          else
            (case scrypt_64m presented (sp_salt parsed) (sp_N parsed) (sp_r parsed) (sp_p parsed) (length (sp_hash parsed)) of
               None \<Rightarrow> False
             | Some derived \<Rightarrow> length derived = length (sp_hash parsed) \<and> derived = sp_hash parsed))"

fun index_of_unit :: "nat \<Rightarrow> ustr \<Rightarrow> nat option" where
  "index_of_unit c [] = None"
| "index_of_unit c (x # s) = (if x = c then Some 0 else map_option Suc (index_of_unit c s))"

definition parseSubmissionCredentialHeader :: "ustr option \<Rightarrow> (ustr \<times> ustr) option" where
  "parseSubmissionCredentialHeader header =
     (case header of
        None \<Rightarrow> None
      | Some h \<Rightarrow>
          if \<not> starts_with (lit ''Bearer '') h then None
          else
            (let raw = slice_from 7 h in
             case index_of_unit 58 raw of
               None \<Rightarrow> None
             | Some separator \<Rightarrow>
                 if separator = 0 \<or> separator + 1 = length raw then None
                 else Some (JS_Prelude.slice 0 separator raw, slice_from (separator + 1) raw)))"

section \<open>The budget\<close>

text \<open>Comparison of a finite ratio with the double \<open>n / d\<close>; the denominators are positive.\<close>

fun ratio_ge :: "jsnum \<Rightarrow> int \<Rightarrow> int \<Rightarrow> bool" where
  "ratio_ge (NInt i) n d = (i * d \<ge> n)"
| "ratio_ge (NFrac a b) n d = (a * d \<ge> n * b)"
| "ratio_ge NNonFinite n d = False"

record budgetTier =
  tier :: string
  warn :: bool
  slowdown_ms :: int

text \<open>The doubles 0.9 and 0.95 are the fractions written here.\<close>

definition budgetTierFor :: "jsnum \<Rightarrow> unit + budgetTier" where
  "budgetTierFor ratio =
     (if ratio = NNonFinite \<or> \<not> ratio_ge ratio 0 1 then Inl ()
      else if ratio_ge ratio 8106479329266893 9007199254740992 then Inr \<lparr>tier = ''warning_90'', warn = True, slowdown_ms = 3000\<rparr>
      else if ratio_ge ratio 3 4 then Inr \<lparr>tier = ''warning_75'', warn = True, slowdown_ms = 2000\<rparr>
      else if ratio_ge ratio 1 2 then Inr \<lparr>tier = ''warning_50'', warn = True, slowdown_ms = 1000\<rparr>
      else Inr \<lparr>tier = ''normal'', warn = False, slowdown_ms = 0\<rparr>)"

definition intake_disabled :: "jsnum \<Rightarrow> bool" where
  "intake_disabled ratio \<longleftrightarrow> ratio_ge ratio 4278419646001971 4503599627370496"

text \<open>Which requests the halt at the full budget covers, and its decision. A ratio that is not finite is
  NaN or Infinity, neither of which is below 1.\<close>

definition isBusinessRequest :: "ustr \<Rightarrow> bool" where
  "isBusinessRequest url \<longleftrightarrow>
     (let path = hd (split_on 63 url) in
      path = lit ''/v0'' \<or> starts_with (lit ''/v0/'') path \<or> path = lit ''/web'' \<or> starts_with (lit ''/web/'') path)"

definition budget_halted :: "bool \<Rightarrow> ustr \<Rightarrow> jsnum \<Rightarrow> bool" where
  "budget_halted is_demo url ratio \<longleftrightarrow> is_demo \<and> isBusinessRequest url \<and> (ratio = NNonFinite \<or> ratio_ge ratio 1 1)"

section \<open>The environment and the state of the routes\<close>

text \<open>What intake is asked to verify.\<close>

record intakeRequest =
  ir_submitted_bundle_manifest :: jsval
  ir_signature_envelope :: jsval
  ir_signature_verification_outcome :: jsval
  ir_artifact_bytes_by_ref :: "(ustr, bytes) jmap"
  ir_customer_approval :: jsval
  ir_approved_outbound_manifest :: jsval
  ir_environment_evidence_gate :: jsval
  ir_authenticated_context :: jsval
  ir_submission_token :: jsval
  ir_submission_token_expectation :: jsval
  ir_spend_ratio :: jsnum

text \<open>The functions of the intake service (\<open>Inl ()\<close> when they throw; \<open>buildSubmissionOutcome\<close> also
  answers with a rejection) and of the key service.\<close>

record sub_env = review_env +
  se_crypto :: id_crypto
  se_scrypt :: scrypt_call
  date_ms :: "ustr \<Rightarrow> int"
  se_gcm :: gcm
  se_envelope :: "envelopeKey option"
  boundGate :: jsval
  verifyIntakeSubmission :: "intakeRequest \<Rightarrow> unit + jsval"
  prepareVendorReceipt :: "intakeRequest \<Rightarrow> ustr \<Rightarrow> jsval \<Rightarrow> jsval \<Rightarrow> unit + jsval"
  completeVendorReceipt :: "jsval \<Rightarrow> jsval \<Rightarrow> jsval \<Rightarrow> unit + jsval"
  buildSubmissionOutcome :: "jsval \<Rightarrow> unit + (unit + jsval)"
  ks_key_id :: ustr
  ks_key_version :: ustr
  ks_sign :: "jsval \<Rightarrow> jsval \<Rightarrow> unit + jsval"
  ks_verify :: "jsval \<Rightarrow> jsval \<Rightarrow> ustr \<Rightarrow> unit + jsval"

record sub_state =
  st_credentials :: credential_store
  st_attempts :: attempt_store
  st_classifications :: row_store
  st_artifacts :: artifact_state
  st_lifecycle :: log_state
  st_review_log :: log_state
  st_jobs :: job_state
  st_receipts :: "(ustr, ustr \<times> ustr) jmap"

datatype sub_reply = Reply_error nat string | Reply nat jsval | Threw

text \<open>The readings of the clock a request makes.\<close>

datatype clock_reading =
    At_authentication | At_access nat | At_verified | At_receipt | At_receipt_verified | At_occurred | At_event

type_synonym clock = "clock_reading \<Rightarrow> ustr"

definition authenticate :: "('a sub_env_scheme) \<Rightarrow> sub_state \<Rightarrow> (ustr \<times> ustr) option \<Rightarrow> ustr \<Rightarrow> submissionCredential option" where
  "authenticate E st presented now =
     (case presented of
        None \<Rightarrow> None
      | Some (tokenKeyId, secret) \<Rightarrow>
          (case credential_resolve (st_credentials st) tokenKeyId (date_ms E now) of
             None \<Rightarrow> None
           | Some cred \<Rightarrow> if verifyCredentialSecret (se_crypto E) (se_scrypt E) cred secret then Some cred else None))"

definition storedObjectRefFor :: "ustr \<Rightarrow> ustr" where
  "storedObjectRefFor dg = lit ''stored_object:'' @ (if starts_with (lit ''sha256:'') dg then slice_from 7 dg else dg)"

text \<open>The digests of the manifest that have no classification yet.\<close>

fun missing_digests :: "platform \<Rightarrow> row_store \<Rightarrow> jsval list \<Rightarrow> thrown + jsval list" where
  "missing_digests P rows [] = Inr []"
| "missing_digests P rows (reference # references) =
     sbind (classification_find P rows (storedObjectRefFor (the_str (field reference ''digest'')))) (\<lambda>found.
     sbind (missing_digests P rows references) (\<lambda>rest.
     Inr (if found = None then field reference ''digest'' # rest else rest)))"

section \<open>Opening an attempt\<close>

definition SCHEMA_BY_PART :: "(string \<times> string) list" where
  "SCHEMA_BY_PART =
     [(''bundle_manifest'', ''urn:codeattest:protocol:v0:bundle-manifest''),
      (''signature_envelope'', ''urn:codeattest:protocol:v0:signature-envelope''),
      (''customer_approval'', ''urn:codeattest:protocol:v0:customer-approval''),
      (''approved_outbound_manifest'', ''urn:codeattest:protocol:v0:outbound-manifest'')]"

definition canonical :: "('a control_env_scheme) \<Rightarrow> jsval \<Rightarrow> unit + ustr" where
  "canonical E v = (case jcs E v of JcsText t \<Rightarrow> Inr t | _ \<Rightarrow> Inl ())"

definition attempt_of_body :: "('a control_env_scheme) \<Rightarrow> submissionCredential \<Rightarrow> jsval \<Rightarrow> unit + attemptRecord" where
  "attempt_of_body E cred b =
     (let manifest = field b ''bundle_manifest'' in
      sbind (canonical E manifest) (\<lambda>manifest_text.
      sbind (canonical E (field b ''signature_envelope'')) (\<lambda>signature_text.
      sbind (canonical E (field b ''customer_approval'')) (\<lambda>approval_text.
      sbind (canonical E (field b ''approved_outbound_manifest'')) (\<lambda>outbound_text.
      Inr \<lparr>at_id = the_str (field manifest ''submission_attempt_id''), at_review_id = c_review_id cred, at_tenant_id = c_tenant_id cred,
           at_token_key_id = token_key_id cred, at_manifest_id = the_str (field manifest ''manifest_id''),
           at_evidence_bundle_id = the_str (field manifest ''evidence_bundle_id''), at_bundle_manifest_body = manifest_text,
           at_signature_envelope_body = signature_text, at_customer_approval_body = approval_text,
           at_approved_outbound_manifest_body = outbound_text\<rparr>)))))"

text \<open>The delay of a warned request changes nothing but the time; the members of a manifest that passed
  its schema are read at their declared types.\<close>

definition open_submission ::
  "('a sub_env_scheme) \<Rightarrow> sub_state \<Rightarrow> ustr option \<Rightarrow> jsval \<Rightarrow> clock \<Rightarrow> jsnum \<Rightarrow> sub_state \<times> sub_reply" where
  "open_submission E st authorization b now spendRatio =
     (case authenticate E st (parseSubmissionCredentialHeader authorization) (now At_authentication) of
        None \<Rightarrow> (st, Reply_error 401 ''submission_credential_invalid'')
      | Some cred \<Rightarrow>
          (case budgetTierFor spendRatio of
             Inl _ \<Rightarrow> (st, Threw)
           | Inr _ \<Rightarrow>
               if intake_disabled spendRatio then (st, Reply_error 503 ''submission_intake_disabled'')
               else if \<not> (is_record b \<or> is_array b) then (st, Reply_error 400 ''submission_schema_invalid'')
               else if list_ex (\<lambda>(part, schemaUrn). \<not> schema_valid E schemaUrn (field b part)) SCHEMA_BY_PART then
                 (st, Reply_error 400 ''submission_schema_invalid'')
               else
                 (let manifest = field b ''bundle_manifest'' in
                  if field manifest ''manifest_id'' \<noteq> JStr (expected_manifest_id cred) then
                    (st, Reply_error 409 ''submission_manifest_not_expected'')
                  else if (case expected_evidence_bundle_id cred of None \<Rightarrow> False
                           | Some e \<Rightarrow> field manifest ''evidence_bundle_id'' \<noteq> JStr e) then
                    (st, Reply_error 409 ''submission_manifest_not_expected'')
                  else
                    (case attempt_of_body E cred b of
                       Inl _ \<Rightarrow> (st, Threw)
                     | Inr r \<Rightarrow>
                         (case attempt_open (st_attempts st) r of (attempts', opened) \<Rightarrow>
                            (let st' = st\<lparr>st_attempts := attempts'\<rparr>;
                                 answer = (\<lambda>code r. case missing_digests (plat E) (st_classifications st') (the_array (field manifest ''artifact_references'')) of
                                     Inl _ \<Rightarrow> (st', Threw)
                                   | Inr missing \<Rightarrow> (st', Reply code (JObj [(lit ''submission_attempt_id'', JStr (at_id r)),
                                       (lit ''review_id'', JStr (at_review_id r)), (lit ''missing_digests'', JArr missing)]))) in
                             case opened of
                               Open_conflict \<Rightarrow> (st', Reply_error 409 ''submission_attempt_body_conflict'')
                             | Opened r \<Rightarrow> answer 201 r
                             | Already_open r \<Rightarrow> answer 200 r))))))"

section \<open>Uploading an artifact\<close>

definition ARTIFACT_BODY_LIMIT_BYTES :: nat where "ARTIFACT_BODY_LIMIT_BYTES = 64 * 1024 * 1024"

definition sha256_digest_of :: "platform \<Rightarrow> bytes \<Rightarrow> ustr" where
  "sha256_digest_of P bs = lit ''sha256:'' @ to_hex (sha256 P bs)"

definition put_outcome_text :: "putOutcome \<Rightarrow> string" where
  "put_outcome_text p = (case p of Stored \<Rightarrow> ''stored'' | Put_already_present \<Rightarrow> ''already_present'' | Encryption_unavailable \<Rightarrow> ''encryption_unavailable'')"

definition artifact_candidate :: "('a sub_env_scheme) \<Rightarrow> jsval \<Rightarrow> jsval" where
  "artifact_candidate E reference =
     JObj [(lit ''protocol_version'', jstr ''codeattest.v0''),
           (lit ''stored_object_ref'', JStr (storedObjectRefFor (the_str (field reference ''digest'')))),
           (lit ''object_kind'', jstr ''evidence_artifact''), (lit ''source_derived_class'', field reference ''source_derived_class''),
           (lit ''environment_profile'', field (boundGate E) ''environment_profile'')]"

text \<open>Storing the bytes of a reference and its classification, after every check has passed.\<close>

definition store_artifact ::
  "('a sub_env_scheme) \<Rightarrow> sub_state \<Rightarrow> jsval list \<Rightarrow> jsval \<Rightarrow> bytes \<Rightarrow> bytes \<Rightarrow> sub_state \<times> sub_reply" where
  "store_artifact E st references reference bs nonce =
     (case classifyStoredObject E (artifact_candidate E reference) of
        SO_rejected _ \<Rightarrow> (st, Reply_error 422 ''submission_artifact_classification_refused'')
      | Classified classification \<Rightarrow>
          (case artifact_put (se_gcm E) (se_envelope E) nonce (st_artifacts st) (the_str (field reference ''digest'')) bs classification of
             Inl _ \<Rightarrow> (st, Threw)
           | Inr (artifacts', put) \<Rightarrow>
               (let st1 = st\<lparr>st_artifacts := artifacts'\<rparr> in
                case classification_record (plat E) (st_classifications st1) classification of
                  Inl _ \<Rightarrow> (st1, Threw)
                | Inr (rows', _) \<Rightarrow>
                    (let st2 = st1\<lparr>st_classifications := rows'\<rparr> in
                     case missing_digests (plat E) rows' references of
                       Inl _ \<Rightarrow> (st2, Threw)
                     | Inr missing \<Rightarrow> (st2, Reply 200 (JObj [(lit ''outcome'', jstr (put_outcome_text put)), (lit ''missing_digests'', JArr missing)]))))))"

text \<open>A body that is no buffer is \<open>None\<close>. The server refuses a body over the limit before the handler
  runs. The nonce is what \<^verbatim>\<open>randomBytes\<close> returns when the bytes are encrypted.\<close>

definition put_artifact ::
  "('a sub_env_scheme) \<Rightarrow> sub_state \<Rightarrow> ustr option \<Rightarrow> ustr \<Rightarrow> ustr \<Rightarrow> bytes option \<Rightarrow> bytes \<Rightarrow> clock \<Rightarrow> sub_state \<times> sub_reply" where
  "put_artifact E st authorization attemptId dg b nonce now =
     (if (case b of None \<Rightarrow> False | Some bs \<Rightarrow> length bs > ARTIFACT_BODY_LIMIT_BYTES) then
        (st, Reply_error 413 ''submission_artifact_too_large'')
      else
        (case authenticate E st (parseSubmissionCredentialHeader authorization) (now At_authentication) of
           None \<Rightarrow> (st, Reply_error 401 ''submission_credential_invalid'')
         | Some cred \<Rightarrow>
             (case attempt_find (st_attempts st) attemptId of
                None \<Rightarrow> (st, Reply_error 404 ''submission_attempt_not_found'')
              | Some attempt \<Rightarrow>
                  if at_token_key_id attempt \<noteq> token_key_id cred then (st, Reply_error 404 ''submission_attempt_not_found'')
                  else if findOutcome (st_attempts st) (at_id attempt) \<noteq> None then (st, Reply_error 409 ''submission_already_finalized'')
                  else
                    (case json_parse (plat E) (at_bundle_manifest_body attempt) of
                       None \<Rightarrow> (st, Threw)
                     | Some manifest \<Rightarrow>
                         (let references = the_array (field manifest ''artifact_references'') in
                          case find_first (\<lambda>entry. strict_eq (field entry ''digest'') (JStr dg)) references of
                            None \<Rightarrow> (st, Reply_error 409 ''submission_artifact_not_in_manifest'')
                          | Some reference \<Rightarrow>
                              (case b of
                                 None \<Rightarrow> (st, Reply_error 400 ''submission_artifact_body_invalid'')
                               | Some bs \<Rightarrow>
                                   if JStr (sha256_digest_of (plat E) bs) \<noteq> field reference ''digest'' then
                                     (st, Reply_error 422 ''submission_artifact_digest_mismatch'')
                                   else store_artifact E st references reference bs nonce))))))"

section \<open>Access for reading an artifact\<close>

record accessMinterOptions =
  mo_actorId :: "ustr option"
  mo_purpose :: "ustr option"
  mo_idempotencyScope :: "ustr option"

definition or_else :: "'x option \<Rightarrow> 'x \<Rightarrow> 'x" where
  "or_else x d = (case x of None \<Rightarrow> d | Some y \<Rightarrow> y)"

definition access_key :: "accessMinterOptions \<Rightarrow> attemptRecord \<Rightarrow> ustr \<Rightarrow> ustr" where
  "access_key opts attempt dg =
     lit ''evidence_accessed:'' @ (case mo_idempotencyScope opts of None \<Rightarrow> [] | Some s \<Rightarrow> s @ lit '':'') @ at_id attempt @ lit '':'' @ dg"

definition submission_access_request :: "platform \<Rightarrow> accessMinterOptions \<Rightarrow> attemptRecord \<Rightarrow> jsval \<Rightarrow> ustr \<Rightarrow> jsval" where
  "submission_access_request P opts attempt reference now =
     (let key_text = access_key opts attempt (the_str (field reference ''digest'')) in
      JObj [(lit ''actor'', JObj [(lit ''actor_type'', jstr ''vendor_service''),
               (lit ''actor_id'', JStr (or_else (mo_actorId opts) (lit ''vendor_service:codeattest-intake'')))]),
            (lit ''role'', jstr ''codeattest_ops''), (lit ''tenant_id'', JStr (at_tenant_id attempt)),
            (lit ''review_scope'', JStr (at_review_id attempt)),
            (lit ''artifact'', JObj [(lit ''artifact_ref'', field reference ''artifact_ref''), (lit ''tenant_id'', JStr (at_tenant_id attempt)),
               (lit ''review_scope'', JStr (at_review_id attempt)), (lit ''source_derived_class'', field reference ''source_derived_class'')]),
            (lit ''event_id'', JStr (lit ''evidence_event:'' @ JS_Prelude.slice 0 32 (to_hex (sha256 P (utf8 key_text))))),
            (lit ''idempotency_key'', JStr key_text), (lit ''event_timestamp'', JStr now),
            (lit ''purpose'', JStr (or_else (mo_purpose opts) (lit ''intake_verification'')))])"

definition mintSubmissionAccess ::
  "('a sub_env_scheme) \<Rightarrow> accessMinterOptions \<Rightarrow> log_state \<Rightarrow> attemptRecord \<Rightarrow> jsval \<Rightarrow> ustr \<Rightarrow> unit + jsval option" where
  "mintSubmissionAccess E opts logs attempt reference now =
     sbind (unit_throw (loadLog (plat E) logs (at_review_id attempt))) (\<lambda>events.
     sbind (enforceScopedAccess E (JArr events) (submission_access_request (plat E) opts attempt reference now)) (\<lambda>result.
     Inr (case result of Access_allowed event _ \<Rightarrow> Some event | Access_denied _ _ \<Rightarrow> None)))"

definition intake_access :: accessMinterOptions where
  "intake_access = \<lparr>mo_actorId = None, mo_purpose = None, mo_idempotencyScope = None\<rparr>"

datatype artifactsRead = Read_all "(ustr, bytes) jmap" | Read_incomplete | Read_threw

fun read_artifacts ::
  "('a sub_env_scheme) \<Rightarrow> clock \<Rightarrow> nat \<Rightarrow> attemptRecord \<Rightarrow> jsval list \<Rightarrow> (ustr, bytes) jmap \<Rightarrow> sub_state \<Rightarrow> sub_state \<times> artifactsRead" where
  "read_artifacts E now n attempt [] acc st = (st, Read_all acc)"
| "read_artifacts E now n attempt (reference # references) acc st =
     (case mintSubmissionAccess E intake_access (st_lifecycle st) attempt reference (now (At_access n)) of
        Inl _ \<Rightarrow> (st, Read_threw)
      | Inr None \<Rightarrow> (st, Read_incomplete)
      | Inr (Some event) \<Rightarrow>
          (case artifact_get (se_gcm E) (se_envelope E) (log_append (plat E)) (st_lifecycle st) (st_artifacts st) event
                  (the_str (field reference ''digest'')) of
             Inl _ \<Rightarrow> (st, Read_threw)
           | Inr (logs', Read bs) \<Rightarrow>
               read_artifacts E now (n + 1) attempt references (jm_set acc (the_str (field reference ''artifact_ref'')) bs) (st\<lparr>st_lifecycle := logs'\<rparr>)
           | Inr (logs', _) \<Rightarrow> (st\<lparr>st_lifecycle := logs'\<rparr>, Read_incomplete)))"

section \<open>The request intake verifies\<close>

definition BUNDLE_IDENTITY_INPUT_PATH :: string where
  "BUNDLE_IDENTITY_INPUT_PATH = ''v0/valid/bundle-manifest.identity-input.json''"

text \<open>\<^verbatim>\<open>s.replace(/^p/, q)\<close>.\<close>

definition replace_prefix :: "string \<Rightarrow> string \<Rightarrow> ustr \<Rightarrow> ustr" where
  "replace_prefix p q s = (if starts_with (lit p) s then lit q @ drop (length p) s else s)"

definition reviewRequestIdFor :: "ustr \<Rightarrow> ustr" where
  "reviewRequestIdFor rid = lit ''review_request:'' @ replace_prefix ''review:'' [] rid"

definition submissionOutcomeIdFor :: "ustr \<Rightarrow> ustr" where
  "submissionOutcomeIdFor i = replace_prefix ''submission_attempt:'' ''submission_outcome:'' i"

definition bundle_signing_input :: "jsval \<Rightarrow> jsval" where
  "bundle_signing_input manifest =
     JObj [(lit ''protocol_version'', jstr ''codeattest.v0''), (lit ''signing_input_type'', jstr ''evidence_bundle_identity''),
           (lit ''algorithm_profile'', jstr ''ml_dsa_65''), (lit ''signed_identity_type'', jstr ''evidence_bundle''),
           (lit ''signed_identity'', field manifest ''evidence_bundle_id''), (lit ''canonicalization'', jstr ''rfc8785''),
           (lit ''identity_input_path'', jstr BUNDLE_IDENTITY_INPUT_PATH)]"

definition credential_context :: "submissionCredential \<Rightarrow> (ustr \<times> jsval) list" where
  "credential_context cred =
     [(lit ''customer_id'', JStr (customer_id cred)), (lit ''review_request_id'', JStr (reviewRequestIdFor (c_review_id cred))),
      (lit ''selected_application_id'', JStr (selected_application_id cred)), (lit ''selected_commit'', JStr (selected_commit cred)),
      (lit ''repository_identity_hash'', JStr (repository_identity_hash cred))]"

definition assembleIntakeRequest ::
  "('a sub_env_scheme) \<Rightarrow> attemptRecord \<Rightarrow> submissionCredential \<Rightarrow> ustr \<Rightarrow> (ustr, bytes) jmap \<Rightarrow> jsnum \<Rightarrow> ustr \<Rightarrow> unit + intakeRequest" where
  "assembleIntakeRequest E attempt cred secret artifacts spendRatio verifiedAt =
     sbind (unit_throw (parse_body (plat E) (at_bundle_manifest_body attempt))) (\<lambda>manifest.
     sbind (unit_throw (parse_body (plat E) (at_signature_envelope_body attempt))) (\<lambda>signature.
     sbind (ks_verify E signature (bundle_signing_input manifest) verifiedAt) (\<lambda>signatureOutcome.
     sbind (unit_throw (parse_body (plat E) (at_customer_approval_body attempt))) (\<lambda>approval.
     sbind (unit_throw (parse_body (plat E) (at_approved_outbound_manifest_body attempt))) (\<lambda>outbound.
     Inr \<lparr>ir_submitted_bundle_manifest = manifest, ir_signature_envelope = signature, ir_signature_verification_outcome = signatureOutcome,
          ir_artifact_bytes_by_ref = artifacts, ir_customer_approval = approval, ir_approved_outbound_manifest = outbound,
          ir_environment_evidence_gate = boundGate E, ir_authenticated_context = JObj (credential_context cred),
          ir_submission_token = JObj [(lit ''token_key_id'', JStr (token_key_id cred)), (lit ''token_secret_material'', JStr secret)],
          ir_submission_token_expectation = JObj (credential_context cred @ [(lit ''expected_manifest_id'', JStr (expected_manifest_id cred))]
            @ (case expected_evidence_bundle_id cred of None \<Rightarrow> [] | Some e \<Rightarrow> [(lit ''expected_evidence_bundle_id'', JStr e)])
            @ [(lit ''token_key_id'', JStr (token_key_id cred)), (lit ''token_secret_material'', JStr secret)]),
          ir_spend_ratio = spendRatio\<rparr>)))))"

definition ARTIFACT_COUNT_CATEGORIES :: "string list" where
  "ARTIFACT_COUNT_CATEGORIES = [''metadata'', ''dependencies'', ''scanner_findings'', ''raw_snippets'', ''targeted_files'',
     ''derived_artifacts'', ''never_collected_items'']"

definition category_count :: "jsval list \<Rightarrow> string \<Rightarrow> jsval" where
  "category_count entries category =
     (case find_first (\<lambda>entry. field entry ''category'' = jstr category) entries of
        None \<Rightarrow> jint 0 | Some entry \<Rightarrow> nullish (field entry ''count'') (jint 0))"

definition artifactCountSummaryFromManifest :: "jsval \<Rightarrow> jsval" where
  "artifactCountSummaryFromManifest manifest =
     (let entries = the_array (field manifest ''evidence_categories'') in
      JObj [(lit ''count_domain'', jstr ''evidence_category_counts''),
            (lit ''total_count'', jint (sum_list (map (\<lambda>c. the_int (category_count entries c)) ARTIFACT_COUNT_CATEGORIES))),
            (lit ''categories'', JArr (map (\<lambda>c. JObj [(lit ''category'', jstr c), (lit ''count'', category_count entries c)]) ARTIFACT_COUNT_CATEGORIES))])"

section \<open>Finalizing\<close>

definition MANAGED_KEY_LIMITATIONS :: "string list" where
  "MANAGED_KEY_LIMITATIONS =
     [''Key custody is self-hosted software custody in a non-validated cryptographic module, not a hardware security module.'',
      ''A valid signature shows which deployment key produced this artifact and says nothing about the completeness or quality of any review.'']"

definition receipt_signing :: "('a sub_env_scheme) \<Rightarrow> jsval" where
  "receipt_signing E =
     JObj [(lit ''key_id'', JStr (ks_key_id E)), (lit ''key_version'', JStr (ks_key_version E)), (lit ''signing_mode'', jstr ''managed_key''),
           (lit ''canonicalization'', jstr ''rfc8785''),
           (lit ''public_key_reference'', JStr (lit ''key-directory-entry:'' @ ks_key_id E @ lit '':'' @ ks_key_version E)),
           (lit ''signing_limitations'', JArr (map jstr MANAGED_KEY_LIMITATIONS))]"

text \<open>What finalizing knows when it builds the outcome: the result, and the receipt with the outcome of
  its signature when one was issued.\<close>

definition issue_receipt ::
  "('a sub_env_scheme) \<Rightarrow> sub_state \<Rightarrow> attemptRecord \<Rightarrow> intakeRequest \<Rightarrow> clock \<Rightarrow> sub_state \<times> (unit + jsval \<times> (jsval \<times> jsval) option)" where
  "issue_receipt E st attempt request now =
     (case verifyIntakeSubmission E request of
        Inl _ \<Rightarrow> (st, Inl ())
      | Inr verification \<Rightarrow>
          if field verification ''state'' \<noteq> jstr ''verified_receipt_eligible'' then (st, Inr (verification, None))
          else
            (case prepareVendorReceipt E request (now At_receipt) (receipt_signing E)
                    (artifactCountSummaryFromManifest (ir_approved_outbound_manifest request)) of
               Inl _ \<Rightarrow> (st, Inl ())
             | Inr prepared \<Rightarrow>
                 if field prepared ''state'' \<noteq> jstr ''receipt_signing_required'' then (st, Inr (prepared, None))
                 else
                   (case sbind (ks_sign E (field prepared ''signing_input'') (field (field prepared ''unsigned_receipt'') ''receipt_timestamp'')) (\<lambda>signature.
                         sbind (ks_verify E signature (field prepared ''signing_input'') (now At_receipt_verified)) (\<lambda>signatureOutcome.
                         sbind (completeVendorReceipt E prepared signature signatureOutcome) (\<lambda>completed. Inr (signatureOutcome, completed)))) of
                      Inl _ \<Rightarrow> (st, Inl ())
                    | Inr (signatureOutcome, completed) \<Rightarrow>
                        if field completed ''state'' \<noteq> jstr ''received_with_receipt'' then (st, Inr (completed, None))
                        else
                          (let receipt = field completed ''vendor_receipt'' in
                           (st\<lparr>st_receipts := fst (receipt_record (plat E) (st_receipts st) (at_id attempt) receipt)\<rparr>,
                            Inr (verification, Some (receipt, signatureOutcome)))))))"

definition outcome_input :: "attemptRecord \<Rightarrow> jsval \<Rightarrow> ustr \<Rightarrow> jsval \<Rightarrow> (jsval \<times> jsval) option \<Rightarrow> jsval" where
  "outcome_input attempt manifest now result receipt =
     JObj ([(lit ''result'', result), (lit ''review_id'', JStr (at_review_id attempt)),
            (lit ''submission_outcome_id'', JStr (submissionOutcomeIdFor (at_id attempt))), (lit ''occurred_at'', JStr now),
            (lit ''bundle_instance_id'', field manifest ''bundle_instance_id''), (lit ''submission_attempt_id'', JStr (at_id attempt))]
           @ (case receipt of None \<Rightarrow> [] | Some (r, signatureOutcome) \<Rightarrow>
                [(lit ''vendor_receipt'', r), (lit ''vendor_receipt_signature_outcome'', signatureOutcome)]))"

definition NORMALIZE_SCANNER_FINDINGS_JOB_TYPE :: string where
  "NORMALIZE_SCANNER_FINDINGS_JOB_TYPE = ''normalize_scanner_findings''"

definition enqueueNormalization :: "('a sub_env_scheme) \<Rightarrow> sub_state \<Rightarrow> attemptRecord \<Rightarrow> sub_state" where
  "enqueueNormalization E st attempt =
     st\<lparr>st_jobs := fst (enqueue (st_jobs st) (lit ''job:normalize:'' @ at_id attempt) (lit NORMALIZE_SCANNER_FINDINGS_JOB_TYPE)
          (or_else (json_stringify (plat E) (JObj [(lit ''review_id'', JStr (at_review_id attempt)), (lit ''submission_attempt_id'', JStr (at_id attempt))])) []))\<rparr>"

abbreviation is_received :: "jsval \<Rightarrow> bool" where
  "is_received oc \<equiv> field oc ''outcome_state'' = jstr ''received_with_receipt''"

definition outcome_event_type :: "jsval \<Rightarrow> string" where
  "outcome_event_type oc =
     (if is_received oc then ''receipt_issued''
      else if field oc ''outcome_state'' = jstr ''rejected_no_receipt'' then ''submission_rejected'' else ''submission_quarantined'')"

abbreviation outcome_reply :: "jsval \<Rightarrow> sub_reply" where
  "outcome_reply oc \<equiv> Reply 200 (JObj [(lit ''submission_outcome'', oc)])"

text \<open>Building the outcome, recording its event, and committing it.\<close>

definition commit_outcome ::
  "('a sub_env_scheme) \<Rightarrow> sub_state \<Rightarrow> attemptRecord \<Rightarrow> jsval \<Rightarrow> jsval \<times> (jsval \<times> jsval) option \<Rightarrow> clock \<Rightarrow> sub_state \<times> sub_reply" where
  "commit_outcome E st attempt manifest res now =
     (case buildSubmissionOutcome E (outcome_input attempt manifest (now At_occurred) (fst res) (snd res)) of
        Inl _ \<Rightarrow> (st, Threw)
      | Inr (Inl _) \<Rightarrow> (st, Reply_error 500 ''submission_outcome_not_buildable'')
      | Inr (Inr oc) \<Rightarrow>
          (case appendSubmissionReviewEvent E (st_review_log st)
                  \<lparr>a_reviewId = at_review_id attempt, a_eventType = outcome_event_type oc, a_eventTimestamp = now At_event, a_outcome = oc\<rparr> of
             Inl _ \<Rightarrow> (st, Threw)
           | Inr (logs', AS_rejected _) \<Rightarrow> (st\<lparr>st_review_log := logs'\<rparr>, Reply_error 500 ''submission_outcome_not_buildable'')
           | Inr (logs', _) \<Rightarrow>
               (let st1 = st\<lparr>st_review_log := logs'\<rparr>;
                    st2 = st1\<lparr>st_attempts := fst (attempt_recordOutcome (st_attempts st1) (at_id attempt) (or_else (json_stringify (plat E) oc) []))\<rparr> in
                (if is_received oc then enqueueNormalization E st2 attempt else st2, outcome_reply oc))))"

definition finalize_open ::
  "('a sub_env_scheme) \<Rightarrow> sub_state \<Rightarrow> attemptRecord \<Rightarrow> submissionCredential \<Rightarrow> ustr \<Rightarrow> clock \<Rightarrow> jsnum \<Rightarrow> sub_state \<times> sub_reply" where
  "finalize_open E st attempt cred secret now spendRatio =
     (case json_parse (plat E) (at_bundle_manifest_body attempt) of
        None \<Rightarrow> (st, Threw)
      | Some manifest \<Rightarrow>
          (case read_artifacts E now 0 attempt (the_array (field manifest ''artifact_references'')) [] st of
             (st1, Read_threw) \<Rightarrow> (st1, Threw)
           | (st1, Read_incomplete) \<Rightarrow> (st1, Reply_error 409 ''submission_artifacts_incomplete'')
           | (st1, Read_all artifacts) \<Rightarrow>
               (case assembleIntakeRequest E attempt cred secret artifacts spendRatio (now At_verified) of
                  Inl _ \<Rightarrow> (st1, Threw)
                | Inr request \<Rightarrow>
                    (case issue_receipt E st1 attempt request now of
                       (st2, Inl _) \<Rightarrow> (st2, Threw)
                     | (st2, Inr res) \<Rightarrow> commit_outcome E st2 attempt manifest res now))))"

definition finalize_stored :: "('a sub_env_scheme) \<Rightarrow> sub_state \<Rightarrow> attemptRecord \<Rightarrow> ustr \<Rightarrow> sub_state \<times> sub_reply" where
  "finalize_stored E st attempt stored =
     (case json_parse (plat E) stored of
        None \<Rightarrow> (st, Threw)
      | Some oc \<Rightarrow> (if is_received oc then enqueueNormalization E st attempt else st, outcome_reply oc))"

definition finalize ::
  "('a sub_env_scheme) \<Rightarrow> sub_state \<Rightarrow> ustr option \<Rightarrow> ustr \<Rightarrow> clock \<Rightarrow> jsnum \<Rightarrow> sub_state \<times> sub_reply" where
  "finalize E st authorization attemptId now spendRatio =
     (let presented = parseSubmissionCredentialHeader authorization in
      case (authenticate E st presented (now At_authentication), presented) of
        (Some cred, Some (_, secret)) \<Rightarrow>
          (case attempt_find (st_attempts st) attemptId of
             None \<Rightarrow> (st, Reply_error 404 ''submission_attempt_not_found'')
           | Some attempt \<Rightarrow>
               if at_token_key_id attempt \<noteq> token_key_id cred then (st, Reply_error 404 ''submission_attempt_not_found'')
               else
                 (case findOutcome (st_attempts st) (at_id attempt) of
                    Some stored \<Rightarrow> finalize_stored E st attempt stored
                  | None \<Rightarrow> finalize_open E st attempt cred secret now spendRatio))
      | _ \<Rightarrow> (st, Reply_error 401 ''submission_credential_invalid''))"

section \<open>JSON.parse undoes JSON.stringify\<close>

text \<open>Values without \<^verbatim>\<open>undefined\<close>, functions and unsafe numbers at any depth, members in the order every
  object has them.\<close>

fun plain_json :: "platform \<Rightarrow> jsval \<Rightarrow> bool" where
  "plain_json P (JNum x) = (safe_number x \<and> json_data P (JNum x))"
| "plain_json P (JStr s) = code_units s"
| "plain_json P (JArr vs) = (\<forall>v \<in> set vs. plain_json P v)"
| "plain_json P (JObj kvs) = (distinct (map fst kvs) \<and> own_order kvs = kvs \<and> (\<forall>p \<in> set kvs. code_units (fst p) \<and> plain_json P (snd p)))"
| "plain_json P JUndef = False"
| "plain_json P JOther = False"
| "plain_json P v = True"

text \<open>The text of a plain value.\<close>

abbreviation plain_text :: "platform \<Rightarrow> jsval \<Rightarrow> ustr" where
  "plain_text P v \<equiv> or_else (json_stringify P v) []"

lemma or_else_Some [simp]: "or_else (Some x) d = x"
  by (simp add: or_else_def)

lemma plain_stringify: "plain_json P v \<Longrightarrow> \<exists>t. json_stringify P v = Some t"
  by (cases v) simp_all

lemma plain_parts:
  "\<forall>v \<in> set vs. plain_json P v \<Longrightarrow>
     map (\<lambda>v. case json_stringify P v of None \<Rightarrow> lit ''null'' | Some t \<Rightarrow> t) vs = map (plain_text P) vs"
  "\<forall>p \<in> set kvs. plain_json P (snd p) \<Longrightarrow>
     concat (map (\<lambda>p. case json_stringify P (snd p) of None \<Rightarrow> [] | Some t \<Rightarrow> [json_quote (fst p) @ 58 # t]) kvs) =
       map (\<lambda>p. json_quote (fst p) @ 58 # plain_text P (snd p)) kvs"
  by (force dest: plain_stringify) (induction kvs, auto dest!: plain_stringify)

lemma plain_text_parts:
  assumes "plain_json P v"
  shows "v = JArr vs \<Longrightarrow> plain_text P v = 91 # join_with [44] (map (plain_text P) vs) @ [93]"
    "v = JObj kvs \<Longrightarrow> plain_text P v = 123 # join_with [44] (map (\<lambda>p. json_quote (fst p) @ 58 # plain_text P (snd p)) kvs) @ [125]"
proof -
  show "v = JArr vs \<Longrightarrow> plain_text P v = 91 # join_with [44] (map (plain_text P) vs) @ [93]"
    using assms arg_cong [OF plain_parts(1) [of vs P], of "join_with [44]"] by simp
  show "v = JObj kvs \<Longrightarrow> plain_text P v = 123 # join_with [44] (map (\<lambda>p. json_quote (fst p) @ 58 # plain_text P (snd p)) kvs) @ [125]"
    using assms plain_parts(2) [of kvs P] by simp
qed

lemma plain_start:
  assumes "plain_json P v"
  shows "value_start (plain_text P v @ r)"
proof (cases v)
  case (JNum x)
  then have "parse_number P (number_text P x @ []) = Some (x, [])"
    using assms by (intro parse_number_text) simp_all
  then obtain c u where "number_text P x = c # u" "c = 45 \<or> is_digit c"
    using parse_number_start by (metis append_Nil2)
  then show ?thesis using JNum by (auto simp: or_else_def value_start_def json_space_def is_digit_def)
qed (use assms in \<open>auto simp: or_else_def value_start_def json_quote_def lit_def json_space_def\<close>)

lemma join_start: "value_start (t @ r') \<Longrightarrow> (\<And>r. value_start (t @ r)) \<Longrightarrow> value_start (join_with [44] (t # ts) @ r)"
  by (cases ts) simp_all

lemma parses_plain_elements:
  assumes "\<And>v r. v \<in> set vs \<Longrightarrow> ends_number r \<Longrightarrow> parses (parse_value P) (plain_text P v @ r) v r" "vs \<noteq> []"
  shows "parses (parse_elements P) (join_with [44] (map (plain_text P) vs) @ 93 # r) vs r"
  using assms
proof (induction vs)
  case (Cons v vs)
  show ?case
  proof (cases vs)
    case Nil
    then show ?thesis using Cons.prems(1) [of v "93 # r"] by (auto intro: parses_elements_last)
  next
    case (Cons w ws)
    have "parses (parse_elements P) (join_with [44] (map (plain_text P) vs) @ 93 # r) vs r"
      using Cons.IH Cons.prems(1) Cons by simp
    with Cons.prems(1) [of v "44 # join_with [44] (map (plain_text P) vs) @ 93 # r"] Cons show ?thesis
      by (simp add: join_with_Cons parses_elements_Cons)
  qed
qed simp

lemma parses_plain_members:
  assumes "\<And>p r. p \<in> set kvs \<Longrightarrow> ends_number r \<Longrightarrow> parses (parse_value P) (plain_text P (snd p) @ r) (snd p) r" "kvs \<noteq> []"
    and "\<forall>p \<in> set kvs. code_units (fst p)"
  shows "parses (parse_members P) (join_with [44] (map (\<lambda>p. json_quote (fst p) @ 58 # plain_text P (snd p)) kvs) @ 125 # r) kvs r"
  using assms
proof (induction kvs)
  case (Cons p kvs)
  obtain k v where p: "p = (k, v)" by (cases p)
  have k: "code_units k" using Cons.prems(3) p by simp
  show ?case
  proof (cases kvs)
    case Nil
    then show ?thesis using Cons.prems(1) [of p "125 # r"] k p by (auto intro: parses_members_last)
  next
    case (Cons q qs)
    have "parses (parse_members P) (join_with [44] (map (\<lambda>p. json_quote (fst p) @ 58 # plain_text P (snd p)) kvs) @ 125 # r) kvs r"
      using Cons.IH Cons.prems(1,3) Cons by simp
    with Cons.prems(1) [of p "44 # join_with [44] (map (\<lambda>p. json_quote (fst p) @ 58 # plain_text P (snd p)) kvs) @ 125 # r"] Cons k p show ?thesis
      by (simp add: join_with_Cons parses_members_Cons)
  qed
qed simp

lemma parses_plain: "plain_json P v \<Longrightarrow> ends_number r \<Longrightarrow> parses (parse_value P) (plain_text P v @ r) v r"
proof (induction P v arbitrary: r rule: plain_json.induct)
  case (1 P x)
  then show ?case using parses_number [of x P r] by (simp add: or_else_def)
next
  case (2 P s)
  then show ?case using parses_string [of s P r] by (simp add: or_else_def)
next
  case (3 P vs)
  then have t: "plain_text P (JArr vs) = 91 # join_with [44] (map (plain_text P) vs) @ [93]"
    by (intro plain_text_parts(1)) simp_all
  show ?case
  proof (cases vs)
    case Nil
    then show ?thesis by (auto simp: or_else_def intro!: parse_atom)
  next
    case (Cons w ws)
    then have "value_start (join_with [44] (map (plain_text P) vs) @ 93 # r)"
      using 3(2) plain_start join_start by simp
    moreover have "parses (parse_elements P) (join_with [44] (map (plain_text P) vs) @ 93 # r) vs r"
      using 3 Cons by (intro parses_plain_elements) auto
    ultimately show ?thesis using parses_JArr t by simp
  qed
next
  case (4 P kvs)
  then have t: "plain_text P (JObj kvs) = 123 # join_with [44] (map (\<lambda>p. json_quote (fst p) @ 58 # plain_text P (snd p)) kvs) @ [125]"
    by (intro plain_text_parts(2)) simp_all
  show ?case
  proof (cases kvs)
    case Nil
    then show ?thesis by (auto simp: or_else_def object_of_members_def intro!: parse_atom)
  next
    case (Cons q qs)
    then have "value_start (join_with [44] (map (\<lambda>p. json_quote (fst p) @ 58 # plain_text P (snd p)) kvs) @ 125 # r)"
      using join_start [of "json_quote (fst q) @ 58 # plain_text P (snd q)"] by (simp add: value_start_def json_quote_def)
    moreover have "parses (parse_members P) (join_with [44] (map (\<lambda>p. json_quote (fst p) @ 58 # plain_text P (snd p)) kvs) @ 125 # r) kvs r"
    proof (rule parses_plain_members)
      show "parses (parse_value P) (plain_text P (snd p) @ r) (snd p) r" if "p \<in> set kvs" "ends_number r" for p r
        using "4.IH" [OF that(1)] "4.prems"(1) that by simp
    qed (use 4 Cons in auto)
    ultimately have "parses (parse_value P) (plain_text P (JObj kvs) @ r) (object_of_members kvs) r"
      using parses_JObj t by simp
    then show ?thesis using object_of_distinct 4(2) by simp
  qed
qed (auto simp: or_else_def starts_with_def lit_def json_space_def intro!: parse_atom)

lemma parse_stringify: "plain_json P v \<Longrightarrow> json_parse P (plain_text P v) = Some v"
  using parses_plain [of P v "[]"] by (simp add: json_parse_of_parses)

section \<open>What each step of finalizing touches\<close>

lemma read_artifacts_frame: "\<exists>logs. fst (read_artifacts E now n attempt refs acc st) = st\<lparr>st_lifecycle := logs\<rparr>"
proof (induction refs arbitrary: n acc st)
  case Nil
  show ?case by (auto intro: exI [of _ "st_lifecycle st"])
next
  case (Cons r refs)
  have "\<exists>logs. fst (read_artifacts E now (n + 1) attempt refs acc' (st\<lparr>st_lifecycle := l\<rparr>)) = st\<lparr>st_lifecycle := logs\<rparr>" for acc' l
    using Cons.IH [of "n + 1" acc' "st\<lparr>st_lifecycle := l\<rparr>"] by simp
  moreover have "\<exists>logs. st = st\<lparr>st_lifecycle := logs\<rparr>" "\<exists>logs. st\<lparr>st_lifecycle := l\<rparr> = st\<lparr>st_lifecycle := logs\<rparr>" for l
    by (auto intro: exI [of _ "st_lifecycle st"])
  ultimately show ?case
    by (auto split: sum.splits option.splits artifactGetResult.splits)
qed

lemma issue_receipt_frame: "\<exists>receipts. fst (issue_receipt E st attempt request now) = st\<lparr>st_receipts := receipts\<rparr>"
proof -
  have "\<exists>receipts. st = st\<lparr>st_receipts := receipts\<rparr>" "\<exists>receipts. st\<lparr>st_receipts := l\<rparr> = st\<lparr>st_receipts := receipts\<rparr>" for l
    by (auto intro: exI [of _ "st_receipts st"])
  then show ?thesis by (auto simp: issue_receipt_def Let_def split: sum.splits)
qed

lemma commit_cases:
  assumes "commit_outcome E st attempt manifest res now = (st', Reply code v)"
  obtains oc logs' r where "buildSubmissionOutcome E (outcome_input attempt manifest (now At_occurred) (fst res) (snd res)) = Inr (Inr oc)"
    "appendSubmissionReviewEvent E (st_review_log st)
       \<lparr>a_reviewId = at_review_id attempt, a_eventType = outcome_event_type oc, a_eventTimestamp = now At_event, a_outcome = oc\<rparr> = Inr (logs', r)"
    "r = AS_appended \<or> r = AS_noop" "Reply code v = outcome_reply oc"
    "st' = (let st2 = st\<lparr>st_review_log := logs', st_attempts := fst (attempt_recordOutcome (st_attempts st) (at_id attempt) (plain_text (plat E) oc))\<rparr> in
       if is_received oc then enqueueNormalization E st2 attempt else st2)"
  using assms
  by (auto simp: commit_outcome_def Let_def split: sum.splits appendSubmissionResult.splits if_splits)

lemma finalize_open_cases:
  assumes "finalize_open E st attempt cred secret now ratio = (st', Reply code v)"
  obtains manifest st1 artifacts request st2 res where
    "json_parse (plat E) (at_bundle_manifest_body attempt) = Some manifest"
    "read_artifacts E now 0 attempt (the_array (field manifest ''artifact_references'')) [] st = (st1, Read_all artifacts)"
    "assembleIntakeRequest E attempt cred secret artifacts ratio (now At_verified) = Inr request"
    "issue_receipt E st1 attempt request now = (st2, Inr res)"
    "commit_outcome E st2 attempt manifest res now = (st', Reply code v)"
  using assms
  by (auto simp: finalize_open_def split: option.splits prod.splits artifactsRead.splits sum.splits)

lemma finalize_cases:
  assumes "finalize E st authorization i now ratio = (st', Reply code v)"
  obtains cred k secret attempt where "parseSubmissionCredentialHeader authorization = Some (k, secret)"
    "authenticate E st (Some (k, secret)) (now At_authentication) = Some cred" "attempt_find (st_attempts st) i = Some attempt"
    "at_token_key_id attempt = token_key_id cred"
    "(case findOutcome (st_attempts st) (at_id attempt) of Some stored \<Rightarrow> finalize_stored E st attempt stored
      | None \<Rightarrow> finalize_open E st attempt cred secret now ratio) = (st', Reply code v)"
  using assms
  by (auto simp: finalize_def Let_def split: option.splits if_splits)

section \<open>Finalizing twice\<close>

lemma enqueue_frame [simp]:
  "st_credentials (enqueueNormalization E st attempt) = st_credentials st" "st_attempts (enqueueNormalization E st attempt) = st_attempts st"
  "(enqueueNormalization E st attempt)\<lparr>st_jobs := j\<rparr> = st\<lparr>st_jobs := j\<rparr>"
  by (simp_all add: enqueueNormalization_def)

text \<open>A reply with an outcome leaves that outcome stored, for the same attempt and the same credentials.\<close>

lemma finalize_stores:
  assumes "finalize E st authorization i now ratio = (st', outcome_reply oc)" "plain_json (plat E) oc"
  obtains cred k secret attempt stored where "parseSubmissionCredentialHeader authorization = Some (k, secret)"
    "authenticate E st (Some (k, secret)) (now At_authentication) = Some cred" "attempt_find (st_attempts st') i = Some attempt"
    "at_token_key_id attempt = token_key_id cred" "findOutcome (st_attempts st') (at_id attempt) = Some stored"
    "json_parse (plat E) stored = Some oc" "st_credentials st' = st_credentials st"
  using assms(1)
proof (rule finalize_cases)
  fix cred k secret attempt
  assume a: "parseSubmissionCredentialHeader authorization = Some (k, secret)"
    "authenticate E st (Some (k, secret)) (now At_authentication) = Some cred" "attempt_find (st_attempts st) i = Some attempt"
    "at_token_key_id attempt = token_key_id cred"
    and r: "(case findOutcome (st_attempts st) (at_id attempt) of Some stored \<Rightarrow> finalize_stored E st attempt stored
      | None \<Rightarrow> finalize_open E st attempt cred secret now ratio) = (st', outcome_reply oc)"
  show thesis
  proof (cases "findOutcome (st_attempts st) (at_id attempt)")
    case (Some stored)
    with r have "json_parse (plat E) stored = Some oc" "st_attempts st' = st_attempts st" "st_credentials st' = st_credentials st"
      by (auto simp: finalize_stored_def split: option.splits if_splits)
    with a Some show thesis by (intro that) simp_all
  next
    case None
    with r have "finalize_open E st attempt cred secret now ratio = (st', outcome_reply oc)" by simp
    then obtain manifest st1 artifacts request st2 res where
      s: "read_artifacts E now 0 attempt (the_array (field manifest ''artifact_references'')) [] st = (st1, Read_all artifacts)"
        "issue_receipt E st1 attempt request now = (st2, Inr res)" and c: "commit_outcome E st2 attempt manifest res now = (st', outcome_reply oc)"
      by (rule finalize_open_cases)
    obtain l q where f: "st2 = st\<lparr>st_lifecycle := l, st_receipts := q\<rparr>"
      using read_artifacts_frame [of E now 0 attempt "the_array (field manifest ''artifact_references'')" "[]" st]
        issue_receipt_frame [of E st1 attempt request now] s by auto
    from c obtain logs' where st': "st' = (let st3 = st2\<lparr>st_review_log := logs', st_attempts := fst (attempt_recordOutcome (st_attempts st2) (at_id attempt) (plain_text (plat E) oc))\<rparr> in
       if is_received oc then enqueueNormalization E st3 attempt else st3)"
      by (rule commit_cases) simp
    then have "st_attempts st' = fst (attempt_recordOutcome (st_attempts st) (at_id attempt) (plain_text (plat E) oc))" "st_credentials st' = st_credentials st"
      using f by (simp_all add: Let_def)
    then have "attempt_find (st_attempts st') i = Some attempt" "findOutcome (st_attempts st') (at_id attempt) = Some (plain_text (plat E) oc)"
      using None a(3) by (simp_all add: attempt_recordOutcome_def findOutcome_def attempt_find_def jm_has_def)
    with a parse_stringify [OF assms(2)] \<open>st_credentials st' = st_credentials st\<close> show thesis by (intro that) simp_all
  qed
qed

lemma authenticate_same:
  assumes "authenticate E st p now = Some cred" "authenticate E st' p now' = Some cred'" "st_credentials st' = st_credentials st"
  shows "cred' = cred"
  using assms by (auto simp: authenticate_def credential_resolve_def split: option.splits prod.splits if_splits)

text \<open>C17: finalizing is idempotent. After a finalize request was answered with an outcome, every later
  request for the attempt that still authenticates is answered with exactly that outcome, whatever the
  clock and the budget say, and changes nothing but the job queue: no second receipt, no second event,
  no further reading of artifacts.\<close>

theorem finalize_idempotent:
  assumes "finalize E st authorization i now ratio = (st', outcome_reply oc)" "plain_json (plat E) oc"
    and "authenticate E st' (parseSubmissionCredentialHeader authorization) (later At_authentication) \<noteq> None"
  shows "\<exists>st''. finalize E st' authorization i later ratio' = (st'', outcome_reply oc) \<and> st''\<lparr>st_jobs := st_jobs st'\<rparr> = st'"
  using assms(1,2)
proof (rule finalize_stores)
  fix cred k secret attempt stored
  assume p: "parseSubmissionCredentialHeader authorization = Some (k, secret)"
    and c: "authenticate E st (Some (k, secret)) (now At_authentication) = Some cred" and at: "attempt_find (st_attempts st') i = Some attempt"
    and own: "at_token_key_id attempt = token_key_id cred" and so: "findOutcome (st_attempts st') (at_id attempt) = Some stored"
    and j: "json_parse (plat E) stored = Some oc" and cr: "st_credentials st' = st_credentials st"
  obtain cred' where c': "authenticate E st' (Some (k, secret)) (later At_authentication) = Some cred'" using assms(3) p by auto
  have "cred' = cred" by (rule authenticate_same [OF c c' cr])
  then have "finalize E st' authorization i later ratio' = finalize_stored E st' attempt stored"
    using p c' at own so by (simp add: finalize_def)
  then show ?thesis using j by (auto simp: finalize_stored_def)
qed

section \<open>Attempts of other credentials\<close>

lemma attempt_open_find: "attempt_find A i = Some attempt \<Longrightarrow> attempt_open A r = (A', out) \<Longrightarrow> attempt_find A' i = Some attempt"
  by (auto simp: attempt_open_def attempt_find_def split: option.splits)

lemma open_attempts:
  "attempt_find (st_attempts st) i = Some attempt \<Longrightarrow> attempt_find (st_attempts (fst (open_submission E st a b now ratio))) i = Some attempt"
  by (auto simp: open_submission_def Let_def dest: attempt_open_find split: option.split sum.split prod.split openAttemptResult.split)

definition forget_attempt :: "sub_state \<Rightarrow> ustr \<Rightarrow> sub_state" where
  "forget_attempt st i = st\<lparr>st_attempts := (st_attempts st)\<lparr>att_rows := jm_delete (att_rows (st_attempts st)) i\<rparr>\<rparr>"

lemma open_accepted:
  assumes "snd (open_submission E st a b now ratio) = Reply code v"
  obtains cred tier r missing where "authenticate E st (parseSubmissionCredentialHeader a) (now At_authentication) = Some cred"
    "budgetTierFor ratio = Inr tier" "\<not> intake_disabled ratio" "is_record b \<or> is_array b"
    "\<not> list_ex (\<lambda>(part, schemaUrn). \<not> schema_valid E schemaUrn (field b part)) SCHEMA_BY_PART"
    "field (field b ''bundle_manifest'') ''manifest_id'' = JStr (expected_manifest_id cred)"
    "case expected_evidence_bundle_id cred of None \<Rightarrow> True | Some e \<Rightarrow> field (field b ''bundle_manifest'') ''evidence_bundle_id'' = JStr e"
    "attempt_of_body E cred b = Inr r"
    "missing_digests (plat E) (st_classifications st) (the_array (field (field b ''bundle_manifest'') ''artifact_references'')) = Inr missing"
proof (cases "authenticate E st (parseSubmissionCredentialHeader a) (now At_authentication)")
  case (Some cred)
  note c = assms [unfolded open_submission_def Some option.case]
  obtain tier where tier: "budgetTierFor ratio = Inr tier" using c by (cases "budgetTierFor ratio") simp_all
  note c = c [unfolded tier sum.case]
  have g: "\<not> intake_disabled ratio" "is_record b \<or> is_array b"
    "\<not> list_ex (\<lambda>(part, schemaUrn). \<not> schema_valid E schemaUrn (field b part)) SCHEMA_BY_PART"
    "field (field b ''bundle_manifest'') ''manifest_id'' = JStr (expected_manifest_id cred)"
    "case expected_evidence_bundle_id cred of None \<Rightarrow> True | Some e \<Rightarrow> field (field b ''bundle_manifest'') ''evidence_bundle_id'' = JStr e"
    using c by (auto simp: Let_def split: if_splits option.splits)
  obtain r where r: "attempt_of_body E cred b = Inr r"
    using c g by (cases "attempt_of_body E cred b") (auto simp: Let_def split: if_splits option.splits)
  obtain missing where "missing_digests (plat E) (st_classifications st) (the_array (field (field b ''bundle_manifest'') ''artifact_references'')) = Inr missing"
    using c g r by (cases "missing_digests (plat E) (st_classifications st) (the_array (field (field b ''bundle_manifest'') ''artifact_references''))")
      (auto simp: Let_def split: if_splits option.splits prod.splits openAttemptResult.splits)
  with Some tier g r show thesis by (rule that)
qed (use assms in \<open>simp add: open_submission_def\<close>)

lemma authenticate_forget: "authenticate E (forget_attempt st i) p t = authenticate E st p t"
  by (simp add: authenticate_def forget_attempt_def split: option.split)

text \<open>C20: an attempt of another credential is out of reach. Uploading to it and finalizing it change nothing
  and are answered exactly as if the attempt had never been opened, and opening a submission, whatever
  its body names, leaves it as it is. (What opening answers does tell that the attempt exists: theorem
  \<open>foreign_attempt_open_reveals\<close>.)\<close>

theorem foreign_attempt_hidden:
  assumes "attempt_find (st_attempts st) i = Some attempt"
    and "\<forall>cred. authenticate E st (parseSubmissionCredentialHeader authorization) (now At_authentication) = Some cred \<longrightarrow>
      token_key_id cred \<noteq> at_token_key_id attempt"
  shows "fst (put_artifact E st authorization i dg b nonce now) = st \<and> fst (finalize E st authorization i now ratio) = st \<and>
    snd (put_artifact E st authorization i dg b nonce now) = snd (put_artifact E (forget_attempt st i) authorization i dg b nonce now) \<and>
    snd (finalize E st authorization i now ratio) = snd (finalize E (forget_attempt st i) authorization i now ratio) \<and>
    attempt_find (st_attempts (fst (open_submission E st authorization request now ratio))) i = Some attempt"
proof -
  have f: "attempt_find (st_attempts (forget_attempt st i)) i = None" by (simp add: forget_attempt_def attempt_find_def)
  note a = authenticate_forget
  have o: "attempt_find (st_attempts (fst (open_submission E st authorization request now ratio))) i = Some attempt"
    using open_attempts assms(1) by metis
  show ?thesis
  proof (cases "authenticate E st (parseSubmissionCredentialHeader authorization) (now At_authentication)")
    case None
    then show ?thesis using o by (simp add: put_artifact_def finalize_def a Let_def)
  next
    case (Some cred)
    then have n: "at_token_key_id attempt \<noteq> token_key_id cred" using assms(2) by auto
    obtain k secret where p: "parseSubmissionCredentialHeader authorization = Some (k, secret)"
      using Some by (auto simp: authenticate_def split: option.splits)
    show ?thesis using Some n p assms(1) f o by (simp add: put_artifact_def finalize_def a)
  qed
qed

text \<open>Opening a submission under the identifier of an existing attempt is told apart: where a fresh
  identifier is answered with 201, an existing one is answered with a conflict, or with the review of
  the attempt that exists, whoever opened it.\<close>

theorem foreign_attempt_open_reveals:
  assumes "snd (open_submission E (forget_attempt st i) authorization request now ratio) = Reply 201 v"
    and "field (field request ''bundle_manifest'') ''submission_attempt_id'' = JStr i" "attempt_find (st_attempts st) i = Some attempt"
  shows "snd (open_submission E st authorization request now ratio) = Reply_error 409 ''submission_attempt_body_conflict'' \<or>
    (\<exists>w. snd (open_submission E st authorization request now ratio) = Reply 200 w \<and> field w ''review_id'' = JStr (at_review_id attempt))"
proof -
  have id: "at_id r = i" if "attempt_of_body E cred request = Inr r" for cred r
    using that assms(2) by (auto simp: attempt_of_body_def Let_def)
  have ao: "attempt_open (st_attempts st) r = (st_attempts st, if sameAttemptBody attempt r then Already_open attempt else Open_conflict)"
    if "at_id r = i" for r
    using assms(3) that by (simp add: attempt_open_def attempt_find_def)
  from assms(1) show ?thesis
  proof (rule open_accepted)
    fix cred tier r missing
    assume c: "authenticate E (forget_attempt st i) (parseSubmissionCredentialHeader authorization) (now At_authentication) = Some cred"
      "budgetTierFor ratio = Inr tier" "\<not> intake_disabled ratio" "is_record request \<or> is_array request"
      "\<not> list_ex (\<lambda>(part, schemaUrn). \<not> schema_valid E schemaUrn (field request part)) SCHEMA_BY_PART"
      "field (field request ''bundle_manifest'') ''manifest_id'' = JStr (expected_manifest_id cred)"
      "case expected_evidence_bundle_id cred of None \<Rightarrow> True | Some e \<Rightarrow> field (field request ''bundle_manifest'') ''evidence_bundle_id'' = JStr e"
      "attempt_of_body E cred request = Inr r"
      "missing_digests (plat E) (st_classifications (forget_attempt st i)) (the_array (field (field request ''bundle_manifest'') ''artifact_references'')) = Inr missing"
    have rows: "st_classifications (forget_attempt st i) = st_classifications st" by (simp add: forget_attempt_def)
    show ?thesis
      using c(3-7) ao [OF id [OF c(8)]]
      by (simp add: open_submission_def c(1) [unfolded authenticate_forget] c(2,8,9) [unfolded rows] Let_def split: option.splits)
  qed
qed

section \<open>Stored bytes match their digests\<close>

definition artifact_ok :: "('a sub_env_scheme) \<Rightarrow> ustr \<Rightarrow> bytes \<Rightarrow> bool" where
  "artifact_ok E dg w \<longleftrightarrow>
     (\<exists>bs. sha256_digest_of (plat E) bs = dg \<and> length bs \<le> ARTIFACT_BODY_LIMIT_BYTES \<and>
        (w = bs \<or> (\<exists>nonce env. se_envelope E = Some env \<and> wrapEnvelope (se_gcm E) nonce bs env = Inr w)))"

definition artifacts_ok :: "('a sub_env_scheme) \<Rightarrow> sub_state \<Rightarrow> bool" where
  "artifacts_ok E st \<longleftrightarrow> (\<forall>dg w. jm_get (objects (st_artifacts st)) dg = Some w \<longrightarrow> artifact_ok E dg w)"

text \<open>The requests of any clients, in the order the server answers them.\<close>

datatype sub_op =
    Open_op "ustr option" jsval clock jsnum
  | Put_op "ustr option" ustr ustr "bytes option" bytes clock
  | Finalize_op "ustr option" ustr clock jsnum

fun sub_exec :: "('a sub_env_scheme) \<Rightarrow> sub_state \<Rightarrow> sub_op \<Rightarrow> sub_state" where
  "sub_exec E st (Open_op a b now ratio) = fst (open_submission E st a b now ratio)"
| "sub_exec E st (Put_op a i dg b nonce now) = fst (put_artifact E st a i dg b nonce now)"
| "sub_exec E st (Finalize_op a i now ratio) = fst (finalize E st a i now ratio)"

lemma open_frame: "st_artifacts (fst (open_submission E st a b now ratio)) = st_artifacts st"
  by (auto simp: open_submission_def Let_def split: option.splits sum.splits if_splits prod.splits openAttemptResult.splits)

lemma commit_frame: "st_artifacts (fst (commit_outcome E st attempt manifest res now)) = st_artifacts st"
  by (auto simp: commit_outcome_def enqueueNormalization_def Let_def split: sum.splits appendSubmissionResult.splits)

lemma finalize_open_frame: "st_artifacts (fst (finalize_open E st attempt cred secret now ratio)) = st_artifacts st"
proof -
  have rd: "read_artifacts E now n attempt refs acc st = (st1, x) \<Longrightarrow> st_artifacts st1 = st_artifacts st" for n refs acc st1 x
    using read_artifacts_frame [of E now n attempt refs acc st] by auto
  have iss: "issue_receipt E st1 attempt request now = (st2, x) \<Longrightarrow> st_artifacts st2 = st_artifacts st1" for st1 st2 request x
    using issue_receipt_frame [of E st1 attempt request now] by auto
  show ?thesis
    by (auto simp: finalize_open_def commit_frame split: option.splits prod.splits artifactsRead.splits sum.splits dest!: rd iss)
qed

lemma finalize_frame: "st_artifacts (fst (finalize E st a i now ratio)) = st_artifacts st"
  by (auto simp: finalize_def finalize_stored_def finalize_open_frame enqueueNormalization_def Let_def split: option.splits if_splits)

lemma artifact_put_objects:
  assumes "artifact_put G env nonce st dg bs c = Inr (st', put)" "jm_get (objects st') d = Some w"
  shows "jm_get (objects st) d = Some w \<or> (d = dg \<and> (w = bs \<or> (\<exists>e. env = Some e \<and> wrapEnvelope G nonce bs e = Inr w)))"
  using assms by (auto simp: artifact_put_def split: if_splits option.splits)

lemma put_artifacts_ok:
  assumes "artifacts_ok E st"
  shows "artifacts_ok E (fst (put_artifact E st a i dg b nonce now))"
proof -
  have "artifacts_ok E (fst (store_artifact E st refs r bs nonce))"
    if "JStr (sha256_digest_of (plat E) bs) = field r ''digest''" "length bs \<le> ARTIFACT_BODY_LIMIT_BYTES" for refs r bs
  proof -
    have ok: "artifact_ok E d w"
      if p: "artifact_put (se_gcm E) (se_envelope E) nonce (st_artifacts st) (the_str (field r ''digest'')) bs c = Inr (st', put)"
        and g: "jm_get (objects st') d = Some w" for c st' put d w
    proof -
      have "the_str (field r ''digest'') = sha256_digest_of (plat E) bs"
        using \<open>JStr (sha256_digest_of (plat E) bs) = field r ''digest''\<close> by (metis the_str.simps(1))
      with artifact_put_objects [OF p g] assms \<open>length bs \<le> ARTIFACT_BODY_LIMIT_BYTES\<close> show ?thesis
        unfolding artifacts_ok_def artifact_ok_def by metis
    qed
    show ?thesis
      using assms ok
      by (auto simp: store_artifact_def Let_def artifacts_ok_def split: storedObjectResult.splits sum.splits)
  qed
  then show ?thesis
    using assms by (auto simp: put_artifact_def Let_def split: option.splits if_splits)
qed

text \<open>C18: the artifact store never holds bytes under a digest that is not theirs. However clients open,
  upload and finalize, every stored object is bytes no longer than the limit whose SHA-256 is the digest
  it is stored under, or an envelope made from such bytes.\<close>

theorem stored_artifacts_match_digests:
  assumes "artifacts_ok E st"
  shows "artifacts_ok E (foldl (sub_exec E) st ops)"
  using assms
proof (induction ops arbitrary: st)
  case (Cons op ops)
  have "artifacts_ok E (sub_exec E st op)"
    using Cons.prems put_artifacts_ok [OF Cons.prems]
    by (cases op) (simp_all add: artifacts_ok_def open_frame finalize_frame)
  then show ?case using Cons.IH by simp
qed simp

section \<open>Reading is logged\<close>

lemma log_append_entries:
  assumes "log_append P logs r e = Inr (logs', out)"
  shows "\<exists>new. log_entries logs' q = log_entries logs q @ new"
    "(\<forall>reason. out \<noteq> Rejected reason) \<Longrightarrow> \<exists>s \<in> set (log_entries logs' r). idempotencyKey s = event_key e"
proof -
  show "\<exists>new. log_entries logs' q = log_entries logs q @ new"
    using assms
    by (cases "find_first (\<lambda>x. idempotencyKey x = event_key e) (log_entries logs r)") (auto simp: log_append_def Let_def split: if_splits)
  assume n: "\<forall>reason. out \<noteq> Rejected reason"
  show "\<exists>s \<in> set (log_entries logs' r). idempotencyKey s = event_key e"
  proof (cases "find_first (\<lambda>x. idempotencyKey x = event_key e) (log_entries logs r)")
    case None
    with assms n show ?thesis by (auto simp: log_append_def Let_def split: if_splits)
  next
    case (Some x)
    with assms n have "logs' = logs" by (auto simp: log_append_def Let_def split: if_splits)
    with find_first_SomeD [OF Some] show ?thesis by auto
  qed
qed

lemma artifact_get_log:
  assumes "artifact_get G env app logs st event dg = Inr (logs', res)"
  shows "(logs' = logs \<and> res = Not_found) \<or>
    (\<exists>out. app logs (event_review_id event) event = Inr (logs', out) \<and> (\<forall>bs. res = Read bs \<longrightarrow> (\<forall>reason. out \<noteq> Rejected reason)))"
proof (cases "jm_get (objects st) dg")
  case None
  with assms show ?thesis by (simp add: artifact_get_def)
next
  case (Some bs)
  with assms obtain l out where a: "app logs (event_review_id event) event = Inr (l, out)"
    by (auto simp: artifact_get_def)
  have "l = logs' \<and> (\<forall>b. res = Read b \<longrightarrow> (\<forall>reason. out \<noteq> Rejected reason))"
    using assms Some a by (cases out) (auto simp: artifact_get_def split: if_splits option.splits sum.splits)
  with a show ?thesis by blast
qed

lemma submission_request_fields [simp]:
  "field (submission_access_request P opts attempt r now) ''idempotency_key'' = JStr (access_key opts attempt (the_str (field r ''digest'')))"
  "field (submission_access_request P opts attempt r now) ''event_timestamp'' = JStr now"
  "field (submission_access_request P opts attempt r now) ''review_scope'' = JStr (at_review_id attempt)"
  by (simp_all add: submission_access_request_def Let_def)

lemma access_event_more [simp]:
  "field (access_event request n) ''idempotency_key'' = field request ''idempotency_key''"
  "field (access_event request n) ''event_timestamp'' = field request ''event_timestamp''"
  "field (access_event request n) ''sequence_number'' = n"
  by (simp_all add: access_event_def)

lemma mint_access_event:
  assumes "mintSubmissionAccess E opts logs attempt r now = Inr (Some event)"
  shows "\<exists>n. event = access_event (submission_access_request (plat E) opts attempt r now) n"
proof -
  from assms obtain events res where "enforceScopedAccess E (JArr events) (submission_access_request (plat E) opts attempt r now) = Inr res"
    "(case res of Access_allowed event _ \<Rightarrow> Some event | Access_denied _ _ \<Rightarrow> None) = Some event"
    by (auto simp: mintSubmissionAccess_def)
  then obtain events' where "enforceScopedAccess E (JArr events) (submission_access_request (plat E) opts attempt r now) = Inr (Access_allowed event events')"
    by (cases res) simp_all
  then show ?thesis using scoped_access_recorded by blast
qed

lemma mint_event:
  assumes "mintSubmissionAccess E opts logs attempt r now = Inr (Some event)"
  shows "event_review_id event = at_review_id attempt" "event_key event = access_key opts attempt (the_str (field r ''digest''))"
    "field event ''event_timestamp'' = JStr now"
  using mint_access_event [OF assms] by (auto simp: event_review_id_def event_key_def)

lemma mint_key:
  assumes "mintSubmissionAccess E opts logs attempt r now = Inr (Some event)"
  shows "field event ''idempotency_key'' = JStr (access_key opts attempt (the_str (field r ''digest'')))"
  using mint_access_event [OF assms] by auto

lemma read_step_cases:
  assumes "read_artifacts E now n attempt (r # refs) acc st = (st', res)"
  obtains (stopped) "st' = st" "\<forall>a. res \<noteq> Read_all a"
  | (got) event logs' x where "mintSubmissionAccess E intake_access (st_lifecycle st) attempt r (now (At_access n)) = Inr (Some event)"
      "artifact_get (se_gcm E) (se_envelope E) (log_append (plat E)) (st_lifecycle st) (st_artifacts st) event (the_str (field r ''digest'')) = Inr (logs', x)"
      "\<forall>bs. x \<noteq> Read bs" "st' = st\<lparr>st_lifecycle := logs'\<rparr>" "res = Read_incomplete"
  | (reads) event logs' bs where "mintSubmissionAccess E intake_access (st_lifecycle st) attempt r (now (At_access n)) = Inr (Some event)"
      "artifact_get (se_gcm E) (se_envelope E) (log_append (plat E)) (st_lifecycle st) (st_artifacts st) event (the_str (field r ''digest'')) = Inr (logs', Read bs)"
      "read_artifacts E now (n + 1) attempt refs (jm_set acc (the_str (field r ''artifact_ref'')) bs) (st\<lparr>st_lifecycle := logs'\<rparr>) = (st', res)"
proof (cases "mintSubmissionAccess E intake_access (st_lifecycle st) attempt r (now (At_access n))")
  case (Inl u)
  with assms show thesis by (intro stopped) simp_all
next
  case (Inr m)
  show thesis
  proof (cases m)
    case None
    with assms Inr show thesis by (intro stopped) simp_all
  next
    case (Some event)
    let ?g = "artifact_get (se_gcm E) (se_envelope E) (log_append (plat E)) (st_lifecycle st) (st_artifacts st) event (the_str (field r ''digest''))"
    show thesis
    proof (cases ?g)
      case (Inl u)
      with assms Inr Some show thesis by (intro stopped) simp_all
    next
      case (Inr p)
      obtain logs' x where p: "p = (logs', x)" by (cases p)
      note m = \<open>mintSubmissionAccess E intake_access _ attempt r _ = Inr m\<close> [unfolded Some]
      show thesis
      proof (cases x)
        case (Read bs)
        with assms m Inr p show thesis by (intro reads) simp_all
      qed (use assms m Inr p in \<open>auto intro!: got\<close>)
    qed
  qed
qed

lemma read_artifacts_prefix:
  "read_artifacts E now n attempt refs acc st = (st', res) \<Longrightarrow> \<exists>new. log_entries (st_lifecycle st') q = log_entries (st_lifecycle st) q @ new"
proof (induction refs arbitrary: n acc st)
  case (Cons r refs)
  have step: "\<exists>new. log_entries l q = log_entries (st_lifecycle st) q @ new"
    if "artifact_get (se_gcm E) (se_envelope E) (log_append (plat E)) (st_lifecycle st) (st_artifacts st) event dg = Inr (l, x)" for event dg l x
    using artifact_get_log [OF that]
  proof
    assume "\<exists>out. log_append (plat E) (st_lifecycle st) (event_review_id event) event = Inr (l, out) \<and> (\<forall>bs. x = Read bs \<longrightarrow> (\<forall>reason. out \<noteq> Rejected reason))"
    then show ?thesis using log_append_entries(1) by blast
  qed simp
  from Cons.prems show ?case
  proof (cases rule: read_step_cases)
    case (got event logs' x)
    with step [OF got(2)] show ?thesis by simp
  next
    case (reads event logs' bs)
    from Cons.IH [OF reads(3)] step [OF reads(2)] show ?thesis by auto
  qed simp
qed simp

text \<open>Every artifact handed to intake was read under an access event of the lifecycle log.\<close>

lemma read_artifacts_logged:
  assumes "read_artifacts E now n attempt refs acc st = (st', Read_all acc')" "r \<in> set refs"
  shows "\<exists>s \<in> set (log_entries (st_lifecycle st') (at_review_id attempt)). idempotencyKey s = access_key intake_access attempt (the_str (field r ''digest''))"
  using assms
proof (induction refs arbitrary: n acc st)
  case (Cons x refs)
  from Cons.prems(1) obtain event logs' bs where m: "mintSubmissionAccess E intake_access (st_lifecycle st) attempt x (now (At_access n)) = Inr (Some event)"
    and g: "artifact_get (se_gcm E) (se_envelope E) (log_append (plat E)) (st_lifecycle st) (st_artifacts st) event (the_str (field x ''digest'')) = Inr (logs', Read bs)"
    and rest: "read_artifacts E now (n + 1) attempt refs (jm_set acc (the_str (field x ''artifact_ref'')) bs) (st\<lparr>st_lifecycle := logs'\<rparr>) = (st', Read_all acc')"
    by (cases rule: read_step_cases) auto
  show ?case
  proof (cases "r = x")
    case True
    obtain out where out: "log_append (plat E) (st_lifecycle st) (event_review_id event) event = Inr (logs', out)" "\<forall>reason. out \<noteq> Rejected reason"
      using artifact_get_log [OF g] by auto
    from log_append_entries(2) [OF out] mint_event(1,2) [OF m]
    have "\<exists>s \<in> set (log_entries logs' (at_review_id attempt)). idempotencyKey s = access_key intake_access attempt (the_str (field r ''digest''))"
      using True by simp
    moreover obtain new where "log_entries (st_lifecycle st') (at_review_id attempt) = log_entries logs' (at_review_id attempt) @ new"
      using read_artifacts_prefix [OF rest] by auto
    ultimately show ?thesis by auto
  next
    case False
    with Cons.IH [OF rest] Cons.prems(2) show ?thesis by simp
  qed
qed simp

theorem finalize_reads_logged:
  assumes "finalize E st authorization i now ratio = (st', Reply code v)" "attempt_find (st_attempts st) i = Some attempt"
    and "findOutcome (st_attempts st) (at_id attempt) = None" "json_parse (plat E) (at_bundle_manifest_body attempt) = Some manifest"
    and "r \<in> set (the_array (field manifest ''artifact_references''))"
  shows "\<exists>s \<in> set (log_entries (st_lifecycle st') (at_review_id attempt)). idempotencyKey s = access_key intake_access attempt (the_str (field r ''digest''))"
proof -
  from assms(1-3) obtain cred secret where "finalize_open E st attempt cred secret now ratio = (st', Reply code v)"
    by (auto elim!: finalize_cases)
  then obtain st1 artifacts request st2 res where s: "read_artifacts E now 0 attempt (the_array (field manifest ''artifact_references'')) [] st = (st1, Read_all artifacts)"
      "issue_receipt E st1 attempt request now = (st2, Inr res)" "commit_outcome E st2 attempt manifest res now = (st', Reply code v)"
    using assms(4) by (auto elim!: finalize_open_cases)
  have "st_lifecycle st2 = st_lifecycle st1" using issue_receipt_frame [of E st1 attempt request now] s(2) by auto
  moreover have "st_lifecycle st' = st_lifecycle st2"
    using s(3) by (auto elim!: commit_cases simp: Let_def enqueueNormalization_def)
  ultimately show ?thesis using read_artifacts_logged [OF s(1) assms(5)] by simp
qed

section \<open>A premature finalize\<close>

lemma noop_same_event:
  assumes "appendEvidenceLifecycleEvent E (JArr es) e c = Inr (LC_noop out)"
    and "find_first (\<lambda>x. strict_eq (field x ''idempotency_key'') (field e ''idempotency_key'')) es = Some k"
  shows "stableEquals E k e = Inr True"
  using assms(1) unfolding appendEvidenceLifecycleEvent_def Let_def the_array.simps assms(2) option.case noop_guards by blast

lemma allowed_taken:
  assumes "sbind A (\<lambda>appended. Inr (case appended of LC_rejected _ _ \<Rightarrow> Access_denied d es
       | LC_appended l \<Rightarrow> (case cloneJson e of None \<Rightarrow> Access_denied d' es | Some em \<Rightarrow> Access_allowed em l)
       | LC_noop l \<Rightarrow> (case cloneJson e of None \<Rightarrow> Access_denied d' es | Some em \<Rightarrow> Access_allowed em l)))
     = Inr (Access_allowed emitted out)"
  shows "\<exists>res. (\<forall>r es. res \<noteq> LC_rejected r es) \<and> A = Inr res"
proof -
  from assms obtain res where "A = Inr res" by auto
  with assms show ?thesis by (cases res) auto
qed

lemma access_key_taken:
  assumes "find_first (\<lambda>x. strict_eq (field x ''idempotency_key'') (field request ''idempotency_key'')) events = Some x"
    and "stableEquals E x (access_event request (field x ''sequence_number'')) \<noteq> Inr True"
  shows "enforceScopedAccess E (JArr events) request \<noteq> Inr (Access_allowed event out)"
proof
  let ?e = "access_event request (field x ''sequence_number'')"
  assume a: "enforceScopedAccess E (JArr events) request = Inr (Access_allowed event out)"
  from a [unfolded enforceScopedAccess_def Let_def allowed_guards the_array.simps assms(1) option.case sum.case]
  obtain res where nr: "\<forall>r es. res \<noteq> LC_rejected r es" and ap: "appendEvidenceLifecycleEvent E (JArr events) ?e (JObj []) = Inr res"
    by (elim conjE) (drule allowed_taken, blast)
  have k: "field ?e ''idempotency_key'' = field request ''idempotency_key''" by simp
  show False
  proof (cases res)
    case (LC_appended l)
    with ap have "append_admits E events ?e" by (simp add: appended_iff)
    with find_first_SomeD [OF assms(1)] k show False by (auto simp: append_admits_def)
  next
    case (LC_noop l)
    with noop_same_event [of E events ?e "JObj []" l x] ap assms k show False by auto
  qed (use nr in blast)
qed

lemma access_event_json:
  assumes "json_data P (submission_access_request P opts attempt r now)" "json_data P n"
  shows "json_data P (access_event (submission_access_request P opts attempt r now) n)"
  using assms by (simp add: access_event_def submission_access_request_def Let_def)

lemma access_event_sequence: "json_data P (access_event request n) \<Longrightarrow> field (access_event request n) ''sequence_number'' \<noteq> JUndef"
  by (auto simp: access_event_def)

lemma other_timestamp_denied:
  assumes "jcs_rfc8785 E" "log_inv (plat E) logs"
    and "find_first (\<lambda>x. strict_eq (field x ''idempotency_key'') (JStr (access_key opts attempt (the_str (field r ''digest'')))))
      (log_events (plat E) logs (at_review_id attempt)) = Some x"
    and "field x ''event_timestamp'' \<noteq> JStr now" "json_data (plat E) (submission_access_request (plat E) opts attempt r now)"
    and "field x ''sequence_number'' \<noteq> JUndef"
  shows "mintSubmissionAccess E opts logs attempt r now \<noteq> Inr (Some event)"
proof
  let ?req = "submission_access_request (plat E) opts attempt r now" and ?es = "log_events (plat E) logs (at_review_id attempt)"
  assume m: "mintSubmissionAccess E opts logs attempt r now = Inr (Some event)"
  have ld: "loadLog (plat E) logs (at_review_id attempt) = Inr ?es"
    using log_events_append(1) [OF assms(2)] by (simp add: loadLog_def)
  have key: "field ?req ''idempotency_key'' = JStr (access_key opts attempt (the_str (field r ''digest'')))"
    "field ?req ''event_timestamp'' = JStr now" by simp_all
  from find_first_SomeD [OF assms(3)] log_events_json(2) [OF assms(2) ld] have xj: "json_data (plat E) x" by blast
  let ?e = "access_event ?req (field x ''sequence_number'')"
  have "stableEquals E x ?e \<noteq> Inr True"
  proof
    assume "stableEquals E x ?e = Inr True"
    moreover have ej: "json_data (plat E) ?e" by (rule access_event_json [OF assms(5) json_data_field [OF xj assms(6)]])
    ultimately have "norm_js x = norm_js ?e"
      using assms(1) xj unfolding stableEquals_text jcs_rfc8785_def by blast
    then have "norm_js (field x ''event_timestamp'') = norm_js (field ?e ''event_timestamp'')"
      using field_norm_js [OF xj] field_norm_js [OF ej] by metis
    moreover have "field ?e ''event_timestamp'' = JStr now" by simp
    ultimately show False using assms(4) by (cases "field x ''event_timestamp''") auto
  qed
  with access_key_taken [of ?req ?es x E] assms(3) key(1) have n: "\<forall>e out. enforceScopedAccess E (JArr ?es) ?req \<noteq> Inr (Access_allowed e out)" by simp
  from m ld obtain res where "enforceScopedAccess E (JArr ?es) ?req = Inr res"
    "(case res of Access_allowed event _ \<Rightarrow> Some event | Access_denied _ _ \<Rightarrow> None) = Some event"
    by (auto simp: mintSubmissionAccess_def)
  with n show False by (cases res) auto
qed

lemma finalize_stuck:
  assumes "jcs_rfc8785 E" "log_inv (plat E) (st_lifecycle st)"
    and "attempt_find (st_attempts st) i = Some attempt" "findOutcome (st_attempts st) (at_id attempt) = None"
    and "json_parse (plat E) (at_bundle_manifest_body attempt) = Some manifest" "the_array (field manifest ''artifact_references'') = r # rs"
    and "find_first (\<lambda>x. strict_eq (field x ''idempotency_key'') (JStr (access_key intake_access attempt (the_str (field r ''digest'')))))
      (log_events (plat E) (st_lifecycle st) (at_review_id attempt)) = Some x"
    and "field x ''event_timestamp'' \<noteq> JStr (now (At_access 0))"
    and "json_data (plat E) (submission_access_request (plat E) intake_access attempt r (now (At_access 0)))"
    and "field x ''sequence_number'' \<noteq> JUndef"
  shows "fst (finalize E st authorization i now ratio) = st \<and> (\<forall>code v. snd (finalize E st authorization i now ratio) \<noteq> Reply code v)"
proof -
  have "mintSubmissionAccess E intake_access (st_lifecycle st) attempt r (now (At_access 0)) \<noteq> Inr (Some event)" for event
    by (rule other_timestamp_denied [OF assms(1,2,7-10)])
  then have "read_artifacts E now 0 attempt (r # rs) [] st = (st, Read_threw) \<or> read_artifacts E now 0 attempt (r # rs) [] st = (st, Read_incomplete)"
    by (cases "mintSubmissionAccess E intake_access (st_lifecycle st) attempt r (now (At_access 0))") (auto split: option.splits)
  then have "fst (finalize_open E st attempt cred secret now ratio) = st \<and> (\<forall>code v. snd (finalize_open E st attempt cred secret now ratio) \<noteq> Reply code v)" for cred secret
    using assms(5,6) by (auto simp: finalize_open_def)
  with assms(3,4) show ?thesis
    by (cases "authenticate E st (parseSubmissionCredentialHeader authorization) (now At_authentication)";
        cases "parseSubmissionCredentialHeader authorization") (simp_all add: finalize_def split: prod.split)
qed


lemma put_frame:
  "st_attempts (fst (put_artifact E st a i dg b nonce now)) = st_attempts st"
  "st_lifecycle (fst (put_artifact E st a i dg b nonce now)) = st_lifecycle st"
proof -
  have "st_attempts (fst (store_artifact E st refs r bs nonce)) = st_attempts st \<and> st_lifecycle (fst (store_artifact E st refs r bs nonce)) = st_lifecycle st" for refs r bs
    by (auto simp: store_artifact_def Let_def split: storedObjectResult.splits sum.splits)
  then show "st_attempts (fst (put_artifact E st a i dg b nonce now)) = st_attempts st"
    "st_lifecycle (fst (put_artifact E st a i dg b nonce now)) = st_lifecycle st"
    by (auto simp: put_artifact_def Let_def split: option.splits if_splits)
qed

lemma uploads_frame:
  assumes "\<forall>op \<in> set uploads. \<exists>a i dg b nonce now. op = Put_op a i dg b nonce now"
  shows "st_attempts (foldl (sub_exec E) st uploads) = st_attempts st \<and> st_lifecycle (foldl (sub_exec E) st uploads) = st_lifecycle st"
  using assms
proof (induction uploads arbitrary: st)
  case (Cons op uploads)
  then obtain a i dg b nonce now where "op = Put_op a i dg b nonce now" by auto
  with Cons.IH [of "sub_exec E st op"] Cons.prems show ?case by (simp add: put_frame)
qed simp

lemma read_missing:
  assumes "jm_get (objects (st_artifacts st)) (the_str (field r ''digest'')) = None"
    and "read_artifacts E now n attempt (r # refs) acc st = (st', res)"
  shows "st' = st \<and> (\<forall>a. res \<noteq> Read_all a)"
  using assms(2)
proof (cases rule: read_step_cases)
  case (got event logs' x)
  then have "logs' = st_lifecycle st" using assms(1) by (auto simp: artifact_get_def)
  with got show ?thesis by simp
qed (use assms(1) in \<open>auto simp: artifact_get_def\<close>)

text \<open>A finalize request that finds the first artifact of a manifest but not the second.\<close>

record premature =
  pm_attempt :: attemptRecord
  pm_manifest :: jsval
  pm_first :: jsval
  pm_second :: jsval
  pm_event :: jsval
  pm_bytes :: bytes

definition is_premature :: "('a sub_env_scheme) \<Rightarrow> sub_state \<Rightarrow> ustr option \<Rightarrow> ustr \<Rightarrow> clock \<Rightarrow> log_state \<Rightarrow> premature \<Rightarrow> bool" where
  "is_premature E st authorization i now logs' p \<longleftrightarrow>
     (\<exists>k secret cred rest. parseSubmissionCredentialHeader authorization = Some (k, secret) \<and>
        authenticate E st (Some (k, secret)) (now At_authentication) = Some cred \<and> at_token_key_id (pm_attempt p) = token_key_id cred \<and>
        the_array (field (pm_manifest p) ''artifact_references'') = pm_first p # pm_second p # rest) \<and>
     attempt_find (st_attempts st) i = Some (pm_attempt p) \<and> findOutcome (st_attempts st) (at_id (pm_attempt p)) = None \<and>
     json_parse (plat E) (at_bundle_manifest_body (pm_attempt p)) = Some (pm_manifest p) \<and>
     mintSubmissionAccess E intake_access (st_lifecycle st) (pm_attempt p) (pm_first p) (now (At_access 0)) = Inr (Some (pm_event p)) \<and>
     artifact_get (se_gcm E) (se_envelope E) (log_append (plat E)) (st_lifecycle st) (st_artifacts st) (pm_event p)
       (the_str (field (pm_first p) ''digest'')) = Inr (logs', Read (pm_bytes p)) \<and>
     jm_get (objects (st_artifacts st)) (the_str (field (pm_second p) ''digest'')) = None"

lemma premature_state:
  assumes "is_premature E st authorization i now logs' p"
  shows "fst (finalize E st authorization i now ratio) = st\<lparr>st_lifecycle := logs'\<rparr>"
proof -
  obtain k secret cred rest where a: "parseSubmissionCredentialHeader authorization = Some (k, secret)"
    "authenticate E st (Some (k, secret)) (now At_authentication) = Some cred" "at_token_key_id (pm_attempt p) = token_key_id cred"
    "the_array (field (pm_manifest p) ''artifact_references'') = pm_first p # pm_second p # rest"
    and b: "attempt_find (st_attempts st) i = Some (pm_attempt p)" "findOutcome (st_attempts st) (at_id (pm_attempt p)) = None"
    "json_parse (plat E) (at_bundle_manifest_body (pm_attempt p)) = Some (pm_manifest p)"
    using assms unfolding is_premature_def by blast
  let ?acc = "jm_set [] (the_str (field (pm_first p) ''artifact_ref'')) (pm_bytes p)"
  have r: "read_artifacts E now 0 (pm_attempt p) (pm_first p # pm_second p # rest) [] st =
      read_artifacts E now 1 (pm_attempt p) (pm_second p # rest) ?acc (st\<lparr>st_lifecycle := logs'\<rparr>)"
    using assms by (simp add: is_premature_def)
  obtain st' res where rd: "read_artifacts E now 1 (pm_attempt p) (pm_second p # rest) ?acc (st\<lparr>st_lifecycle := logs'\<rparr>) = (st', res)"
    by fastforce
  moreover from read_missing [OF _ rd] assms have "st' = st\<lparr>st_lifecycle := logs'\<rparr>" "\<forall>a. res \<noteq> Read_all a"
    by (simp_all add: is_premature_def)
  ultimately have "fst (finalize_open E st (pm_attempt p) cred secret now ratio) = st\<lparr>st_lifecycle := logs'\<rparr>"
    using a(4) b(3) r by (cases res) (simp_all add: finalize_open_def)
  with a b show ?thesis by (simp add: finalize_def)
qed


lemma norm_undef: "norm_js v = JUndef \<longleftrightarrow> v = JUndef"
  by (cases v) simp_all

lemma premature_log:
  assumes "is_premature E st authorization i now logs' p" "log_inv (plat E) (st_lifecycle st)" "json_data (plat E) (pm_event p)"
    and "\<forall>e \<in> set (log_events (plat E) (st_lifecycle st) (at_review_id (pm_attempt p))).
      event_key e \<noteq> access_key intake_access (pm_attempt p) (the_str (field (pm_first p) ''digest''))"
  shows "log_inv (plat E) logs' \<and>
    find_first (\<lambda>x. strict_eq (field x ''idempotency_key'') (JStr (access_key intake_access (pm_attempt p) (the_str (field (pm_first p) ''digest'')))))
      (log_events (plat E) logs' (at_review_id (pm_attempt p))) = Some (norm_js (pm_event p)) \<and>
    field (norm_js (pm_event p)) ''event_timestamp'' = JStr (now (At_access 0)) \<and> field (norm_js (pm_event p)) ''sequence_number'' \<noteq> JUndef"
proof -
  let ?k = "access_key intake_access (pm_attempt p) (the_str (field (pm_first p) ''digest''))" and ?r = "at_review_id (pm_attempt p)"
  have m: "mintSubmissionAccess E intake_access (st_lifecycle st) (pm_attempt p) (pm_first p) (now (At_access 0)) = Inr (Some (pm_event p))"
    and g: "artifact_get (se_gcm E) (se_envelope E) (log_append (plat E)) (st_lifecycle st) (st_artifacts st) (pm_event p)
       (the_str (field (pm_first p) ''digest'')) = Inr (logs', Read (pm_bytes p))"
    using assms(1) unfolding is_premature_def by blast+
  note ev = mint_event [OF m]
  obtain out where out: "log_append (plat E) (st_lifecycle st) ?r (pm_event p) = Inr (logs', out)" "\<forall>reason. out \<noteq> Rejected reason"
    using artifact_get_log [OF g] ev(1) by auto
  have c: "\<exists>t. canonicalizeProtocolJson (plat E) (pm_event p) = Inr t"
    using out(1) by (auto simp: log_append_def Let_def toCanonicalRow_iff)
  with assms(3) have s: "storable (plat E) (pm_event p)" by (simp add: storable_def)
  have "\<forall>x. out \<noteq> Idempotent_noop x"
    using memory_log.append_noop [OF assms(2) s] out(1) assms(4) ev(2) by metis
  with out(2) obtain x where "out = Appended x" by (cases out) auto
  with out(1) have ap: "log_append (plat E) (st_lifecycle st) ?r (pm_event p) = Inr (logs', Appended x)" by simp
  have e: "log_events (plat E) logs' ?r = log_events (plat E) (st_lifecycle st) ?r @ [norm_js (pm_event p)]"
    using memory_log.append_appended [OF assms(2) s ap] by simp
  have "find_first (\<lambda>x. strict_eq (field x ''idempotency_key'') (JStr ?k)) (log_events (plat E) (st_lifecycle st) ?r) = None"
    using assms(4) by (auto simp: find_first_None event_key_def)
  moreover have "field (norm_js (pm_event p)) ''idempotency_key'' = JStr ?k"
    using mint_key [OF m] field_norm_js [OF assms(3)] by simp
  moreover have "norm_js (field (pm_event p) ''sequence_number'') \<noteq> JUndef"
    using mint_access_event [OF m] assms(3) access_event_sequence by (metis norm_undef)
  ultimately show ?thesis
    using e ev(3) memory_log.append_inv [OF assms(2) s ap] field_norm_js [OF assms(3)] by (simp add: find_first_append)
qed

text \<open>C36: a premature finalize can never be repaired. When finalize is called while the first artifact
  of the manifest is stored and the second is missing, the access to the first is logged under a key
  that the next attempts reuse with a new timestamp. Whatever is uploaded afterwards, every later
  finalize that reads another time from the clock for its first access is refused or throws at the
  first artifact and changes nothing: at no other instant does the attempt get an outcome.\<close>

theorem premature_finalize_is_final:
  assumes "is_premature E st authorization i now logs' p" "jcs_rfc8785 E" "log_inv (plat E) (st_lifecycle st)" "json_data (plat E) (pm_event p)"
    and "\<forall>e \<in> set (log_events (plat E) (st_lifecycle st) (at_review_id (pm_attempt p))).
      event_key e \<noteq> access_key intake_access (pm_attempt p) (the_str (field (pm_first p) ''digest''))"
    and "\<forall>op \<in> set uploads. \<exists>a i dg b nonce now. op = Put_op a i dg b nonce now"
    and "st2 = foldl (sub_exec E) (fst (finalize E st authorization i now ratio)) uploads"
    and "later (At_access 0) \<noteq> now (At_access 0)"
    and "json_data (plat E) (submission_access_request (plat E) intake_access (pm_attempt p) (pm_first p) (later (At_access 0)))"
  shows "fst (finalize E st2 authorization' i later ratio') = st2 \<and> (\<forall>code v. snd (finalize E st2 authorization' i later ratio') \<noteq> Reply code v)"
proof -
  have st2: "st_attempts st2 = st_attempts st" "st_lifecycle st2 = logs'"
    using uploads_frame [OF assms(6), of E "fst (finalize E st authorization i now ratio)"] assms(7) premature_state [OF assms(1), of ratio] by simp_all
  obtain rest where m: "attempt_find (st_attempts st) i = Some (pm_attempt p)" "findOutcome (st_attempts st) (at_id (pm_attempt p)) = None"
    "json_parse (plat E) (at_bundle_manifest_body (pm_attempt p)) = Some (pm_manifest p)"
    "the_array (field (pm_manifest p) ''artifact_references'') = pm_first p # pm_second p # rest"
    using assms(1) unfolding is_premature_def by blast
  from premature_log [OF assms(1,3,4,5)] assms(8) show ?thesis
    by (intro finalize_stuck [OF assms(2) _ _ _ m(3,4), where now = later and x = "norm_js (pm_event p)"])
      (auto simp: st2 m intro: assms(9))
qed

section \<open>The credential of a request\<close>

lemma from_hex_lower: "list_all is_lower_hex s \<Longrightarrow> from_hex s = of_hex s"
proof (induction s rule: from_hex.induct)
  case (1 a b s)
  have "ascii_lower c = c" if "is_lower_hex c" for c using that by (auto simp: is_lower_hex_def ascii_lower_def)
  with 1 show ?case by simp
qed simp_all

text \<open>C38: the submission routes and the identity store agree on a secret. For a secret hash the identity
  store issued, the routes accept exactly the secrets the identity store accepts, as long as their
  fixed memory limit lets scrypt run with the parameters of the identity store.\<close>

theorem credential_secret_agrees:
  assumes "scrypt_derives C" "numerals_read C" "byte_string salt" "salt \<noteq> []"
    and "hashSecret C salt plaintext = Some (c_secret_hash cred)"
    and "\<And>pass. scrypt_64m pass salt 32768 8 1 32 = scrypt C pass salt 32768 8 1 32"
  shows "verifyCredentialSecret C scrypt_64m cred presented \<longleftrightarrow> verifySecret C (c_secret_hash cred) presented"
proof -
  obtain d where d: "scrypt C plaintext salt 32768 8 1 32 = Some d" "length d = 32" "byte_string d"
    using assms(1) by (auto simp: scrypt_derives_def)
  then have ne: "d \<noteq> []" and h: "c_secret_hash cred = lit ''scrypt$32768$8$1$'' @ to_hex salt @ lit ''$'' @ to_hex d"
    using assms(5) by (auto simp: hashSecret_def)
  show ?thesis
    using assms d ne to_hex_lower [of salt] to_hex_lower [of d]
    by (simp add: h verifyCredentialSecret_def parseScryptHash_def verifySecret_def stored_secret_parts numerals_read_def of_hex_to_hex
        from_hex_lower split: option.split)
qed

theorem credential_secret_agrees_witness:
  "\<exists>h. hashSecret sample_crypto [1, 2] (lit ''pw'') = Some h \<and>
     verifyCredentialSecret sample_crypto (scrypt sample_crypto) (sample_credential\<lparr>c_secret_hash := h\<rparr>) (lit ''pw'') =
       verifySecret sample_crypto h (lit ''pw'')"
proof -
  obtain h where h: "hashSecret sample_crypto [1, 2] (lit ''pw'') = Some h" by (simp add: hashSecret_def sample_crypto_def)
  with credential_secret_agrees [OF sample_crypto_laws, of "[1, 2]" "lit ''pw''" "sample_credential\<lparr>c_secret_hash := h\<rparr>" "scrypt sample_crypto"]
  show ?thesis by (simp add: byte_string_def)
qed

lemma index_of_unit_append: "c \<notin> set k \<Longrightarrow> index_of_unit c (k @ c # s) = Some (length k)"
  by (induction k) auto

text \<open>A header is read back exactly: key identifiers have no colon, secrets are not empty.\<close>

lemma credential_header:
  assumes "58 \<notin> set k" "k \<noteq> []" "secret \<noteq> []"
  shows "parseSubmissionCredentialHeader (Some (lit ''Bearer '' @ k @ 58 # secret)) = Some (k, secret)"
  using assms index_of_unit_append [OF assms(1), of secret]
  by (simp add: parseSubmissionCredentialHeader_def slice_from_def JS_Prelude.slice_def starts_with_def lit_def)

section \<open>A server small enough to evaluate\<close>

definition sample_sub :: sub_env where
  "sample_sub = \<lparr>schema_valid = (\<lambda>_ _. True),
     jcs = (\<lambda>v. case canonicalizeProtocolJson sample_constant v of Inr t \<Rightarrow> JcsText t | Inl _ \<Rightarrow> JcsThrow),
     plat = sample_constant, tx = sample_text, se_crypto = sample_crypto, se_scrypt = scrypt sample_crypto, date_ms = (\<lambda>_. 50),
     se_gcm = sample_gcm, se_envelope = None, boundGate = JObj [(lit ''environment_profile'', jstr ''local'')], verifyIntakeSubmission = (\<lambda>_. Inl ()),
     prepareVendorReceipt = (\<lambda>_ _ _ _. Inl ()), completeVendorReceipt = (\<lambda>_ _ _. Inl ()), buildSubmissionOutcome = (\<lambda>_. Inl ()),
     ks_key_id = [], ks_key_version = [], ks_sign = (\<lambda>_ _. Inl ()), ks_verify = (\<lambda>_ _ _. Inl ())\<rparr>"

definition sample_header :: "ustr option" where "sample_header = Some (lit ''Bearer k1:s'')"

definition sample_reference :: "string \<Rightarrow> jsval" where
  "sample_reference d = JObj [(lit ''digest'', jstr d), (lit ''artifact_ref'', jstr ''f''), (lit ''source_derived_class'', jstr ''c'')]"

definition sample_manifest :: jsval where
  "sample_manifest = JObj [(lit ''artifact_references'', JArr [sample_reference ''x'', sample_reference ''y''])]"

definition sample_attempt :: attemptRecord where
  "sample_attempt = \<lparr>at_id = lit ''a1'', at_review_id = lit ''r1'', at_tenant_id = lit ''t1'', at_token_key_id = lit ''k1'',
     at_manifest_id = lit ''m1'', at_evidence_bundle_id = lit ''b1'',
     at_bundle_manifest_body = plain_text sample_constant sample_manifest,
     at_signature_envelope_body = [], at_customer_approval_body = [], at_approved_outbound_manifest_body = []\<rparr>"

definition sample_server :: "(ustr, ustr) jmap \<Rightarrow> sub_state" where
  "sample_server outcomes = \<lparr>
     st_credentials = \<lparr>issued = [(lit ''k1'', (sample_credential\<lparr>c_secret_hash := lit ''scrypt$1$1$1$00$73''\<rparr>, 100))], c_revocations = []\<rparr>,
     st_attempts = \<lparr>att_rows = [(lit ''a1'', sample_attempt), (lit ''a2'', sample_attempt\<lparr>at_id := lit ''a2'', at_token_key_id := lit ''k2''\<rparr>)],
       att_outcomes = outcomes\<rparr>,
     st_classifications = [], st_artifacts = \<lparr>objects = [(lit ''x'', [1])], deletionEvidence_rows = []\<rparr>, st_lifecycle = [],
     st_review_log = [], st_jobs = [], st_receipts = []\<rparr>"

definition sample_clock :: "string \<Rightarrow> clock" where "sample_clock t = (\<lambda>_. lit t)"

definition sample_received :: jsval where
  "sample_received = JObj [(lit ''protocol_version'', jstr ''codeattest.v0''), (lit ''bundle_instance_id'', jstr ''b''),
     (lit ''submission_attempt_id'', jstr ''a4''), (lit ''outcome_state'', jstr ''received_with_receipt'')]"

definition sample_issue :: sub_env where
  "sample_issue = sample_sub\<lparr>verifyIntakeSubmission := (\<lambda>_. Inr (JObj [(lit ''state'', jstr ''verified'')])),
     buildSubmissionOutcome := (\<lambda>_. Inr (Inr sample_received)), ks_verify := (\<lambda>_ _ _. Inr JNull)\<rparr>"

definition sample_issue_server :: sub_state where
  "sample_issue_server = sample_server []\<lparr>st_attempts := \<lparr>att_rows = [(lit ''a4'', sample_attempt\<lparr>at_id := lit ''a4'',
     at_bundle_manifest_body := lit ''{}'', at_signature_envelope_body := lit ''{}'', at_customer_approval_body := lit ''{}'',
     at_approved_outbound_manifest_body := lit ''{}''\<rparr>)], att_outcomes = []\<rparr>\<rparr>"

lemma sample_first_finalize: "snd (finalize sample_issue sample_issue_server sample_header (lit ''a4'') (sample_clock ''2024-01-01T00:00:00Z'') (NInt 0)) = outcome_reply sample_received"
  by code_simp

text \<open>The first request takes the whole path and records the outcome; the second finds it.\<close>

theorem finalize_idempotent_witness:
  "\<exists>st' st''. finalize sample_issue sample_issue_server sample_header (lit ''a4'') (sample_clock ''2024-01-01T00:00:00Z'') (NInt 0) = (st', outcome_reply sample_received) \<and>
     finalize sample_issue st' sample_header (lit ''a4'') (sample_clock ''2024-01-01T00:00:01Z'') (NInt 1) = (st'', outcome_reply sample_received)"
proof -
  obtain st' where f: "finalize sample_issue sample_issue_server sample_header (lit ''a4'') (sample_clock ''2024-01-01T00:00:00Z'') (NInt 0) = (st', outcome_reply sample_received)"
    using sample_first_finalize by (metis prod.collapse)
  have p: "plain_json (plat sample_issue) sample_received" by (simp add: sample_received_def own_order_names is_digit_def)
  have "st_credentials st' = st_credentials sample_issue_server" using finalize_stores [OF f p] by metis
  moreover have "authenticate sample_issue sample_issue_server (parseSubmissionCredentialHeader sample_header) (sample_clock ''2024-01-01T00:00:01Z'' At_authentication) \<noteq> None" by code_simp
  ultimately have "authenticate sample_issue st' (parseSubmissionCredentialHeader sample_header) (sample_clock ''2024-01-01T00:00:01Z'' At_authentication) \<noteq> None"
    by (simp only: authenticate_def simp_thms)
  then obtain st'' where "finalize sample_issue st' sample_header (lit ''a4'') (sample_clock ''2024-01-01T00:00:01Z'') (NInt 1) = (st'', outcome_reply sample_received)"
    using finalize_idempotent [OF f p] by blast
  with f show ?thesis by blast
qed

theorem foreign_attempt_hidden_witness:
  "snd (finalize sample_sub (sample_server []) sample_header (lit ''a2'') (sample_clock ''t1'') (NInt 0)) =
   snd (finalize sample_sub (forget_attempt (sample_server []) (lit ''a2'')) sample_header (lit ''a2'') (sample_clock ''t1'') (NInt 0))"
proof -
  have a: "attempt_find (st_attempts (sample_server [])) (lit ''a2'') = Some (sample_attempt\<lparr>at_id := lit ''a2'', at_token_key_id := lit ''k2''\<rparr>)"
    by (simp add: attempt_find_def sample_server_def)
  have "case authenticate sample_sub (sample_server []) (parseSubmissionCredentialHeader sample_header) (sample_clock ''t1'' At_authentication) of
      None \<Rightarrow> True | Some cred \<Rightarrow> token_key_id cred \<noteq> lit ''k2''" by code_simp
  then have "\<forall>cred. authenticate sample_sub (sample_server []) (parseSubmissionCredentialHeader sample_header) (sample_clock ''t1'' At_authentication) = Some cred \<longrightarrow>
      token_key_id cred \<noteq> at_token_key_id (sample_attempt\<lparr>at_id := lit ''a2'', at_token_key_id := lit ''k2''\<rparr>)"
    by (auto split: option.splits)
  from foreign_attempt_hidden [where now = "sample_clock ''t1''", OF a this] show ?thesis by blast
qed


definition sample_digest :: string where
  "sample_digest = ''sha256:0707070707070707070707070707070707070707070707070707070707070707''"

definition sample_upload_attempt :: attemptRecord where
  "sample_upload_attempt = sample_attempt\<lparr>at_id := lit ''a3'',
     at_bundle_manifest_body := plain_text sample_constant (JObj [(lit ''artifact_references'', JArr [sample_reference sample_digest])])\<rparr>"

definition sample_upload_server :: sub_state where
  "sample_upload_server = sample_server []\<lparr>st_attempts := \<lparr>att_rows = [(lit ''a3'', sample_upload_attempt)], att_outcomes = []\<rparr>,
     st_artifacts := \<lparr>objects = [], deletionEvidence_rows = []\<rparr>\<rparr>"

theorem stored_artifacts_match_digests_witness:
  "(\<lambda>st. jm_get (objects (st_artifacts st)) (lit sample_digest) = Some [1] \<and> artifacts_ok sample_sub st)
     (foldl (sub_exec sample_sub) sample_upload_server [Put_op sample_header (lit ''a3'') (lit sample_digest) (Some [1]) [] (sample_clock ''t1'')])"
proof -
  let ?ops = "[Put_op sample_header (lit ''a3'') (lit sample_digest) (Some [1]) [] (sample_clock ''t1'')]"
  have "jm_get (objects (st_artifacts (foldl (sub_exec sample_sub) sample_upload_server ?ops))) (lit sample_digest) = Some [1]"
    by code_simp
  moreover have "artifacts_ok sample_sub sample_upload_server" by (simp add: artifacts_ok_def sample_upload_server_def)
  ultimately show ?thesis using stored_artifacts_match_digests [of sample_sub sample_upload_server ?ops] by blast
qed

definition sample_premature :: premature where
  "sample_premature = \<lparr>pm_attempt = sample_attempt,
     pm_manifest = sample_manifest,
     pm_first = sample_reference ''x'', pm_second = sample_reference ''y'',
     pm_event = access_event (submission_access_request sample_constant intake_access sample_attempt (sample_reference ''x'') (lit ''t1'')) (jint 0),
     pm_bytes = [1]\<rparr>"

lemma code_units_slice: "code_units s \<Longrightarrow> code_units (JS_Prelude.slice a b s)"
  by (auto simp: code_units_def JS_Prelude.slice_def dest!: in_set_takeD in_set_dropD)

lemma sample_request_json:
  "json_data sample_constant (submission_access_request sample_constant intake_access sample_attempt (sample_reference ''x'') (lit t))"
proof -
  have "code_units (to_hex (replicate 32 7))"
    using to_hex_lower [of "replicate 32 7"] by (auto simp: byte_string_def code_units_def list_all_iff is_lower_hex_def)
  then show ?thesis
    by (simp add: submission_access_request_def sample_attempt_def intake_access_def access_key_def or_else_def sample_reference_def
        sample_constant_def Let_def code_units_slice)
qed

lemma sample_premature_event:
  "mintSubmissionAccess sample_sub intake_access [] sample_attempt (sample_reference ''x'') (lit ''t1'') = Inr (Some (pm_event sample_premature))"
  "\<exists>t. canonicalizeProtocolJson sample_constant (pm_event sample_premature) = Inr t"
  "json_data sample_constant (pm_event sample_premature)"
proof -
  show "mintSubmissionAccess sample_sub intake_access [] sample_attempt (sample_reference ''x'') (lit ''t1'') = Inr (Some (pm_event sample_premature))"
    by code_simp
  have "\<not> isl (canonicalizeProtocolJson sample_constant (pm_event sample_premature))" by code_simp
  then show "\<exists>t. canonicalizeProtocolJson sample_constant (pm_event sample_premature) = Inr t" by (metis sum.collapse(2))
  show "json_data sample_constant (pm_event sample_premature)"
    using access_event_json [OF sample_request_json, of "jint 0"] by (simp add: sample_premature_def)
qed

lemma sample_is_premature: "\<exists>logs'. is_premature sample_sub (sample_server []) sample_header (lit ''a1'') (sample_clock ''t1'') logs' sample_premature"
proof -
  let ?ev = "pm_event sample_premature"
  obtain t where t: "canonicalizeProtocolJson sample_constant ?ev = Inr t" using sample_premature_event(2) by blast
  have "event_review_id ?ev = lit ''r1''"
    using mint_event(1) [OF sample_premature_event(1)] by (simp add: sample_attempt_def)
  with t parse_body_canonical [OF t sample_premature_event(3)]
  obtain logs' where g: "artifact_get sample_gcm None (log_append sample_constant) [] (st_artifacts (sample_server [])) ?ev (lit ''x'') = Inr (logs', Read [1])"
    by (simp add: artifact_get_def sample_server_def log_append_def log_entries_def toCanonicalRow_def computeCanonicalSha256Id_def isEnvelope_def MAGIC_def)
  have p: "parseSubmissionCredentialHeader sample_header = Some (lit ''k1'', lit ''s'')" by code_simp
  have "case authenticate sample_sub (sample_server []) (Some (lit ''k1'', lit ''s'')) (sample_clock ''t1'' At_authentication) of
      None \<Rightarrow> False | Some cred \<Rightarrow> token_key_id cred = lit ''k1''" by code_simp
  then obtain cred where c: "authenticate sample_sub (sample_server []) (Some (lit ''k1'', lit ''s'')) (sample_clock ''t1'' At_authentication) = Some cred"
    "token_key_id cred = lit ''k1''" by (auto split: option.splits)
  have m: "json_parse sample_constant (at_bundle_manifest_body sample_attempt) = Some (pm_manifest sample_premature)"
    using parse_stringify [of sample_constant sample_manifest]
    by (simp add: sample_attempt_def sample_premature_def sample_manifest_def sample_reference_def own_order_names is_digit_def)
  show ?thesis
    unfolding is_premature_def
    using g p c m sample_premature_event(1)
    by (intro exI [of _ logs']) (auto simp: sample_premature_def sample_sub_def sample_server_def sample_attempt_def sample_clock_def attempt_find_def findOutcome_def sample_manifest_def sample_reference_def)
qed

theorem premature_finalize_is_final_witness:
  "\<forall>code v. snd (finalize sample_sub (fst (finalize sample_sub (sample_server []) sample_header (lit ''a1'') (sample_clock ''t1'') (NInt 0)))
     sample_header (lit ''a1'') (sample_clock ''t2'') (NInt 0)) \<noteq> Reply code v"
proof -
  obtain logs' where p: "is_premature sample_sub (sample_server []) sample_header (lit ''a1'') (sample_clock ''t1'') logs' sample_premature"
    using sample_is_premature by blast
  have j: "jcs_rfc8785 sample_sub"
    using canonicalize_eq_iff [of sample_constant] by (auto simp: jcs_rfc8785_def sample_sub_def split: sum.splits)
  have l: "log_inv (plat sample_sub) (st_lifecycle (sample_server []))" by (simp add: log_inv_def log_entries_def sample_server_def)
  have e: "json_data (plat sample_sub) (pm_event sample_premature)" using sample_premature_event(3) by (simp add: sample_sub_def)
  have n: "\<forall>e \<in> set (log_events (plat sample_sub) (st_lifecycle (sample_server [])) (at_review_id (pm_attempt sample_premature))).
      event_key e \<noteq> access_key intake_access (pm_attempt sample_premature) (the_str (field (pm_first sample_premature) ''digest''))"
    by (simp add: log_events_def loadLog_def log_entries_def sample_server_def)
  have r: "json_data (plat sample_sub) (submission_access_request (plat sample_sub) intake_access (pm_attempt sample_premature)
      (pm_first sample_premature) (sample_clock ''t2'' (At_access 0)))"
    using sample_request_json [of "''t2''"] by (simp add: sample_sub_def sample_premature_def sample_clock_def)
  from premature_finalize_is_final [where uploads = "[]" and later = "sample_clock ''t2''", OF p j l e n _ refl _ r] show ?thesis by (simp add: sample_clock_def)
qed

end
