(* ===== verification/Rate_Limit.thy ===== *)
theory Rate_Limit
  imports Host_Auth
begin

text \<open>
  The request cap of the host (\<^verbatim>\<open>services/host/src/rate-limit.ts\<close>): a counter per client network and
  fixed window, with the windows that have expired removed when the map grows. Times are milliseconds
  since the epoch.
\<close>

record rateLimitOptions =
  rl_max :: nat
  rl_windowMs :: int
  rl_exemptRoutes :: "ustr list"

record rl_window =
  w_count :: nat
  w_resetAt :: int

type_synonym rl_state = "(ustr, rl_window) jmap"

datatype rl_result = Passed | Limited int | Rate_threw

text \<open>\<^verbatim>\<open>Math.max(1, Math.ceil(ms / 1000))\<close>.\<close>

definition retryAfterSeconds :: "int \<Rightarrow> int" where
  "retryAfterSeconds ms = max 1 (- ((- ms) div 1000))"

definition evict_windows :: "int \<Rightarrow> rl_state \<Rightarrow> rl_state" where
  "evict_windows time windows =
     (if length windows > 1024 then filter (\<lambda>p. \<not> time \<ge> w_resetAt (snd p)) windows else windows)"

definition rate_limit :: "auth_env \<Rightarrow> rateLimitOptions \<Rightarrow> rl_state \<Rightarrow> ustr \<Rightarrow> ustr \<Rightarrow> int \<Rightarrow> rl_state \<times> rl_result" where
  "rate_limit E opts windows route client time =
     (if route \<in> set (rl_exemptRoutes opts) then (windows, Passed)
      else
        (case clientNetworkKey E client of
           None \<Rightarrow> (windows, Rate_threw)
         | Some key \<Rightarrow>
             (let fresh = \<lparr>w_count = 0, w_resetAt = time + rl_windowMs opts\<rparr>;
                  window = (case jm_get windows key of None \<Rightarrow> fresh | Some w \<Rightarrow> if time \<ge> w_resetAt w then fresh else w);
                  counted = window\<lparr>w_count := w_count window + 1\<rparr> in
              (evict_windows time (jm_set windows key counted),
               if w_count counted > rl_max opts then Limited (retryAfterSeconds (w_resetAt counted - time)) else Passed))))"

section \<open>At most two windows in one window's time\<close>

text \<open>The window of a key that still counts at a time.\<close>

definition active :: "rl_state \<Rightarrow> ustr \<Rightarrow> int \<Rightarrow> rl_window option" where
  "active windows key t = (case jm_get windows key of None \<Rightarrow> None | Some w \<Rightarrow> if t \<ge> w_resetAt w then None else Some w)"

lemma map_of_filter_value:
  assumes "distinct (map fst m)"
  shows "map_of (filter (\<lambda>p. Q (snd p)) m) k = (case map_of m k of None \<Rightarrow> None | Some v \<Rightarrow> if Q v then Some v else None)"
  using assms
proof (induction m)
  case (Cons p m)
  show ?case
  proof (cases "fst p = k")
    case True
    then have "map_of m k = None" using Cons.prems by (auto simp: map_of_eq_None_iff)
    with Cons True show ?thesis by simp
  qed (use Cons in simp)
qed simp

lemma active_evict:
  assumes "jm_wf windows" "t \<le> u"
  shows "active (evict_windows t windows) key u = active windows key u"
  using assms map_of_filter_value [of windows "\<lambda>w. \<not> t \<ge> w_resetAt w" key]
  by (auto simp: active_def evict_windows_def jm_wf_def split: option.splits)

lemma evict_wf: "jm_wf windows \<Longrightarrow> jm_wf (evict_windows t windows)"
  by (auto simp: jm_wf_def evict_windows_def distinct_map_filter)

lemma rate_limit_wf:
  assumes "jm_wf windows"
  shows "jm_wf (fst (rate_limit E opts windows route client t))"
  using assms by (auto simp: rate_limit_def Let_def evict_wf split: option.splits)

definition counted_key :: "auth_env \<Rightarrow> rateLimitOptions \<Rightarrow> ustr \<Rightarrow> ustr \<Rightarrow> ustr option" where
  "counted_key E opts route client = (if route \<in> set (rl_exemptRoutes opts) then None else clientNetworkKey E client)"

text \<open>One request, as the active windows see it.\<close>

lemma rate_limit_other:
  assumes "jm_wf windows" "counted_key E opts route client \<noteq> Some key" "t \<le> u"
  shows "active (fst (rate_limit E opts windows route client t)) key u = active windows key u"
proof (cases "counted_key E opts route client")
  case None
  then show ?thesis by (auto simp: rate_limit_def counted_key_def split: if_splits option.splits)
next
  case (Some k)
  have "active (jm_set windows k w) key u = active windows key u" for w
    using Some assms(2) by (simp add: active_def)
  then show ?thesis
    using Some assms active_evict [OF jm_wf_set [OF assms(1)] assms(3)]
    by (auto simp: rate_limit_def counted_key_def Let_def split: if_splits)
qed

lemma rate_limit_own:
  assumes "jm_wf windows" "counted_key E opts route client = Some key" "t \<le> u" "0 < rl_windowMs opts"
  shows "\<exists>w. active (fst (rate_limit E opts windows route client t)) key u = (if u \<ge> w_resetAt w then None else Some w) \<and>
    (snd (rate_limit E opts windows route client t) = Passed \<longleftrightarrow> w_count w \<le> rl_max opts) \<and>
    (case active windows key t of None \<Rightarrow> w_count w = 1 \<and> w_resetAt w = t + rl_windowMs opts
     | Some v \<Rightarrow> w_count w = w_count v + 1 \<and> w_resetAt w = w_resetAt v)"
proof -
  let ?v = "case active windows key t of None \<Rightarrow> \<lparr>w_count = 0, w_resetAt = t + rl_windowMs opts\<rparr> | Some v \<Rightarrow> v"
  let ?w = "?v\<lparr>w_count := w_count ?v + 1\<rparr>"
  have k: "route \<notin> set (rl_exemptRoutes opts)" "clientNetworkKey E client = Some key"
    using assms(2) by (auto simp: counted_key_def split: if_splits)
  have "?v = (case jm_get windows key of None \<Rightarrow> \<lparr>w_count = 0, w_resetAt = t + rl_windowMs opts\<rparr>
      | Some w \<Rightarrow> if t \<ge> w_resetAt w then \<lparr>w_count = 0, w_resetAt = t + rl_windowMs opts\<rparr> else w)"
    by (auto simp: active_def split: option.split)
  then have r: "rate_limit E opts windows route client t = (evict_windows t (jm_set windows key ?w),
      if w_count ?w > rl_max opts then Limited (retryAfterSeconds (w_resetAt ?w - t)) else Passed)"
    using k by (simp add: rate_limit_def Let_def)
  have "active (evict_windows t (jm_set windows key ?w)) key u = (if u \<ge> w_resetAt ?w then None else Some ?w)"
    using active_evict [OF jm_wf_set [OF assms(1)] assms(3)] by (simp add: active_def)
  then show ?thesis unfolding r by (intro exI [of _ ?w]) (auto split: option.split)
qed

record rl_request =
  rq_route :: ustr
  rq_client :: ustr
  rq_time :: int

fun rl_passes :: "auth_env \<Rightarrow> rateLimitOptions \<Rightarrow> ustr \<Rightarrow> rl_state \<Rightarrow> rl_request list \<Rightarrow> nat" where
  "rl_passes E opts key windows [] = 0"
| "rl_passes E opts key windows (r # rs) =
     (case rate_limit E opts windows (rq_route r) (rq_client r) (rq_time r) of (windows', result) \<Rightarrow>
        (if counted_key E opts (rq_route r) (rq_client r) = Some key \<and> result = Passed then 1 else 0) + rl_passes E opts key windows' rs)"

text \<open>What can still pass before \<open>b\<close>, given the active window.\<close>

definition allowance :: "rateLimitOptions \<Rightarrow> int \<Rightarrow> rl_window option \<Rightarrow> nat" where
  "allowance opts b w =
     (case w of None \<Rightarrow> rl_max opts | Some w \<Rightarrow> (rl_max opts - w_count w) + (if w_resetAt w < b then rl_max opts else 0))"

lemma passes_allowance:
  assumes "jm_wf windows" "0 < rl_windowMs opts" "sorted (map rq_time rs)" "\<forall>r \<in> set rs. b - rl_windowMs opts \<le> rq_time r \<and> rq_time r < b"
    and "\<forall>r \<in> set rs. t \<le> rq_time r"
  shows "rl_passes E opts key windows rs \<le> allowance opts b (active windows key t)"
  using assms
proof (induction rs arbitrary: windows t)
  case (Cons r rs)
  obtain windows' res where s: "rate_limit E opts windows (rq_route r) (rq_client r) (rq_time r) = (windows', res)" by fastforce
  have wf: "jm_wf windows'" using rate_limit_wf [OF Cons.prems(1)] s by (metis fst_conv)
  note IH = Cons.IH [OF wf Cons.prems(2), of "rq_time r"]
  have mono: "allowance opts b (active windows key (rq_time r)) \<le> allowance opts b (active windows key t)"
    using Cons.prems(4,5) by (auto simp: allowance_def active_def split: option.split)
  show ?case
  proof (cases "counted_key E opts (rq_route r) (rq_client r) = Some key")
    case False
    with rate_limit_other [OF Cons.prems(1) False, of "rq_time r" "rq_time r"] s
    have "active windows' key (rq_time r) = active windows key (rq_time r)" by simp
    with IH Cons.prems False s mono show ?thesis by simp
  next
    case True
    from rate_limit_own [OF Cons.prems(1) True, of "rq_time r" "rq_time r"] Cons.prems(2) s
    obtain w where w: "active windows' key (rq_time r) = (if rq_time r \<ge> w_resetAt w then None else Some w)"
      "res = Passed \<longleftrightarrow> w_count w \<le> rl_max opts"
      "case active windows key (rq_time r) of None \<Rightarrow> w_count w = 1 \<and> w_resetAt w = rq_time r + rl_windowMs opts
        | Some v \<Rightarrow> w_count w = w_count v + 1 \<and> w_resetAt w = w_resetAt v"
      by auto
    have lt: "rq_time r < w_resetAt w"
      using w(3) Cons.prems(2) by (auto simp: active_def split: option.splits if_splits)
    have "rl_passes E opts key windows' rs \<le> allowance opts b (Some w)"
      using IH Cons.prems w(1) lt by simp
    moreover have "(if res = Passed then 1 else 0) + allowance opts b (Some w) \<le> allowance opts b (active windows key (rq_time r))"
      using w(2,3) Cons.prems(4) by (auto simp: allowance_def split: option.splits)
    ultimately show ?thesis using s True mono by simp
  qed
qed simp

text \<open>C33: the cap holds over any interval. In any stretch of time as long as a window, at most twice the
  configured number of requests of one client network get through, whatever other clients send, from
  whatever state, and however often expired windows are evicted.\<close>

theorem rate_limit_bounds_passes:
  assumes "jm_wf windows" "0 < rl_windowMs opts" "sorted (map rq_time rs)"
    and "\<forall>r \<in> set rs. a \<le> rq_time r \<and> rq_time r < a + rl_windowMs opts"
  shows "rl_passes E opts key windows rs \<le> 2 * rl_max opts"
proof -
  have "rl_passes E opts key windows rs \<le> allowance opts (a + rl_windowMs opts) (active windows key a)"
    using assms by (intro passes_allowance) simp_all
  also have "\<dots> \<le> 2 * rl_max opts" by (auto simp: allowance_def split: option.split)
  finally show ?thesis .
qed

definition sample_options :: rateLimitOptions where
  "sample_options = \<lparr>rl_max = 1, rl_windowMs = 1000, rl_exemptRoutes = [lit ''/healthz'', lit ''/readyz'']\<rparr>"

theorem rate_limit_bounds_passes_witness:
  "rl_passes sample_auth sample_options (lit ''c'') []
     [\<lparr>rq_route = lit ''/v0'', rq_client = lit ''c'', rq_time = 0\<rparr>, \<lparr>rq_route = lit ''/v0'', rq_client = lit ''c'', rq_time = 10\<rparr>] \<le> 2"
  using rate_limit_bounds_passes [of "[]" sample_options "[\<lparr>rq_route = lit ''/v0'', rq_client = lit ''c'', rq_time = 0\<rparr>,
     \<lparr>rq_route = lit ''/v0'', rq_client = lit ''c'', rq_time = 10\<rparr>]" 0 sample_auth "lit ''c''"]
  by (simp add: sample_options_def)

text \<open>A client that stays within its cap is never refused.\<close>

lemma within_cap_passes:
  assumes "jm_wf windows" "0 < rl_windowMs opts" "counted_key E opts route client = Some key"
    and "case active windows key t of None \<Rightarrow> 0 < rl_max opts | Some w \<Rightarrow> w_count w < rl_max opts"
  shows "snd (rate_limit E opts windows route client t) = Passed"
  using rate_limit_own [OF assms(1,3) order_refl assms(2), of t] assms(4) by (auto split: option.splits)

end
