(* ===== verification/Spec2Isabelle.thy ===== *)
theory Spec2Isabelle
  imports Canonical_Identity Append_Only_Log Evidence_Stores Artifact_Store Retention_Expiry Lifecycle_Log
    Review_Event_Log Host_Auth Transparency Submission_Outcome Submission_Routes Rate_Limit
begin

text \<open>
  CodeSanctum (the CodeAttest system): a verification development.

  \<^bold>\<open>The program.\<close> Customers submit signed evidence bundles; reviewers record what they conclude in an
  append-only review log; every access to evidence is itself an event of a lifecycle log; logs are
  published as checkpoints that anyone can verify. The TypeScript sources have four layers. The protocol
  package (\<^verbatim>\<open>packages/protocol-ts\<close>) has canonical JSON, content identities, timestamps, claim-safety
  rules and client-side verifiers. The control plane (\<^verbatim>\<open>apps/control-plane/src/index.ts\<close>) is the pure
  authority: it decides which event may be appended, who may read which evidence, and what a customer
  sees. The evidence store and the identity store (\<^verbatim>\<open>packages/evidence-store\<close>,
  \<^verbatim>\<open>packages/identity-store\<close>) keep logs, records, artifacts, jobs, accounts, sessions and credentials.
  The host (\<^verbatim>\<open>services/host\<close>) composes them in HTTP handlers: a handler loads from a store, asks the
  control plane, and persists what it answered.

  \<^bold>\<open>How the code is represented.\<close> A string is a list of UTF-16 code units (\<open>ustr\<close>), a value of type
  \<^verbatim>\<open>unknown\<close> is a \<open>jsval\<close>, whose objects list their members in the order of own keys, a \<^verbatim>\<open>Map\<close> is an association
  list in insertion order (\<open>jmap\<close>), a
  number is an integer, a fraction or not finite. A store is a record or a map that its operations
  return updated; an exception is an \<open>Inl\<close>, or the reply \<open>Threw\<close> with the state the handler left
  behind. An asynchronous operation runs to its end, so a sequence of requests is a sequence of steps
  in the order the server answers them; two handlers interleaved at an \<^verbatim>\<open>await\<close> are not modelled.
  Definitions keep the names of the source; a helper of the model that is a part of a function (a loop,
  a branch) has a name of its own in lower case. Every definition that models code computes.

  \<^bold>\<open>Theories\<close>, each opening with what it holds:

  \<^item> \<open>JS_Prelude\<close>: the values and primitives of JavaScript, errors as sums, the collections
    \<open>js_simps\<close> and \<open>jm_simps\<close>, and the lemmas on maps, lists and searches that the others share.
  \<^item> \<open>Json_Text\<close>: \<^verbatim>\<open>JSON.stringify\<close> of strings and numbers, \<^verbatim>\<open>JSON.parse\<close> with its order of members
    (\<open>own_order\<close>: array indices first, ascending, then the others as written), UTF-8 both ways.
  \<^item> \<open>Canonical_Identity\<close> (\<^verbatim>\<open>canonical-identity.ts\<close>, \<^verbatim>\<open>canonical-row.ts\<close>): the canonical text parses
    back to the data, is equal exactly for data that differ in member order, and so an identity binds
    its content up to a SHA-256 collision, which the theorems exhibit instead of assuming it away.
  \<^item> \<open>Append_Only_Log\<close> (\<^verbatim>\<open>memory/append-only-log.ts\<close> and the two log stores): histories only grow,
    replays are no-ops, a changed body under a used key is refused. The log reads the key and the
    sequence number of an event at their declared types.
  \<^item> \<open>Evidence_Stores\<close> (\<^verbatim>\<open>memory/record-stores.ts\<close>, \<^verbatim>\<open>readiness-stores.ts\<close>, \<^verbatim>\<open>job-queue.ts\<close>): write-once
    records, and claims of the job queue.
  \<^item> \<open>Artifact_Store\<close> (\<^verbatim>\<open>memory/artifact-store.ts\<close>, \<^verbatim>\<open>envelope-encryption.ts\<close>,
    \<^verbatim>\<open>deletion-evidence-append.ts\<close>): bytes leave only with a logged access, source-derived bytes are
    encrypted at rest.
  \<^item> \<open>Retention_Expiry\<close> (\<^verbatim>\<open>retention-expiry.ts\<close>): which artifacts a run of
    catch-up and drain removes, from any queue earlier runs leave, and when the drain does not return.
  \<^item> \<open>Timestamps\<close> (\<^verbatim>\<open>validation.ts\<close> and its copy in the control plane): the calendar, and that
    comparing timestamps compares instants of POSIX time, which has no leap seconds.
  \<^item> \<open>Lifecycle_Log\<close> (control plane): classification, lifecycle events and scoped access.
  \<^item> \<open>Reg_Exp\<close> and \<open>Claim_Safety\<close> (\<^verbatim>\<open>claim-safety.ts\<close>): the regular expressions of the rules, and that
    the forbidden-phrase check is exactly its specification.
  \<^item> \<open>Event_Identity\<close> and \<open>Review_Event_Log\<close> (control plane): event identities, the append with its
    authority rules, replay validation, and the customer projection.
  \<^item> \<open>Identity_Store\<close> and \<open>Host_Auth\<close> (\<^verbatim>\<open>identity-store\<close>; \<^verbatim>\<open>host/src/auth\<close>, \<^verbatim>\<open>routes/auth.ts\<close>): accounts,
    secrets, one-time codes, sessions, credentials, the login routes and the evidence gate.
  \<^item> \<open>Rate_Limit\<close> (\<^verbatim>\<open>host/src/rate-limit.ts\<close>): how many requests of a client network get through.
  \<^item> \<open>Transparency\<close> (\<^verbatim>\<open>evidence-store/src/transparency\<close>, \<^verbatim>\<open>transparency-verify.ts\<close>,
    \<^verbatim>\<open>worker/transparency.ts\<close>): chain heads, Merkle checkpoints, inclusion proofs and publication.
  \<^item> \<open>Submission_Outcome\<close> (control plane, \<^verbatim>\<open>submission/review-events.ts\<close>): the event an outcome becomes
    and its append to the review log.
  \<^item> \<open>Submission_Routes\<close> (\<^verbatim>\<open>routes/submissions.ts\<close>, \<^verbatim>\<open>submission/\<close>): opening, uploading and finalizing a
    submission over all the stores above.
  \<^item> This theory: what the composed system keeps over any sequence of submission requests.

  \<^bold>\<open>Interfaces.\<close> \<open>event_log\<close> is the contract of an append-only log, interpreted by the in-memory log
  (\<open>memory_log\<close>); \<open>write_once\<close> is the contract of a record store, interpreted by classifications,
  retention records, gate versions and readiness records; \<open>revocable_store\<close> is the contract of a store whose
  handles can be revoked, interpreted by sessions and by submission credentials. The theorems about
  histories, first writes and revocation are proved in the locales and applied through these
  interpretations. Abstract specifications are the relations \<open>review_reachable\<close>,
  \<open>lifecycle_reachable\<close> and \<open>auth_reach\<close> of states that operations can build; replay validation
  is shown to accept every log they build.

  \<^bold>\<open>Parameters and hypotheses.\<close> Code outside the repository is a parameter: SHA-256, the decimal text of
  a fraction and the reading of a numeral (record \<open>platform\<close>), scrypt, HMAC and AES-GCM
  (\<open>id_crypto\<close>, \<open>gcm\<close>), Unicode normalization and lower-casing (\<open>text_platform\<close>), the npm package
  \<^verbatim>\<open>canonicalize\<close> (\<open>jcs\<close>), \<^verbatim>\<open>isIPv6\<close>, the collation of \<^verbatim>\<open>localeCompare\<close>, the anchor of the transparency log, random bytes and
  the clock. What is assumed of them is named: \<open>sha256_digests\<close> (32 bytes), \<open>gcm_correct\<close>
  (decryption undoes encryption), \<open>scrypt_derives\<close> (a key of the length asked for), \<open>numerals_read\<close>, and
  \<open>jcs_rfc8785\<close> (of JSON data, \<open>json_data\<close>, which has no undefined member and no function, the package
  writes the canonical form of RFC 8785). Nothing assumes that hashes do not collide: where a theorem
  allows for a collision it names the two texts that collide. Two parts of the repository are parameters as well: whether a value satisfies a generated schema
  (\<open>schema_valid\<close>), and the functions of the intake and key services that finalizing calls; the
  theorems hold for every choice of them.

  \<^bold>\<open>Bounds and fuel.\<close> \<open>json_parse\<close> runs with fuel twice the length of its text plus one, and
  \<open>json_parse_fuel\<close> shows that more changes nothing. The canonical encoder has the limits of the source
  (depth 64, 20000 nodes), a proof has at most 53 siblings, and a chain head covers at most 10000
  events. The endless \<^verbatim>\<open>for (;;)\<close> of the expiry drain takes fuel; \<open>None\<close> means it has not returned: a
  completed purge needs one step more than there are jobs, and a job that is not due yet exhausts every
  fuel. All other loops have termination proofs.

  \<^bold>\<open>Not modelled.\<close> The Postgres and filesystem adapters of the stores (their behaviour is that of the SQL and the file system), the HTTP
  server and start-up (input and output), the interpreter of the generated schemas, the signing library and
  key directory, the intake service's own checks, the scanner normalization of the worker, the
  budget meters (quotients of doubles with rounding), the record builders of the control plane beyond logs, access
  and submission outcomes (each assembles one record and validates its schema), static bundles, the web
  interface and the build scripts.
\<close>

section \<open>What the submission routes keep\<close>

text \<open>The old entries of every review are a prefix of the new ones.\<close>

definition log_kept :: "log_state \<Rightarrow> log_state \<Rightarrow> bool" where
  "log_kept logs logs' \<longleftrightarrow> (\<forall>r. \<exists>new. log_entries logs' r = log_entries logs r @ new)"

text \<open>From one state to a later one: both logs only extended, and every attempt, outcome, receipt,
  classification and stored object still what it was.\<close>

definition evidence_kept :: "sub_state \<Rightarrow> sub_state \<Rightarrow> bool" where
  "evidence_kept st st' \<longleftrightarrow>
     log_kept (st_review_log st) (st_review_log st') \<and> log_kept (st_lifecycle st) (st_lifecycle st') \<and>
     jm_get (att_rows (st_attempts st)) \<subseteq>\<^sub>m jm_get (att_rows (st_attempts st')) \<and>
     jm_get (att_outcomes (st_attempts st)) \<subseteq>\<^sub>m jm_get (att_outcomes (st_attempts st')) \<and>
     jm_get (st_receipts st) \<subseteq>\<^sub>m jm_get (st_receipts st') \<and>
     jm_get (st_classifications st) \<subseteq>\<^sub>m jm_get (st_classifications st') \<and>
     jm_get (objects (st_artifacts st)) \<subseteq>\<^sub>m jm_get (objects (st_artifacts st'))"

lemma log_kept_refl [simp]: "log_kept logs logs"
  by (simp add: log_kept_def)

lemma log_kept_trans: "log_kept a b \<Longrightarrow> log_kept b c \<Longrightarrow> log_kept a c"
  unfolding log_kept_def by (metis append.assoc)

lemma evidence_kept_refl [simp]: "evidence_kept st st"
  by (simp add: evidence_kept_def)

lemma evidence_kept_trans: "evidence_kept a b \<Longrightarrow> evidence_kept b c \<Longrightarrow> evidence_kept a c"
  unfolding evidence_kept_def by (meson log_kept_trans map_le_trans)

lemma log_append_kept: "log_append P logs r e = Inr (logs', out) \<Longrightarrow> log_kept logs logs'"
  using log_append_entries(1) unfolding log_kept_def by blast

lemma attempt_open_kept:
  "attempt_open A r = (A', out) \<Longrightarrow> jm_get (att_rows A) \<subseteq>\<^sub>m jm_get (att_rows A') \<and> att_outcomes A' = att_outcomes A"
  by (auto simp: attempt_open_def map_le_def split: option.splits)

lemma open_kept: "evidence_kept st (fst (open_submission E st a b now ratio))"
  by (auto simp: open_submission_def evidence_kept_def Let_def dest!: attempt_open_kept
      split: option.split sum.split prod.split openAttemptResult.split)

lemma store_kept: "evidence_kept st (fst (store_artifact E st refs r bs nonce))"
proof -
  have p: "jm_get (objects S) \<subseteq>\<^sub>m jm_get (objects S')"
    if "artifact_put G env nonce S dg bs c = Inr (S', put)" for G env S dg c S' put
    using that by (auto simp: artifact_put_def jm_has_def map_le_def split: if_splits option.splits)
  have c: "jm_get rows \<subseteq>\<^sub>m jm_get rows'" if "classification_record P rows c = Inr (rows', out)" for P rows c rows' out
    using that by (auto simp: classification_record_def jm_has_def map_le_def split: if_splits)
  show ?thesis
    by (auto simp: store_artifact_def Let_def evidence_kept_def split: storedObjectResult.split sum.split dest: p c)
qed

lemma put_kept: "evidence_kept st (fst (put_artifact E st a i dg b nonce now))"
  by (auto simp: put_artifact_def Let_def store_kept split: option.split)

lemma read_kept: "read_artifacts E now n attempt refs acc st = (st', res) \<Longrightarrow> evidence_kept st st'"
  using read_artifacts_prefix [of E now n attempt refs acc st st' res] read_artifacts_frame [of E now n attempt refs acc st]
  by (auto simp: evidence_kept_def log_kept_def)

lemma issue_kept: "issue_receipt E st attempt request now = (st', res) \<Longrightarrow> evidence_kept st st'"
proof -
  have "evidence_kept st (st\<lparr>st_receipts := fst (receipt_record P (st_receipts st) i v)\<rparr>)" for P i v
    by (auto simp: evidence_kept_def receipt_record_def jm_has_def map_le_def Let_def)
  then show "issue_receipt E st attempt request now = (st', res) \<Longrightarrow> evidence_kept st st'"
    by (auto simp: issue_receipt_def Let_def split: sum.splits if_splits)
qed

lemma event_kept:
  assumes "appendSubmissionReviewEvent E logs input = Inr (logs', res)"
  shows "log_kept logs logs'"
proof -
  from assms obtain events event a where
    "(case a of RA_rejected r _ \<Rightarrow> Inr (logs, AS_rejected (Inl r)) | RA_noop _ \<Rightarrow> Inr (logs, AS_noop)
      | RA_appended _ \<Rightarrow> sbind (unit_throw (log_append (plat E) logs (a_reviewId input) event)) (\<lambda>(logs', persisted).
          Inr (logs', case persisted of Rejected r \<Rightarrow> AS_rejected (Inr r) | Idempotent_noop _ \<Rightarrow> AS_noop | Appended _ \<Rightarrow> AS_appended)))
      = Inr (logs', res)"
    by (auto simp: appendSubmissionReviewEvent_def)
  then show ?thesis by (cases a) (auto dest: log_append_kept)
qed

lemma commit_kept: "evidence_kept st (fst (commit_outcome E st attempt manifest res now))"
proof -
  have "jm_get (att_outcomes A) \<subseteq>\<^sub>m jm_get (att_outcomes (fst (attempt_recordOutcome A i t))) \<and> att_rows (fst (attempt_recordOutcome A i t)) = att_rows A" for A i t
    by (auto simp: attempt_recordOutcome_def jm_has_def map_le_def)
  then show ?thesis
    by (auto simp: commit_outcome_def enqueueNormalization_def Let_def evidence_kept_def dest!: event_kept
        split: sum.split appendSubmissionResult.split)
qed

lemma finalize_open_kept: "evidence_kept st (fst (finalize_open E st attempt cred secret now ratio))"
  by (auto simp: finalize_open_def intro: evidence_kept_trans commit_kept
      split: option.split prod.split artifactsRead.split sum.split dest!: read_kept issue_kept)

lemma finalize_kept: "evidence_kept st (fst (finalize E st a i now ratio))"
proof -
  have "evidence_kept st (enqueueNormalization E st attempt)" for attempt
    by (simp add: enqueueNormalization_def evidence_kept_def)
  then show ?thesis
    by (auto simp: finalize_def finalize_stored_def finalize_open_kept Let_def split: option.split)
qed

text \<open>C16: nothing that was recorded is lost or rewritten. Whatever requests clients send to the submission
  routes, in whatever order, with whatever clocks, budgets and answers of intake and the key service,
  and whether the handlers answer, refuse or throw: the review log and the lifecycle log of every
  review are only extended, and every opened attempt, recorded outcome, issued receipt, classification
  and stored artifact stays exactly what it was.\<close>

theorem submission_evidence_kept: "evidence_kept st (foldl (sub_exec E) st ops)"
proof (induction ops arbitrary: st)
  case (Cons op ops)
  have "evidence_kept st (sub_exec E st op)"
    by (cases op) (simp_all add: open_kept put_kept finalize_kept)
  with Cons.IH [of "sub_exec E st op"] show ?case by (auto intro: evidence_kept_trans)
qed simp

end
